(* ===== verification/Prelude.thy ===== *)
theory Prelude
  imports Main "HOL-Library.Word"
begin

unbundle bit_operations_syntax

text \<open>
  What every theory of the development shares: the machine integers of the C++ code (a 32-bit
  \<open>int\<close> is an HOL \<open>int\<close> with the wrap-around of two's complement written out, an unsigned field
  of a packet is a word), little-endian byte strings and the byte swaps behind \<open>htons\<close>,
  \<open>htonl\<close> and their inverses, and generic facts about lists updated by index.
  The target is the one that T1/README.md builds: gcc on linux/amd64.
\<close>

named_theorems codec_simps \<open>round trips and widths of the byte encodings\<close>

section \<open>Machine integers\<close>

type_synonym byte = "8 word"
type_synonym u16 = "16 word"
type_synonym u32 = "32 word"

definition in_i32 :: "int \<Rightarrow> bool" where
  "in_i32 n \<longleftrightarrow> - (2 ^ 31) \<le> n \<and> n < 2 ^ 31"

text \<open>
  Signed overflow is undefined in C++; the model takes the two's-complement result that gcc's
  code computes at the optimisation level of the Makefile, and the theorems carry the bounds
  under which it does not occur.
\<close>

definition wrap32 :: "int \<Rightarrow> int" where
  "wrap32 n = (n + 2 ^ 31) mod 2 ^ 32 - 2 ^ 31"

lemma wrap32_id [simp]: "in_i32 n \<Longrightarrow> wrap32 n = n"
  by (simp add: wrap32_def in_i32_def)

lemma in_i32_wrap32 [simp]: "in_i32 (wrap32 n)"
proof -
  have "0 \<le> (n + 2 ^ 31) mod 2 ^ 32" and "(n + 2 ^ 31) mod 2 ^ 32 < (2::int) ^ 32"
    by simp_all
  then show ?thesis by (simp add: wrap32_def in_i32_def)
qed

lemma wrap32_wrap32_add [simp]: "wrap32 (wrap32 a + b) = wrap32 (a + b)"
proof -
  have "wrap32 a + b + 2 ^ 31 = (a + 2 ^ 31) mod 2 ^ 32 + b"
    by (simp add: wrap32_def)
  then have "(wrap32 a + b + 2 ^ 31) mod 2 ^ 32 = ((a + 2 ^ 31) mod 2 ^ 32 + b) mod 2 ^ 32"
    by (rule arg_cong)
  also have "\<dots> = (a + b + 2 ^ 31) mod 2 ^ 32"
    by (simp only: mod_add_left_eq) (simp add: algebra_simps)
  finally show ?thesis by (simp add: wrap32_def)
qed

lemma wrap32_add_wrap32 [simp]: "wrap32 (a + wrap32 b) = wrap32 (a + b)"
  by (metis add.commute wrap32_wrap32_add)

text \<open>Conversions between \<open>int\<close> and \<open>uint32_t\<close>, as gcc does them.\<close>

definition int_of_u32 :: "u32 \<Rightarrow> int" where
  "int_of_u32 w = sint w"

definition u32_of_int :: "int \<Rightarrow> u32" where
  "u32_of_int n = word_of_int n"

lemma in_i32_int_of_u32 [simp]: "in_i32 (int_of_u32 w)"
  using sint_range_size [of w] by (simp add: in_i32_def int_of_u32_def word_size)

lemma u32_of_int_of_u32 [simp]: "u32_of_int (int_of_u32 w) = w"
  by (simp add: u32_of_int_def int_of_u32_def)

lemma int_of_u32_of_int [simp]: "in_i32 n \<Longrightarrow> int_of_u32 (u32_of_int n) = n"
  by (simp add: int_of_u32_def u32_of_int_def in_i32_def sint_sbintrunc'
      signed_take_bit_int_eq_self_iff)

lemma unat_u32_of_nat: "x < 2 ^ 32 \<Longrightarrow> unat (of_nat x :: u32) = x"
  by (simp add: unat_of_nat)

section \<open>Little-endian byte strings\<close>

definition le16 :: "u16 \<Rightarrow> byte list" where
  "le16 w = [ucast w, ucast (drop_bit 8 w)]"

fun of_le16 :: "byte list \<Rightarrow> u16" where
  "of_le16 [a, b] = ucast a OR push_bit 8 (ucast b)"
| "of_le16 _ = 0"

definition le32 :: "u32 \<Rightarrow> byte list" where
  "le32 w = [ucast w, ucast (drop_bit 8 w), ucast (drop_bit 16 w), ucast (drop_bit 24 w)]"

fun of_le32 :: "byte list \<Rightarrow> u32" where
  "of_le32 [a, b, c, d] =
     ucast a OR push_bit 8 (ucast b) OR push_bit 16 (ucast c) OR push_bit 24 (ucast d)"
| "of_le32 _ = 0"

lemma length_le16 [simp, codec_simps]: "length (le16 w) = 2"
  by (simp add: le16_def)

lemma length_le32 [simp, codec_simps]: "length (le32 w) = 4"
  by (simp add: le32_def)

lemma of_le16_le16 [simp, codec_simps]: "of_le16 (le16 w) = w"
  by (rule bit_word_eqI) (auto simp: le16_def bit_simps)

lemma of_le32_le32 [simp, codec_simps]: "of_le32 (le32 w) = w"
proof (rule bit_word_eqI)
  fix n assume n: "n < LENGTH(32)"
  consider "n < 8" | "8 \<le> n" "n < 16" | "16 \<le> n" "n < 24" | "24 \<le> n" by linarith
  then show "bit (of_le32 (le32 w)) n = bit w n"
    using n by cases (auto simp: le32_def bit_simps)
qed

lemma list4_cases:
  assumes "length xs = 4" obtains a b c d where "xs = [a, b, c, d]"
  using assms by (auto simp: numeral_eq_Suc length_Suc_conv)

lemma list2_cases:
  assumes "length xs = 2" obtains a b where "xs = [a, b]"
  using assms by (auto simp: numeral_eq_Suc length_Suc_conv)

lemma le32_of_le32 [simp, codec_simps]:
  assumes "length bs = 4" shows "le32 (of_le32 bs) = bs"
proof -
  obtain a b c d where bs: "bs = [a, b, c, d]" using assms by (rule list4_cases)
  show ?thesis
    unfolding bs le32_def of_le32.simps
    by (simp, intro conjI; rule bit_word_eqI) (auto simp: bit_simps dest: bit_imp_le_length)
qed

lemma le16_of_le16 [simp, codec_simps]:
  assumes "length bs = 2" shows "le16 (of_le16 bs) = bs"
proof -
  obtain a b where bs: "bs = [a, b]" using assms by (rule list2_cases)
  show ?thesis
    unfolding bs le16_def of_le16.simps
    by (simp, intro conjI; rule bit_word_eqI) (auto simp: bit_simps dest: bit_imp_le_length)
qed

lemma inj_le32: "le32 a = le32 b \<longleftrightarrow> a = b"
  by (metis of_le32_le32)

text \<open>On amd64 the conversions to and from network order swap the bytes.\<close>

definition htonl :: "u32 \<Rightarrow> u32" where
  "htonl w = of_le32 (rev (le32 w))"

definition ntohl :: "u32 \<Rightarrow> u32" where
  "ntohl w = of_le32 (rev (le32 w))"

definition htons :: "u16 \<Rightarrow> u16" where
  "htons w = of_le16 (rev (le16 w))"

definition ntohs :: "u16 \<Rightarrow> u16" where
  "ntohs w = of_le16 (rev (le16 w))"

lemma ntohl_htonl [simp, codec_simps]: "ntohl (htonl w) = w"
  by (simp add: ntohl_def htonl_def)

lemma htonl_ntohl [simp, codec_simps]: "htonl (ntohl w) = w"
  by (simp add: ntohl_def htonl_def)

lemma ntohs_htons [simp, codec_simps]: "ntohs (htons w) = w"
  by (simp add: ntohs_def htons_def)

lemma htons_ntohs [simp, codec_simps]: "htons (ntohs w) = w"
  by (simp add: ntohs_def htons_def)

section \<open>Lists and runs\<close>

lemma sum_list_update_int:
  fixes f :: "'a \<Rightarrow> int"
  assumes "i < length xs"
  shows "sum_list (map f (xs[i := x])) = sum_list (map f xs) + f x - f (xs ! i)"
  using assms by (induction xs arbitrary: i) (auto split: nat.split)

lemma map_update_same:
  assumes "i < length xs" "f x = f (xs ! i)"
  shows "map f (xs[i := x]) = map f xs"
  using assms by (metis list_update_id map_update)

text \<open>
  A run of a partial step function, and invariants of runs. A step may use up a budget (the
  bound under which a sum stays exact, say): \<open>inv b s\<close> reads "the invariant holds and \<open>b\<close> is
  left".
\<close>

fun run_steps :: "('s \<Rightarrow> 'o \<Rightarrow> 's option) \<Rightarrow> 's \<Rightarrow> 'o list \<Rightarrow> 's option" where
  "run_steps step s [] = Some s"
| "run_steps step s (x # xs) =
     (case step s x of None \<Rightarrow> None | Some s' \<Rightarrow> run_steps step s' xs)"

lemma run_steps_append:
  "run_steps step s (xs @ ys) = Option.bind (run_steps step s xs) (\<lambda>s'. run_steps step s' ys)"
  by (induction xs arbitrary: s) (simp_all split: option.split)

locale budgeted_run =
  fixes step :: "'s \<Rightarrow> 'o \<Rightarrow> 's option"
    and ok :: "'o \<Rightarrow> bool"
    and cost :: "'o \<Rightarrow> nat"
    and inv :: "nat \<Rightarrow> 's \<Rightarrow> bool"
  assumes step_inv: "inv b s \<Longrightarrow> ok x \<Longrightarrow> cost x \<le> b \<Longrightarrow> \<exists>s'. step s x = Some s' \<and> inv (b - cost x) s'"
begin

lemma run_inv:
  assumes "inv b s" "\<forall>x\<in>set xs. ok x" "sum_list (map cost xs) \<le> b"
  shows "\<exists>s'. run_steps step s xs = Some s' \<and> inv (b - sum_list (map cost xs)) s'"
  using assms
proof (induction xs arbitrary: b s)
  case (Cons x xs)
  then obtain s' where "step s x = Some s'" "inv (b - cost x) s'"
    using step_inv [of b s x] by auto
  with Cons.IH [of "b - cost x" s'] Cons.prems show ?case by (auto simp: diff_diff_add)
qed simp

end

end
