(* ===== verification/Float32.thy ===== *)
theory Float32
  imports Prelude
begin

text \<open>
  The C++ \<open>float\<close> of \<open>ClientDTO::balance\<close> and of the packets: IEEE 754 binary32 with
  round-to-nearest-even, as SSE computes it on amd64. Every finite binary32 value is an
  integer multiple of \<open>2 ^ -149\<close>, so a finite value is held exactly by that multiple (its
  \<open>grid\<close> value), and an operation is the exact integer operation followed by one rounding
  to 24 significant bits. Values: \<open>Fin k\<close> is \<open>k * 2 ^ -149\<close> (\<open>Fin 0\<close> is \<open>+0\<close>); the minus
  zero, the infinities and the quiet NaN are constructors of their own.
\<close>

datatype float32 = Fin int | NegZero | PInf | NInf | NaN

section \<open>Rounding\<close>

text \<open>The number of low bits to drop so that 24 significant bits remain.\<close>

fun excess :: "nat \<Rightarrow> nat" where
  "excess a = (if a < 2 ^ 24 then 0 else Suc (excess (a div 2)))"

declare excess.simps [simp del]

definition round_even :: "nat \<Rightarrow> nat \<Rightarrow> nat" where
  "round_even a e =
     (let q = a div 2 ^ e; r = a mod 2 ^ e
      in if 2 * r > 2 ^ e \<or> (2 * r = 2 ^ e \<and> odd q) then Suc q else q)"

definition round24 :: "nat \<Rightarrow> nat" where
  "round24 a = round_even a (excess a) * 2 ^ excess a"

definition f32_of_grid :: "int \<Rightarrow> float32" where
  "f32_of_grid k =
     (let a = round24 (nat \<bar>k\<bar>)
      in if a \<ge> 2 ^ 277 then (if k < 0 then NInf else PInf) else Fin (sgn k * int a))"

lemma excess_bounds:
  "a div 2 ^ excess a < 2 ^ 24 \<and> (excess a = 0 \<or> 2 ^ 23 \<le> a div 2 ^ excess a)"
proof (induction a rule: excess.induct)
  case (1 a)
  show ?case
  proof (cases "a < 2 ^ 24")
    case True
    then show ?thesis by (simp add: excess.simps [of a])
  next
    case False
    with 1 have IH: "a div 2 div 2 ^ excess (a div 2) < 2 ^ 24"
      "excess (a div 2) = 0 \<or> 2 ^ 23 \<le> a div 2 div 2 ^ excess (a div 2)" by simp_all
    from False have e: "excess a = Suc (excess (a div 2))" by (simp add: excess.simps [of a])
    have d: "a div 2 ^ excess a = a div 2 div 2 ^ excess (a div 2)"
      by (simp add: e div_mult2_eq)
    have "2 ^ 23 \<le> a div 2" using False by simp
    with IH(2) have "2 ^ 23 \<le> a div 2 div 2 ^ excess (a div 2)" by auto
    with IH(1) show ?thesis by (simp add: d)
  qed
qed

lemma excess_le:
  assumes "a < 2 ^ (24 + s)" shows "excess a \<le> s"
proof (rule ccontr)
  assume "\<not> excess a \<le> s"
  then have s: "Suc s \<le> excess a" by simp
  then have "2 ^ 23 \<le> a div 2 ^ excess a" using excess_bounds [of a] by auto
  then have "2 ^ 23 * 2 ^ excess a \<le> a"
    by (metis div_times_less_eq_dividend le_trans mult_le_mono1)
  moreover have "(2::nat) ^ 23 * 2 ^ Suc s \<le> 2 ^ 23 * 2 ^ excess a"
    using s by (intro mult_le_mono power_increasing) auto
  ultimately have "2 ^ 23 * 2 ^ Suc s \<le> a" by simp
  moreover have "(2::nat) ^ 23 * 2 ^ Suc s = 2 ^ (24 + s)" by (simp add: power_add)
  ultimately show False using assms by simp
qed

lemma round24_exact:
  assumes "2 ^ excess a dvd a" shows "round24 a = a"
  using assms by (simp add: round24_def round_even_def dvd_imp_mod_0)

lemma round24_scaled:
  assumes "m \<le> 2 ^ 24" shows "round24 (m * 2 ^ s) = m * 2 ^ s"
proof (cases "m = 2 ^ 24")
  case True
  have "excess (2 ^ 24 * 2 ^ s) \<le> Suc s"
    by (rule excess_le) (simp add: power_add)
  then have "(2::nat) ^ excess (m * 2 ^ s) dvd 2 ^ Suc s"
    unfolding True by (rule le_imp_power_dvd)
  moreover have "(2::nat) ^ Suc s dvd m * 2 ^ s" by (simp add: True)
  ultimately show ?thesis by (intro round24_exact) (rule dvd_trans)
next
  case False
  with assms have "m < 2 ^ 24" by simp
  then have "excess (m * 2 ^ s) \<le> s"
    by (intro excess_le) (simp add: power_add)
  then show ?thesis
    by (intro round24_exact dvd_mult le_imp_power_dvd)
qed

lemma round_even_le: "round_even a (excess a) \<le> 2 ^ 24"
  using excess_bounds [of a] by (auto simp: round_even_def Let_def)

lemma round24_idem [simp]: "round24 (round24 a) = round24 a"
  by (subst (2 3) round24_def) (rule round24_scaled [OF round_even_le])

lemma round24_0 [simp]: "round24 0 = 0"
  using round24_scaled [of 0 0] by simp

section \<open>Canonical values\<close>

text \<open>A finite value is canonical when it is a binary32 number: rounding keeps it.\<close>

fun canonical :: "float32 \<Rightarrow> bool" where
  "canonical (Fin k) \<longleftrightarrow> round24 (nat \<bar>k\<bar>) = nat \<bar>k\<bar> \<and> nat \<bar>k\<bar> < 2 ^ 277"
| "canonical _ \<longleftrightarrow> True"

lemma canonical_of_grid [simp]: "canonical (f32_of_grid k)"
proof (cases "round24 (nat \<bar>k\<bar>) \<ge> 2 ^ 277")
  case True
  then show ?thesis by (simp add: f32_of_grid_def)
next
  case False
  have "nat \<bar>sgn k * int (round24 (nat \<bar>k\<bar>))\<bar> = round24 (nat \<bar>k\<bar>)"
    by (cases "k = 0") (simp_all add: abs_mult)
  with False show ?thesis by (simp add: f32_of_grid_def Let_def)
qed

lemma f32_of_grid_canonical:
  assumes "canonical (Fin k)" shows "f32_of_grid k = Fin k"
  using assms by (auto simp: f32_of_grid_def Let_def sgn_mult_abs)

section \<open>Operations\<close>

definition f32_of_int :: "int \<Rightarrow> float32" where
  "f32_of_int n = f32_of_grid (n * 2 ^ 149)"

fun f32_neg :: "float32 \<Rightarrow> float32" where
  "f32_neg (Fin k) = (if k = 0 then NegZero else Fin (- k))"
| "f32_neg NegZero = Fin 0"
| "f32_neg PInf = NInf"
| "f32_neg NInf = PInf"
| "f32_neg NaN = NaN"

fun f32_add :: "float32 \<Rightarrow> float32 \<Rightarrow> float32" where
  "f32_add NaN _ = NaN"
| "f32_add _ NaN = NaN"
| "f32_add PInf NInf = NaN"
| "f32_add NInf PInf = NaN"
| "f32_add PInf _ = PInf"
| "f32_add _ PInf = PInf"
| "f32_add NInf _ = NInf"
| "f32_add _ NInf = NInf"
| "f32_add NegZero NegZero = NegZero"
| "f32_add NegZero (Fin b) = f32_of_grid b"
| "f32_add (Fin a) NegZero = f32_of_grid a"
| "f32_add (Fin a) (Fin b) = f32_of_grid (a + b)"

definition f32_sub :: "float32 \<Rightarrow> float32 \<Rightarrow> float32" where
  "f32_sub x y = f32_add x (f32_neg y)"

fun f32_less :: "float32 \<Rightarrow> float32 \<Rightarrow> bool" where
  "f32_less NaN _ = False"
| "f32_less _ NaN = False"
| "f32_less NInf y = (y \<noteq> NInf)"
| "f32_less _ NInf = False"
| "f32_less PInf _ = False"
| "f32_less _ PInf = True"
| "f32_less (Fin a) (Fin b) = (a < b)"
| "f32_less (Fin a) NegZero = (a < 0)"
| "f32_less NegZero (Fin b) = (0 < b)"
| "f32_less NegZero NegZero = False"

text \<open>
  The conversion to \<open>int\<close> truncates; a value that does not fit is undefined in C++ and gives
  \<open>INT_MIN\<close> with amd64's \<open>cvttss2si\<close>.
\<close>

fun f32_to_int :: "float32 \<Rightarrow> int" where
  "f32_to_int (Fin k) =
     (let t = sgn k * (\<bar>k\<bar> div 2 ^ 149) in if in_i32 t then t else - (2 ^ 31))"
| "f32_to_int NegZero = 0"
| "f32_to_int _ = - (2 ^ 31)"

lemma canonical_of_int [simp]: "canonical (f32_of_int n)"
  by (simp add: f32_of_int_def)

lemma canonical_neg [simp]: "canonical x \<Longrightarrow> canonical (f32_neg x)"
  by (cases x) auto

lemma canonical_add [simp]: "canonical (f32_add x y)"
  by (cases "(x, y)" rule: f32_add.cases) auto

lemma canonical_sub [simp]: "canonical (f32_sub x y)"
  by (simp add: f32_sub_def)

lemma in_i32_f32_to_int [simp]: "in_i32 (f32_to_int x)"
  by (cases x) (simp_all add: Let_def, simp_all add: in_i32_def)

section \<open>Whole amounts are exact up to 2 ^ 24\<close>

definition whole :: "int \<Rightarrow> float32" where
  "whole n = Fin (n * 2 ^ 149)"

lemma whole_inject [simp]: "whole a = whole b \<longleftrightarrow> a = b"
  by (simp add: whole_def)

lemma round24_whole:
  assumes "\<bar>n\<bar> \<le> 2 ^ 24" shows "round24 (nat \<bar>n * 2 ^ 149\<bar>) = nat \<bar>n * 2 ^ 149\<bar>"
proof -
  have "nat \<bar>n * 2 ^ 149\<bar> = nat \<bar>n\<bar> * 2 ^ 149"
    by (simp add: abs_mult nat_mult_distrib nat_power_eq)
  moreover have "nat \<bar>n\<bar> \<le> 2 ^ 24" using assms by simp
  ultimately show ?thesis by (simp only: round24_scaled)
qed

lemma canonical_whole [simp]:
  assumes "\<bar>n\<bar> \<le> 2 ^ 24" shows "canonical (whole n)"
proof -
  have "nat \<bar>n * 2 ^ 149\<bar> = nat \<bar>n\<bar> * 2 ^ 149"
    by (simp add: abs_mult nat_mult_distrib nat_power_eq)
  also have "\<dots> \<le> 2 ^ 24 * 2 ^ 149" using assms by (intro mult_le_mono1) simp
  also have "\<dots> < (2::nat) ^ 277" by simp
  finally show ?thesis using round24_whole [OF assms] by (simp add: whole_def)
qed

lemma f32_of_grid_whole: "\<bar>n\<bar> \<le> 2 ^ 24 \<Longrightarrow> f32_of_grid (n * 2 ^ 149) = whole n"
  using canonical_whole [of n] unfolding whole_def by (rule f32_of_grid_canonical)

lemma f32_of_int_whole [simp]: "\<bar>n\<bar> \<le> 2 ^ 24 \<Longrightarrow> f32_of_int n = whole n"
  by (simp only: f32_of_int_def f32_of_grid_whole)

lemma f32_add_whole [simp]: "\<bar>a + b\<bar> \<le> 2 ^ 24 \<Longrightarrow> f32_add (whole a) (whole b) = whole (a + b)"
  unfolding whole_def [of a] whole_def [of b] f32_add.simps
  by (simp only: distrib_right [symmetric] f32_of_grid_whole)

lemma f32_sub_whole [simp]:
  assumes "\<bar>a\<bar> \<le> 2 ^ 24" "\<bar>a - b\<bar> \<le> 2 ^ 24"
  shows "f32_sub (whole a) (whole b) = whole (a - b)"
proof (cases "b = 0")
  case True
  then show ?thesis
    using f32_of_grid_whole [OF assms(1)] by (simp add: f32_sub_def whole_def)
next
  case False
  then have "f32_neg (whole b) = whole (- b)" by (simp add: whole_def)
  with f32_add_whole [of a "- b"] assms(2) show ?thesis by (simp add: f32_sub_def)
qed

lemma round24_tie: "round24 ((2 ^ 24 + 1) * 2 ^ 149) = 2 ^ 24 * 2 ^ 149"
proof -
  let ?a = "(2 ^ 24 + 1) * 2 ^ 149 :: nat"
  have "excess ?a \<le> 150" by (rule excess_le) simp
  moreover have "\<not> excess ?a \<le> 149"
  proof
    assume "excess ?a \<le> 149"
    then have "(2::nat) ^ excess ?a \<le> 2 ^ 149" by (rule power_increasing) simp
    then have "?a div 2 ^ 149 \<le> ?a div 2 ^ excess ?a" by (intro div_le_mono2) simp_all
    moreover have "?a div 2 ^ 149 = 2 ^ 24 + 1" by (rule nonzero_mult_div_cancel_right) simp
    ultimately show False using excess_bounds [of ?a] by simp
  qed
  ultimately have e: "excess ?a = 150" by simp
  show ?thesis unfolding round24_def e by (simp add: round_even_def Let_def)
qed

text \<open>One more than \<open>2 ^ 24\<close> is a tie and is rounded back to it.\<close>

lemma f32_add_one_lost: "f32_add (whole (2 ^ 24)) (whole 1) = whole (2 ^ 24)"
proof -
  have "nat \<bar>2 ^ 24 * 2 ^ 149 + 1 * 2 ^ 149 :: int\<bar> = (2 ^ 24 + 1) * 2 ^ 149" by simp
  then show ?thesis
    by (simp only: whole_def f32_add.simps f32_of_grid_def round24_tie Let_def) simp
qed

lemma f32_less_whole [simp]: "f32_less (whole a) (whole b) \<longleftrightarrow> a < b"
  by (simp add: whole_def)

lemma f32_to_int_whole [simp]:
  assumes "in_i32 n" shows "f32_to_int (whole n) = n"
proof -
  have "sgn (n * 2 ^ 149) * (\<bar>n * 2 ^ 149\<bar> div 2 ^ 149) = n"
    by (simp add: abs_mult sgn_mult) (simp add: mult_sgn_abs)
  with assms show ?thesis by (simp add: whole_def Let_def)
qed

text \<open>A difference of non-negative order never rounds below zero.\<close>

fun f32_nonneg :: "float32 \<Rightarrow> bool" where
  "f32_nonneg (Fin k) \<longleftrightarrow> 0 \<le> k"
| "f32_nonneg NegZero \<longleftrightarrow> True"
| "f32_nonneg PInf \<longleftrightarrow> True"
| "f32_nonneg _ \<longleftrightarrow> False"

lemma f32_nonneg_of_grid: "0 \<le> k \<Longrightarrow> f32_nonneg (f32_of_grid k)"
  by (auto simp: f32_of_grid_def Let_def sgn_if)

lemma f32_nonneg_add:
  "f32_nonneg x \<Longrightarrow> f32_nonneg y \<Longrightarrow> f32_nonneg (f32_add x y)"
  by (cases "(x, y)" rule: f32_add.cases) (auto simp: f32_nonneg_of_grid)

lemma f32_nonneg_sub:
  assumes "b \<noteq> NaN" "\<not> f32_less b (Fin k)" shows "f32_nonneg (f32_sub b (Fin k))"
  using assms by (cases b) (auto simp: f32_sub_def f32_nonneg_of_grid)

lemma f32_of_int_finite:
  assumes "in_i32 n" obtains k where "f32_of_int n = Fin k"
proof -
  let ?a = "nat \<bar>n * 2 ^ 149\<bar>"
  have "?a = nat \<bar>n\<bar> * 2 ^ 149"
    by (simp add: abs_mult nat_mult_distrib nat_power_eq)
  also have "\<dots> \<le> 2 ^ 31 * 2 ^ 149"
    using assms by (intro mult_le_mono1) (simp add: in_i32_def, arith)
  also have "\<dots> < (2::nat) ^ (24 + 157)" by simp
  finally have e: "excess ?a \<le> 157" by (rule excess_le)
  have "round24 ?a \<le> 2 ^ 24 * 2 ^ excess ?a"
    unfolding round24_def by (intro mult_le_mono1 round_even_le)
  also have "\<dots> \<le> 2 ^ 24 * 2 ^ 157"
    using e by (intro mult_le_mono2 power_increasing) simp_all
  also have "\<dots> < (2::nat) ^ 277" by simp
  finally have "\<not> 2 ^ 277 \<le> round24 ?a" by simp
  then show ?thesis using that by (simp only: f32_of_int_def f32_of_grid_def Let_def if_False)
qed

text \<open>Rounding keeps a value on its side of a power of two, so an amount of \<open>2 ^ 24\<close> or more
  never passes for a smaller one.\<close>

lemma round24_ge_power:
  assumes "2 ^ k \<le> a" shows "2 ^ k \<le> round24 a"
proof (cases "excess a \<le> k")
  case True
  have "2 ^ (k - excess a) \<le> a div 2 ^ excess a"
    using assms True by (simp add: less_eq_div_iff_mult_less_eq power_add [symmetric])
  also have "\<dots> \<le> round_even a (excess a)" by (simp add: round_even_def Let_def)
  finally have "2 ^ (k - excess a) * 2 ^ excess a \<le> round24 a"
    unfolding round24_def by (intro mult_le_mono1)
  with True show ?thesis by (simp add: power_add [symmetric])
next
  case False
  then have "2 ^ 23 \<le> a div 2 ^ excess a" using excess_bounds [of a] by auto
  also have "\<dots> \<le> round_even a (excess a)" by (simp add: round_even_def Let_def)
  finally have "1 \<le> round_even a (excess a)" by simp
  then have "2 ^ excess a \<le> round24 a" unfolding round24_def by simp
  moreover have "(2::nat) ^ k \<le> 2 ^ excess a" using False by (intro power_increasing) simp_all
  ultimately show ?thesis by (rule order_trans [rotated])
qed

lemma f32_of_int_large:
  assumes "in_i32 n" "2 ^ 24 \<le> n" obtains k where "f32_of_int n = Fin k" "2 ^ 24 * 2 ^ 149 \<le> k"
proof -
  obtain k where k: "f32_of_int n = Fin k" using assms(1) by (rule f32_of_int_finite)
  have p: "(2::int) ^ 173 = 2 ^ 24 * 2 ^ 149" by simp
  also have "\<dots> \<le> n * 2 ^ 149" using assms(2) by (intro mult_right_mono) simp_all
  finally have "(2::int) ^ 173 \<le> \<bar>n * 2 ^ 149\<bar>" by simp
  then have "2 ^ 173 \<le> nat \<bar>n * 2 ^ 149\<bar>" by (simp add: le_nat_iff)
  then have "2 ^ 173 \<le> round24 (nat \<bar>n * 2 ^ 149\<bar>)" by (rule round24_ge_power)
  then have r: "(2::int) ^ 173 \<le> int (round24 (nat \<bar>n * 2 ^ 149\<bar>))"
    by (metis of_nat_le_iff of_nat_numeral of_nat_power)
  have "sgn (n * 2 ^ 149) = 1" using assms(2) by (simp add: sgn_if)
  then have "k = int (round24 (nat \<bar>n * 2 ^ 149\<bar>))"
    using k by (simp add: f32_of_int_def f32_of_grid_def Let_def split: if_splits)
  with r have "2 ^ 24 * 2 ^ 149 \<le> k" by (simp only: p)
  with k show ?thesis by (rule that)
qed

lemma affordable:
  assumes "b < 2 ^ 24" "0 \<le> b" "0 \<le> n" "in_i32 n"
  shows "f32_less (whole b) (f32_of_int n) \<longleftrightarrow> b < n"
proof (cases "n \<le> 2 ^ 24")
  case True
  with assms show ?thesis by simp
next
  case False
  then obtain k where k: "f32_of_int n = Fin k" "2 ^ 24 * 2 ^ 149 \<le> k"
    using f32_of_int_large [OF assms(4)] by (metis le_less linorder_not_le)
  have "b * 2 ^ 149 < 2 ^ 24 * 2 ^ 149" using assms(1) by simp
  also have "\<dots> \<le> k" by (rule k(2))
  finally have "b * 2 ^ 149 < k" .
  moreover have "b < n" using False assms(1) by simp
  ultimately show ?thesis by (simp only: whole_def k(1) f32_less.simps)
qed

section \<open>The 32 bits of a float in a packet\<close>

text \<open>
  Sign, 8 bits of biased exponent, 23 bits of fraction. On the grid, the exponent field \<open>E > 0\<close>
  with the fraction \<open>M\<close> is \<open>(2 ^ 23 + M) * 2 ^ (E - 1)\<close> and the subnormals (\<open>E = 0\<close>) are \<open>M\<close>.
\<close>

definition mag_bits :: "nat \<Rightarrow> nat" where
  "mag_bits a =
     (let e = excess a; m = a div 2 ^ e in if m < 2 ^ 23 then m else (e + 1) * 2 ^ 23 + (m - 2 ^ 23))"

definition bits_mag :: "nat \<Rightarrow> nat" where
  "bits_mag b =
     (let E = b div 2 ^ 23; M = b mod 2 ^ 23 in if E = 0 then M else (2 ^ 23 + M) * 2 ^ (E - 1))"

fun f32_bits :: "float32 \<Rightarrow> u32" where
  "f32_bits (Fin k) = of_nat ((if k < 0 then 2 ^ 31 else 0) + mag_bits (nat \<bar>k\<bar>))"
| "f32_bits NegZero = 0x80000000"
| "f32_bits PInf = 0x7F800000"
| "f32_bits NInf = 0xFF800000"
| "f32_bits NaN = 0x7FC00000"

definition f32_of_bits :: "u32 \<Rightarrow> float32" where
  "f32_of_bits w =
     (let neg = 2 ^ 31 \<le> unat w; b = unat w mod 2 ^ 31
      in if b > 0x7F800000 then NaN
         else if b = 0x7F800000 then (if neg then NInf else PInf)
         else if b = 0 then (if neg then NegZero else Fin 0)
         else Fin ((if neg then -1 else 1) * int (bits_mag b)))"

lemma excess_canonical:
  assumes "round24 a = a" shows "a div 2 ^ excess a * 2 ^ excess a = a"
proof -
  have "2 ^ excess a dvd a"
    using assms by (metis dvd_triv_right round24_def)
  then show ?thesis by simp
qed

lemma bits_mag_bits:
  assumes "round24 a = a" shows "bits_mag (mag_bits a) = a"
proof (cases "a div 2 ^ excess a < 2 ^ 23")
  case True
  then have "excess a = 0" using excess_bounds [of a] by auto
  with True show ?thesis by (simp add: mag_bits_def bits_mag_def)
next
  case False
  define m where "m = a div 2 ^ excess a"
  from False excess_bounds [of a] have m: "2 ^ 23 \<le> m" "m < 2 ^ 24" by (auto simp: m_def)
  define c where "c = m - 2 ^ 23"
  have c: "c < 2 ^ 23" "2 ^ 23 + c = m" using m by (simp_all add: c_def)
  have b: "mag_bits a = c + (excess a + 1) * 2 ^ 23"
    using False by (simp add: mag_bits_def m_def c_def Let_def)
  have d: "(c + q * 2 ^ 23) div 2 ^ 23 = q" and r: "(c + q * 2 ^ 23) mod 2 ^ 23 = c" for q
    using c(1) by simp_all
  have "bits_mag (mag_bits a) = (2 ^ 23 + c) * 2 ^ excess a"
    unfolding b bits_mag_def Let_def d r by simp
  also have "2 ^ 23 + c = m" by (rule c(2))
  finally show ?thesis using excess_canonical [OF assms] by (simp add: m_def)
qed

lemma mag_bits_bound:
  assumes "a < 2 ^ 277" shows "mag_bits a < 0x7F800000"
proof -
  have "excess a \<le> 253" using assms by (intro excess_le) simp
  then have "(excess a + 1) * 2 ^ 23 \<le> 254 * 2 ^ 23" by (intro mult_le_mono1) simp
  moreover have "a div 2 ^ excess a < 2 ^ 24" using excess_bounds by blast
  ultimately show ?thesis by (simp add: mag_bits_def Let_def)
qed

lemma mag_bits_zero [simp]: "mag_bits 0 = 0"
  by (simp add: mag_bits_def excess.simps [of 0])

lemma mag_bits_0: "mag_bits a = 0 \<Longrightarrow> round24 a = a \<Longrightarrow> a = 0"
  using bits_mag_bits [of a] by (simp add: bits_mag_def)

lemma bits_mag_canonical:
  assumes "b < 0x7F800000"
  shows "round24 (bits_mag b) = bits_mag b \<and> bits_mag b < 2 ^ 277"
proof (cases "b div 2 ^ 23 = 0")
  case True
  then have m: "bits_mag b = b mod 2 ^ 23 * 2 ^ 0" by (simp add: bits_mag_def)
  have lt: "b mod 2 ^ 23 < (2::nat) ^ 23" by simp
  then have "round24 (b mod 2 ^ 23 * 2 ^ 0) = b mod 2 ^ 23 * 2 ^ 0"
    by (intro round24_scaled) simp
  moreover have "b mod 2 ^ 23 * 2 ^ 0 < (2::nat) ^ 277" using lt by simp
  ultimately show ?thesis by (simp only: m)
next
  case False
  define M where "M = 2 ^ 23 + b mod 2 ^ 23"
  define e where "e = b div 2 ^ 23 - 1"
  have "b div 2 ^ 23 \<le> 254" using assms by simp
  then have e: "e \<le> 253" by (simp add: e_def)
  have M: "M < 2 ^ 24" by (simp add: M_def)
  have m: "bits_mag b = M * 2 ^ e" using False by (simp add: bits_mag_def M_def e_def)
  have "M * 2 ^ e < 2 ^ 24 * 2 ^ e" using M by simp
  also have "\<dots> \<le> 2 ^ 24 * (2::nat) ^ 253" using e by (intro mult_le_mono2 power_increasing) simp_all
  also have "\<dots> = 2 ^ 277" by simp
  finally have "M * 2 ^ e < 2 ^ 277" .
  moreover have "round24 (M * 2 ^ e) = M * 2 ^ e" using M by (intro round24_scaled) simp
  ultimately show ?thesis by (simp only: m)
qed

lemma canonical_f32_of_bits [simp]: "canonical (f32_of_bits w)"
proof -
  define b where "b = unat w mod 2 ^ 31"
  have "canonical (Fin (s * int (bits_mag b)))" if "b < 0x7F800000" "s = 1 \<or> s = -1" for s
  proof -
    have "nat \<bar>s * int (bits_mag b)\<bar> = bits_mag b" using that(2) by auto
    then show ?thesis using bits_mag_canonical [OF that(1)] by (simp only: canonical.simps)
  qed
  moreover have "b \<noteq> 0x7F800000 \<Longrightarrow> \<not> 0x7F800000 < b \<Longrightarrow> b < 0x7F800000" by simp
  ultimately show ?thesis
    unfolding f32_of_bits_def Let_def b_def [symmetric] by (simp del: canonical.simps(1)) simp
qed

text \<open>Every binary32 value survives the trip through its bits.\<close>

lemma unat_f32_bits_Fin:
  assumes "canonical (Fin k)"
  shows "unat (f32_bits (Fin k)) = (if k < 0 then 2 ^ 31 else 0) + mag_bits (nat \<bar>k\<bar>)"
proof -
  have "mag_bits (nat \<bar>k\<bar>) < 0x7F800000" using assms by (intro mag_bits_bound) simp
  then have "(if k < 0 then 2 ^ 31 else 0) + mag_bits (nat \<bar>k\<bar>) < 2 ^ 32"
    by (cases "k < 0") simp_all
  then show ?thesis unfolding f32_bits.simps by (rule unat_u32_of_nat)
qed

lemma f32_of_bits_bits_Fin:
  assumes "canonical (Fin k)" shows "f32_of_bits (f32_bits (Fin k)) = Fin k"
proof -
  define b where "b = mag_bits (nat \<bar>k\<bar>)"
  from assms have c: "round24 (nat \<bar>k\<bar>) = nat \<bar>k\<bar>" "nat \<bar>k\<bar> < 2 ^ 277" by simp_all
  have b: "b < 0x7F800000" unfolding b_def using c(2) by (rule mag_bits_bound)
  have m: "bits_mag b = nat \<bar>k\<bar>" unfolding b_def using c(1) by (rule bits_mag_bits)
  have z: "b = 0 \<longleftrightarrow> k = 0" using mag_bits_0 [OF _ c(1)] by (auto simp: b_def)
  have u: "unat (f32_bits (Fin k)) = (if k < 0 then 2 ^ 31 else 0) + b"
    unfolding b_def by (rule unat_f32_bits_Fin [OF assms])
  have n: "2 ^ 31 \<le> unat (f32_bits (Fin k)) \<longleftrightarrow> k < 0"
    and r: "unat (f32_bits (Fin k)) mod 2 ^ 31 = b"
    using b unfolding u by simp_all
  show ?thesis
    unfolding f32_of_bits_def Let_def n r m using b z by auto
qed

lemma f32_of_bits_bits [simp, codec_simps]:
  assumes "canonical x" shows "f32_of_bits (f32_bits x) = x"
proof (cases x)
  case (Fin k)
  with assms show ?thesis by (metis f32_of_bits_bits_Fin)
qed (simp_all add: f32_of_bits_def)

end
