(* ===== verification/CText.thy ===== *)
theory CText
  imports Prelude
begin

text \<open>
  Text as the C library handles it: decimal digits written and read, white space, the
  NUL-terminated strings in the \<open>char[INET_ADDRSTRLEN]\<close> arrays of the packets, and their bytes.
\<close>

section \<open>Decimal digits\<close>

definition digit :: "nat \<Rightarrow> char" where
  "digit n = char_of (48 + n)"

definition is_digit :: "char \<Rightarrow> bool" where
  "is_digit c \<longleftrightarrow> 48 \<le> (of_char c :: nat) \<and> (of_char c :: nat) \<le> 57"

definition digit_val :: "char \<Rightarrow> nat" where
  "digit_val c = of_char c - 48"

lemma of_char_digit: "n < 10 \<Longrightarrow> (of_char (digit n) :: nat) = 48 + n"
  by (simp add: digit_def)

lemma is_digit_digit [simp]: "n < 10 \<Longrightarrow> is_digit (digit n)"
  by (simp add: is_digit_def of_char_digit)

lemma digit_val_digit [simp]: "n < 10 \<Longrightarrow> digit_val (digit n) = n"
  by (simp add: digit_val_def of_char_digit)

lemma digit_neq [simp]:
  "n < 10 \<Longrightarrow> digit n \<noteq> CHR ''.''" "n < 10 \<Longrightarrow> digit n \<noteq> CHR 0x00"
  "n < 10 \<Longrightarrow> digit n \<noteq> CHR '' ''" "n < 10 \<Longrightarrow> digit n \<noteq> CHR ''-''"
  "n < 10 \<Longrightarrow> digit n \<noteq> CHR ''+''"
  by (auto dest!: arg_cong [where f = "of_char :: char \<Rightarrow> nat"] simp: of_char_digit)

text \<open>What \<open>operator<<\<close>, \<open>std::to_string\<close> and \<open>%u\<close> print.\<close>

fun show_nat :: "nat \<Rightarrow> string" where
  "show_nat n = (if n < 10 then [digit n] else show_nat (n div 10) @ [digit (n mod 10)])"

declare show_nat.simps [simp del]

definition show_int :: "int \<Rightarrow> string" where
  "show_int n = (if n < 0 then CHR ''-'' # show_nat (nat (- n)) else show_nat (nat n))"

text \<open>The digits at the front of a string, as \<open>strtol\<close> and \<open>operator>>\<close> accumulate them.\<close>

fun read_digits :: "nat \<Rightarrow> string \<Rightarrow> nat \<times> string" where
  "read_digits acc [] = (acc, [])"
| "read_digits acc (c # cs) =
     (if is_digit c then read_digits (10 * acc + digit_val c) cs else (acc, c # cs))"

lemma show_nat_not_Nil [simp]: "show_nat n \<noteq> []"
  by (subst show_nat.simps) simp

lemma show_nat_digits: "c \<in> set (show_nat n) \<Longrightarrow> is_digit c"
proof (induction n rule: show_nat.induct)
  case (1 n)
  then show ?case by (cases "n < 10") (auto simp: show_nat.simps [of n])
qed

lemma read_digits_append:
  "read_digits acc (show_nat n @ rest) = read_digits (acc * 10 ^ length (show_nat n) + n) rest"
proof (induction n arbitrary: rest rule: show_nat.induct)
  case (1 n)
  show ?case
  proof (cases "n < 10")
    case True
    then show ?thesis by (simp add: show_nat.simps [of n] mult.commute)
  next
    case False
    then have e: "show_nat n = show_nat (n div 10) @ [digit (n mod 10)]"
      by (simp add: show_nat.simps [of n])
    have "10 * (acc * 10 ^ length (show_nat (n div 10)) + n div 10) + n mod 10 =
        acc * 10 ^ length (show_nat n) + n"
      by (simp add: e algebra_simps)
    with False "1.IH" [of "digit (n mod 10) # rest"] show ?thesis by (simp add: e ac_simps)
  qed
qed

lemma read_digits_show_nat:
  assumes "rest = [] \<or> \<not> is_digit (hd rest)"
  shows "read_digits 0 (show_nat n @ rest) = (n, rest)"
  using assms read_digits_append [of 0 n rest] by (cases rest) auto

section \<open>White space\<close>

definition is_space :: "char \<Rightarrow> bool" where
  "is_space c \<longleftrightarrow> (of_char c :: nat) \<in> {32, 9, 10, 11, 12, 13}"

definition skip_ws :: "string \<Rightarrow> string" where
  "skip_ws s = dropWhile is_space s"

lemma not_space_digit: "is_digit c \<Longrightarrow> \<not> is_space c"
  by (auto simp: is_digit_def is_space_def)

section \<open>C strings in fixed arrays\<close>

abbreviation NUL :: char where "NUL \<equiv> CHR 0x00"

definition nul_free :: "string \<Rightarrow> bool" where
  "nul_free s \<longleftrightarrow> NUL \<notin> set s"

text \<open>\<open>std::string(p)\<close> for a \<open>char *\<close>: the characters before the first NUL.\<close>

definition c_string :: "string \<Rightarrow> string" where
  "c_string a = takeWhile (\<lambda>c. c \<noteq> NUL) a"

text \<open>\<open>strncpy(dst, s.c_str(), n)\<close>: at most \<open>n\<close> characters, filled up with NULs.\<close>

definition strncpy :: "nat \<Rightarrow> string \<Rightarrow> string" where
  "strncpy n s = take n (c_string s) @ replicate (n - length (c_string s)) NUL"

definition INET_ADDRSTRLEN :: nat where "INET_ADDRSTRLEN = 16"

text \<open>The idiom of Server.cpp: \<open>strncpy\<close> into the array, then a NUL in its last place.\<close>

definition ip_array :: "string \<Rightarrow> string" where
  "ip_array s = (strncpy INET_ADDRSTRLEN s)[INET_ADDRSTRLEN - 1 := NUL]"

lemma length_strncpy [simp]: "length (strncpy n s) = n"
  by (simp add: strncpy_def)

lemma length_ip_array [simp]: "length (ip_array s) = 16"
  by (simp add: ip_array_def INET_ADDRSTRLEN_def)

lemma c_string_nul_free [simp]: "nul_free s \<Longrightarrow> c_string s = s"
  unfolding c_string_def nul_free_def by (rule takeWhile_eq_all_conv [THEN iffD2]) auto

lemma nul_free_c_string [simp]: "nul_free (c_string s)"
  by (auto simp: nul_free_def c_string_def dest: set_takeWhileD)

lemma c_string_append_NUL: "nul_free s \<Longrightarrow> c_string (s @ NUL # t) = s"
  unfolding c_string_def nul_free_def by (induction s) auto

text \<open>A dotted quad, at most 15 characters, is never cut.\<close>

lemma c_string_ip_array:
  assumes "nul_free s" "length s < 16" shows "c_string (ip_array s) = s"
proof -
  obtain k where k: "16 - length s = Suc k" using assms(2) by (cases "16 - length s") auto
  have "strncpy 16 s = s @ replicate (Suc k) NUL"
    using assms k by (simp add: strncpy_def)
  moreover have "(s @ replicate (Suc k) NUL)[15 := NUL] = s @ replicate (Suc k) NUL"
    using assms(2) k by (simp add: list_update_append nth_append list_update_same_conv
        del: replicate_Suc)
  ultimately show ?thesis
    using assms(1) by (simp add: ip_array_def INET_ADDRSTRLEN_def c_string_append_NUL)
qed

section \<open>Characters and bytes\<close>

definition bytes_of :: "string \<Rightarrow> byte list" where
  "bytes_of s = map (\<lambda>c. of_nat (of_char c)) s"

definition string_of :: "byte list \<Rightarrow> string" where
  "string_of bs = map (\<lambda>b. char_of (unat b)) bs"

lemma length_bytes_of [simp, codec_simps]: "length (bytes_of s) = length s"
  by (simp add: bytes_of_def)

lemma length_string_of [simp, codec_simps]: "length (string_of s) = length s"
  by (simp add: string_of_def)

lemma char_byte: "char_of (unat (of_nat (of_char c) :: byte)) = c"
proof -
  have "of_char c < (256::nat)" by (rule nat_of_char_less_256)
  then show ?thesis by (simp add: unat_of_nat)
qed

lemma string_of_bytes_of [simp, codec_simps]: "string_of (bytes_of s) = s"
  by (simp add: string_of_def bytes_of_def comp_def char_byte map_idI)

end
