(* ===== verification/Inet.thy ===== *)
theory Inet
  imports CText
begin

text \<open>
  The internet address functions of the C library that the program calls, as POSIX describes
  them and glibc implements them, and the \<open>sockaddr_in\<close> the sockets carry. An \<open>s_addr\<close> is a
  32-bit word in network order: its first octet is the byte at the lowest address.
\<close>

section \<open>Socket addresses\<close>

definition AF_INET :: u16 where "AF_INET = 2"

record sockaddr =
  sin_family :: u16
  sin_port :: u16
  sin_addr :: u32

definition zero_sockaddr :: sockaddr where
  "zero_sockaddr = \<lparr>sin_family = 0, sin_port = 0, sin_addr = 0\<rparr>"

section \<open>inet_ntop\<close>

definition inet_ntop :: "u32 \<Rightarrow> string" where
  "inet_ntop a =
     (case le32 a of [b0, b1, b2, b3] \<Rightarrow>
        show_nat (unat b0) @ ''.'' @ show_nat (unat b1) @ ''.'' @
        show_nat (unat b2) @ ''.'' @ show_nat (unat b3)
      | _ \<Rightarrow> [])"

section \<open>inet_pton\<close>

text \<open>
  The loop of glibc's \<open>inet_pton4\<close>: \<open>saw\<close> is its \<open>saw_digit\<close>, \<open>octets\<close> its count, \<open>done\<close> the
  finished octets and \<open>cur\<close> the one under construction.
\<close>

fun pton_loop :: "string \<Rightarrow> bool \<Rightarrow> nat \<Rightarrow> nat list \<Rightarrow> nat \<Rightarrow> nat list option" where
  "pton_loop [] saw octets don cur = (if octets < 4 then None else Some (don @ [cur]))"
| "pton_loop (c # cs) saw octets don cur =
     (if is_digit c then
        (let new = cur * 10 + digit_val c in
         if saw \<and> cur = 0 then None
         else if new > 255 then None
         else if \<not> saw then
           (if octets + 1 > 4 then None else pton_loop cs True (octets + 1) don new)
         else pton_loop cs True octets don new)
      else if c = CHR ''.'' \<and> saw then
        (if octets = 4 then None else pton_loop cs False octets (don @ [cur]) 0)
      else None)"

text \<open>The code passes \<open>c_str()\<close>, of which the function sees what is before the first NUL.\<close>

definition inet_pton :: "string \<Rightarrow> u32 option" where
  "inet_pton s =
     (case pton_loop (c_string s) False 0 [] 0 of
        Some [a, b, c, d] \<Rightarrow> Some (of_le32 [of_nat a, of_nat b, of_nat c, of_nat d])
      | _ \<Rightarrow> None)"

text \<open>\<open>inet_pton\<close> writes its destination only when it succeeds.\<close>

definition inet_pton_into :: "string \<Rightarrow> u32 \<Rightarrow> u32" where
  "inet_pton_into s old = (case inet_pton s of Some a \<Rightarrow> a | None \<Rightarrow> old)"

definition BROADCAST_ADDR :: string where "BROADCAST_ADDR = ''255.255.255.255''"

section \<open>Every address survives printing and reading\<close>

lemma octet_forms:
  assumes "n < 256"
  obtains (one) "n < 10" "show_nat n = [digit n]"
  | (two) "10 \<le> n" "n < 100" "show_nat n = [digit (n div 10), digit (n mod 10)]"
  | (three) "100 \<le> n" "show_nat n = [digit (n div 100), digit (n div 10 mod 10), digit (n mod 10)]"
proof -
  have 1: "n < 10 \<Longrightarrow> show_nat n = [digit n]" for n
    by (simp add: show_nat.simps [of n])
  have 2: "10 \<le> n \<Longrightarrow> n < 100 \<Longrightarrow> show_nat n = [digit (n div 10), digit (n mod 10)]" for n
    by (simp add: show_nat.simps [of n] 1)
  have 3: "show_nat n = [digit (n div 100), digit (n div 10 mod 10), digit (n mod 10)]"
    if "100 \<le> n" "n < 1000" for n
  proof -
    have "10 \<le> n div 10" "n div 10 < 100" using that by simp_all
    moreover have "n div 10 div 10 = n div 100" by (simp add: div_mult2_eq [symmetric])
    ultimately show ?thesis using that by (simp add: show_nat.simps [of n] 2)
  qed
  show ?thesis
    using assms that 1 [of n] 2 [of n] 3 [of n]
    by (cases "n < 10"; cases "n < 100") (auto simp: not_less)
qed

lemma not_digit_dot [simp]: "\<not> is_digit CHR ''.''"
  by (simp add: is_digit_def)

lemma length_show_octet: "n < 256 \<Longrightarrow> length (show_nat n) \<le> 3"
  by (erule octet_forms) simp_all

lemma pton_loop_octet:
  assumes "n < 256" "octets < 4"
  shows "pton_loop (show_nat n @ rest) False octets don 0 = pton_loop rest True (Suc octets) don n"
  using assms(1)
proof (cases rule: octet_forms)
  case one
  with assms show ?thesis by simp
next
  case two
  then have "n div 10 < 10" "n div 10 \<noteq> 0" by auto
  with two assms show ?thesis by simp
next
  case three
  have d: "n div 100 < 10" "n div 100 \<noteq> 0" using three assms by auto
  have "n div 100 = n div 10 div 10" by (simp add: div_mult2_eq [symmetric])
  then have "n div 100 * 10 + n div 10 mod 10 = n div 10" by presburger
  moreover have "n div 10 \<noteq> 0" "n div 10 \<le> 255" using three assms by auto
  ultimately show ?thesis using three(2) assms d by simp
qed

lemma pton_loop_dot:
  "octets < 4 \<Longrightarrow> pton_loop (CHR ''.'' # rest) True octets don n = pton_loop rest False octets (don @ [n]) 0"
  by simp

lemma pton_loop_ntop:
  assumes "a < 256" "b < 256" "c < 256" "d < 256"
  shows "pton_loop (show_nat a @ ''.'' @ show_nat b @ ''.'' @ show_nat c @ ''.'' @ show_nat d)
    False 0 [] 0 = Some [a, b, c, d]"
  using assms pton_loop_octet [of d 3 "[]"]
  by (simp add: pton_loop_octet pton_loop_dot numeral_eq_Suc del: pton_loop.simps(2))

lemma unat_byte_less [simp]: "unat (b :: byte) < 256"
  using unsigned_less [where ?'a = nat, of b] by simp

lemma nul_free_show_nat: "NUL \<notin> set (show_nat n)"
  using show_nat_digits [of NUL n] by (auto simp: is_digit_def)

lemma nul_free_inet_ntop [simp]: "nul_free (inet_ntop a)"
  by (auto simp: inet_ntop_def nul_free_def nul_free_show_nat split: list.splits)

theorem inet_pton_ntop [simp]: "inet_pton (inet_ntop a) = Some a"
proof -
  obtain b0 b1 b2 b3 where b: "le32 a = [b0, b1, b2, b3]"
    using length_le32 [of a] by (rule list4_cases)
  then have "of_le32 [b0, b1, b2, b3] = a" by (metis of_le32_le32)
  then show ?thesis
    using pton_loop_ntop [of "unat b0" "unat b1" "unat b2" "unat b3"] c_string_nul_free [OF nul_free_inet_ntop, of a]
    by (simp add: inet_pton_def inet_ntop_def b)
qed

lemma inet_ntop_inject [simp]: "inet_ntop a = inet_ntop b \<longleftrightarrow> a = b"
  by (metis inet_pton_ntop option.inject)

lemma set_show_nat: "set (show_nat n) \<subseteq> {c. is_digit c}"
  using show_nat_digits by blast

lemma length_inet_ntop [simp]: "length (inet_ntop a) < 16"
proof -
  have l: "length (show_nat (unat (b :: byte))) \<le> 3" for b
    by (rule length_show_octet) simp
  obtain b0 b1 b2 b3 where b: "le32 a = [b0, b1, b2, b3]"
    using length_le32 [of a] by (rule list4_cases)
  show ?thesis using l [of b0] l [of b1] l [of b2] l [of b3] by (simp add: inet_ntop_def b)
qed

text \<open>What the packets do to an address: printed, cut to an array, read back as a string.\<close>

lemma c_string_ip_array_ntop [simp, codec_simps]: "c_string (ip_array (inet_ntop a)) = inet_ntop a"
  by (simp add: c_string_ip_array)

lemma inet_ntop_not_Nil [simp]: "inet_ntop a \<noteq> []"
proof -
  obtain b0 b1 b2 b3 where "le32 a = [b0, b1, b2, b3]"
    using length_le32 [of a] by (rule list4_cases)
  then show ?thesis by (simp add: inet_ntop_def)
qed

end
