(* ===== verification/Wire.thy ===== *)
theory Wire
  imports Float32 Inet
begin

text \<open>
  The packets of include/utils.h as the bytes that cross the network. A \<open>Packet\<close> is 88 bytes on
  amd64: the 16-bit type, two bytes of padding, and the union, whose largest member is
  \<open>StateUpdateData\<close> with 84 bytes. A handler reads the union member it names from those bytes,
  whatever the sender wrote there, as the C++ union does. Each struct has an encoder and a
  decoder; the locale \<open>codec\<close> is the contract between the two, interpreted for every field type
  and every struct, and \<open>member\<close> extends it to the members of the union.
\<close>

section \<open>The structs of include/utils.h\<close>

record transaction =
  tx_id :: int
  tx_source_ip :: string
  tx_dest_ip :: string
  tx_value :: int
  tx_client_seqn :: int

record client_update_data =
  cu_ip :: string
  cu_balance :: float32
  cu_last_request :: int

record state_update_data =
  su_transaction :: transaction
  su_source_ip :: string
  su_source_balance :: float32
  su_dest_ip :: string
  su_dest_balance :: float32

record req_data =
  rq_dest_addr :: u32
  rq_value :: u32
  rq_seqn :: u32

record ack_data =
  ak_seqn :: u32
  ak_new_balance :: float32
  ak_status :: u32
  ak_last_req :: u32

datatype packet_type =
    DISCOVERY | DISCOVERY_ACK | TRANSACTION_REQ | TRANSACTION_ACK | REGISTER_BACKUP
  | ADD_CLIENT_UPDATE | HEARTBEAT | NEW_PRIMARY_ANNOUNCEMENT | STATE_UPDATE | STATE_UPDATE_ACK
  | ADD_HISTORY_ENTRY | SERVER_DISCOVERY | ELECTION | ELECTION_ANSWER

primrec type_code :: "packet_type \<Rightarrow> u16" where
  "type_code DISCOVERY = 0"
| "type_code DISCOVERY_ACK = 1"
| "type_code TRANSACTION_REQ = 2"
| "type_code TRANSACTION_ACK = 3"
| "type_code REGISTER_BACKUP = 4"
| "type_code ADD_CLIENT_UPDATE = 5"
| "type_code HEARTBEAT = 6"
| "type_code NEW_PRIMARY_ANNOUNCEMENT = 7"
| "type_code STATE_UPDATE = 8"
| "type_code STATE_UPDATE_ACK = 9"
| "type_code ADD_HISTORY_ENTRY = 10"
| "type_code SERVER_DISCOVERY = 11"
| "type_code ELECTION = 12"
| "type_code ELECTION_ANSWER = 13"

text \<open>The label a \<open>switch\<close> over the type selects; \<open>None\<close> is \<open>default\<close>.\<close>

instantiation packet_type :: enum
begin

definition enum_packet_type :: "packet_type list" where
  "enum_packet_type =
     [DISCOVERY, DISCOVERY_ACK, TRANSACTION_REQ, TRANSACTION_ACK, REGISTER_BACKUP,
      ADD_CLIENT_UPDATE, HEARTBEAT, NEW_PRIMARY_ANNOUNCEMENT, STATE_UPDATE, STATE_UPDATE_ACK,
      ADD_HISTORY_ENTRY, SERVER_DISCOVERY, ELECTION, ELECTION_ANSWER]"

definition enum_all_packet_type :: "(packet_type \<Rightarrow> bool) \<Rightarrow> bool" where
  "enum_all_packet_type P \<longleftrightarrow> list_all P enum_class.enum"

definition enum_ex_packet_type :: "(packet_type \<Rightarrow> bool) \<Rightarrow> bool" where
  "enum_ex_packet_type P \<longleftrightarrow> list_ex P enum_class.enum"

instance
proof
  have u: "t \<in> set (enum_class.enum :: packet_type list)" for t
    by (cases t) (simp_all add: enum_packet_type_def)
  then show all: "(UNIV :: packet_type set) = set enum_class.enum" by auto
  show "distinct (enum_class.enum :: packet_type list)" by (simp add: enum_packet_type_def)
  show "enum_class.enum_all P \<longleftrightarrow> Ball UNIV P" for P :: "packet_type \<Rightarrow> bool"
    by (simp add: enum_all_packet_type_def list_all_iff all)
  show "enum_class.enum_ex P \<longleftrightarrow> Bex UNIV P" for P :: "packet_type \<Rightarrow> bool"
    by (simp add: enum_ex_packet_type_def list_ex_iff all)
qed

end

definition type_of_code :: "u16 \<Rightarrow> packet_type option" where
  "type_of_code w = find (\<lambda>t. type_code t = w) enum_class.enum"

lemma type_of_code_code [simp, codec_simps]: "type_of_code (type_code t) = Some t"
  by (cases t) (simp_all add: type_of_code_def enum_packet_type_def)

text \<open>A code selects a label exactly when it is the code of one, whatever the width leaves besides.\<close>

lemma type_of_code_iff: "type_of_code w = Some t \<longleftrightarrow> w = type_code t"
  by (auto simp: type_of_code_def find_Some_iff dest: sym)
    (metis find_Some_iff option.inject type_of_code_code type_of_code_def)

lemma type_code_inject [simp]: "type_code s = type_code t \<longleftrightarrow> s = t"
  by (metis type_of_code_code option.inject)

section \<open>Encoders and decoders\<close>

definition enc_i32 :: "int \<Rightarrow> byte list" where "enc_i32 n = le32 (u32_of_int n)"
definition dec_i32 :: "byte list \<Rightarrow> int" where "dec_i32 bs = int_of_u32 (of_le32 bs)"
definition enc_f32 :: "float32 \<Rightarrow> byte list" where "enc_f32 x = le32 (f32_bits x)"
definition dec_f32 :: "byte list \<Rightarrow> float32" where "dec_f32 bs = f32_of_bits (of_le32 bs)"

definition enc_transaction :: "transaction \<Rightarrow> byte list" where
  "enc_transaction t =
     enc_i32 (tx_id t) @ bytes_of (tx_source_ip t) @ bytes_of (tx_dest_ip t) @
     enc_i32 (tx_value t) @ enc_i32 (tx_client_seqn t)"

definition dec_transaction :: "byte list \<Rightarrow> transaction" where
  "dec_transaction bs =
     \<lparr>tx_id = dec_i32 (take 4 bs),
      tx_source_ip = string_of (take 16 (drop 4 bs)),
      tx_dest_ip = string_of (take 16 (drop 20 bs)),
      tx_value = dec_i32 (take 4 (drop 36 bs)),
      tx_client_seqn = dec_i32 (take 4 (drop 40 bs))\<rparr>"

definition enc_client_update :: "client_update_data \<Rightarrow> byte list" where
  "enc_client_update u =
     bytes_of (cu_ip u) @ enc_f32 (cu_balance u) @ enc_i32 (cu_last_request u)"

definition dec_client_update :: "byte list \<Rightarrow> client_update_data" where
  "dec_client_update bs =
     \<lparr>cu_ip = string_of (take 16 bs),
      cu_balance = dec_f32 (take 4 (drop 16 bs)),
      cu_last_request = dec_i32 (take 4 (drop 20 bs))\<rparr>"

definition enc_state_update :: "state_update_data \<Rightarrow> byte list" where
  "enc_state_update u =
     enc_transaction (su_transaction u) @
     bytes_of (su_source_ip u) @ enc_f32 (su_source_balance u) @
     bytes_of (su_dest_ip u) @ enc_f32 (su_dest_balance u)"

definition dec_state_update :: "byte list \<Rightarrow> state_update_data" where
  "dec_state_update bs =
     \<lparr>su_transaction = dec_transaction (take 44 bs),
      su_source_ip = string_of (take 16 (drop 44 bs)),
      su_source_balance = dec_f32 (take 4 (drop 60 bs)),
      su_dest_ip = string_of (take 16 (drop 64 bs)),
      su_dest_balance = dec_f32 (take 4 (drop 80 bs))\<rparr>"

definition enc_req :: "req_data \<Rightarrow> byte list" where
  "enc_req r = le32 (rq_dest_addr r) @ le32 (rq_value r) @ le32 (rq_seqn r)"

definition dec_req :: "byte list \<Rightarrow> req_data" where
  "dec_req bs =
     \<lparr>rq_dest_addr = of_le32 (take 4 bs), rq_value = of_le32 (take 4 (drop 4 bs)),
      rq_seqn = of_le32 (take 4 (drop 8 bs))\<rparr>"

definition enc_ack :: "ack_data \<Rightarrow> byte list" where
  "enc_ack a =
     le32 (ak_seqn a) @ enc_f32 (ak_new_balance a) @ le32 (ak_status a) @ le32 (ak_last_req a)"

definition dec_ack :: "byte list \<Rightarrow> ack_data" where
  "dec_ack bs =
     \<lparr>ak_seqn = of_le32 (take 4 bs), ak_new_balance = dec_f32 (take 4 (drop 4 bs)),
      ak_status = of_le32 (take 4 (drop 8 bs)), ak_last_req = of_le32 (take 4 (drop 12 bs))\<rparr>"

text \<open>The values a struct's memory can hold.\<close>

definition valid_transaction :: "transaction \<Rightarrow> bool" where
  "valid_transaction t \<longleftrightarrow>
     in_i32 (tx_id t) \<and> length (tx_source_ip t) = 16 \<and> length (tx_dest_ip t) = 16 \<and>
     in_i32 (tx_value t) \<and> in_i32 (tx_client_seqn t)"

definition valid_client_update :: "client_update_data \<Rightarrow> bool" where
  "valid_client_update u \<longleftrightarrow>
     length (cu_ip u) = 16 \<and> canonical (cu_balance u) \<and> in_i32 (cu_last_request u)"

definition valid_state_update :: "state_update_data \<Rightarrow> bool" where
  "valid_state_update u \<longleftrightarrow>
     valid_transaction (su_transaction u) \<and>
     length (su_source_ip u) = 16 \<and> canonical (su_source_balance u) \<and>
     length (su_dest_ip u) = 16 \<and> canonical (su_dest_balance u)"

definition valid_ack :: "ack_data \<Rightarrow> bool" where
  "valid_ack a \<longleftrightarrow> canonical (ak_new_balance a)"

section \<open>The contract of an encoding\<close>

locale codec =
  fixes enc :: "'a \<Rightarrow> byte list" and dec :: "byte list \<Rightarrow> 'a"
    and valid :: "'a \<Rightarrow> bool" and width :: nat
  assumes enc_width: "valid x \<Longrightarrow> length (enc x) = width"
    and dec_enc: "valid x \<Longrightarrow> dec (enc x) = x"
    and valid_dec: "length bs = width \<Longrightarrow> valid (dec bs)"
begin

lemma dec_front: "valid x \<Longrightarrow> dec (take width (enc x @ rest)) = x"
  by (simp add: enc_width dec_enc)

lemma enc_inj: "valid x \<Longrightarrow> valid y \<Longrightarrow> enc x = enc y \<Longrightarrow> x = y"
  by (metis dec_enc)

end

interpretation c_i32: codec enc_i32 dec_i32 in_i32 4
  by unfold_locales (simp_all add: enc_i32_def dec_i32_def)

interpretation c_f32: codec enc_f32 dec_f32 canonical 4
  by unfold_locales (simp_all add: enc_f32_def dec_f32_def)

interpretation c_u32: codec le32 of_le32 "\<lambda>_. True" 4
  by unfold_locales simp_all

interpretation c_chars: codec bytes_of string_of "\<lambda>s. length s = 16" 16
  by unfold_locales simp_all

lemma length_enc_i32 [simp, codec_simps]: "length (enc_i32 n) = 4"
  by (simp add: enc_i32_def)

lemma length_enc_f32 [simp, codec_simps]: "length (enc_f32 n) = 4"
  by (simp add: enc_f32_def)

lemmas field_codecs = c_i32.dec_enc c_f32.dec_enc c_u32.dec_enc c_i32.valid_dec c_f32.valid_dec

interpretation c_transaction: codec enc_transaction dec_transaction valid_transaction 44
  by unfold_locales
    (simp_all add: valid_transaction_def enc_transaction_def dec_transaction_def field_codecs)

interpretation c_client_update: codec enc_client_update dec_client_update valid_client_update 24
  by unfold_locales
    (simp_all add: valid_client_update_def enc_client_update_def dec_client_update_def field_codecs)

interpretation c_state_update: codec enc_state_update dec_state_update valid_state_update 84
  by unfold_locales
    (simp_all add: valid_state_update_def enc_state_update_def dec_state_update_def field_codecs
      c_transaction.enc_width c_transaction.dec_enc c_transaction.valid_dec)

interpretation c_req: codec enc_req dec_req "\<lambda>_. True" 12
  by unfold_locales (simp_all add: enc_req_def dec_req_def)

interpretation c_ack: codec enc_ack dec_ack valid_ack 16
  by unfold_locales (simp_all add: valid_ack_def enc_ack_def dec_ack_def field_codecs)

section \<open>Packets\<close>

type_synonym packet = "byte list"

definition PACKET_SIZE :: nat where "PACKET_SIZE = 88"
definition DATA_OFFSET :: nat where "DATA_OFFSET = 4"
definition DATA_SIZE :: nat where "DATA_SIZE = 84"

text \<open>
  A packet with its type and one member of the union written. The remaining bytes are zero, as
  \<open>Packet packet{}\<close> leaves them; where the code declares \<open>Packet packet;\<close> they are indeterminate,
  and no receiver reads them (\<open>mk_packet_any_rest\<close>).
\<close>

definition mk_packet_over :: "byte list \<Rightarrow> packet_type \<Rightarrow> byte list \<Rightarrow> packet" where
  "mk_packet_over rest t payload =
     le16 (htons (type_code t)) @ [0, 0] @ payload @ take (DATA_SIZE - length payload) rest"

definition mk_packet :: "packet_type \<Rightarrow> byte list \<Rightarrow> packet" where
  "mk_packet t payload = mk_packet_over (replicate DATA_SIZE 0) t payload"

definition packet_type :: "packet \<Rightarrow> u16" where
  "packet_type p = of_le16 (take 2 p)"

definition packet_data :: "packet \<Rightarrow> byte list" where
  "packet_data p = take DATA_SIZE (drop DATA_OFFSET p)"

text \<open>\<open>switch (ntohs(packet.type))\<close>\<close>

definition packet_label :: "packet \<Rightarrow> packet_type option" where
  "packet_label p = type_of_code (ntohs (packet_type p))"

text \<open>The members of the union.\<close>

definition data_req :: "packet \<Rightarrow> req_data" where
  "data_req p = dec_req (take 12 (packet_data p))"
definition data_ack :: "packet \<Rightarrow> ack_data" where
  "data_ack p = dec_ack (take 16 (packet_data p))"
definition data_client_update :: "packet \<Rightarrow> client_update_data" where
  "data_client_update p = dec_client_update (take 24 (packet_data p))"
definition data_state_update :: "packet \<Rightarrow> state_update_data" where
  "data_state_update p = dec_state_update (take 84 (packet_data p))"
definition data_history_entry :: "packet \<Rightarrow> transaction" where
  "data_history_entry p = dec_transaction (take 44 (packet_data p))"

text \<open>
  \<open>recvfrom(fd, &packet, sizeof(packet), ...)\<close>: a datagram overwrites the front of the buffer,
  and the result is the number of bytes written.
\<close>

definition recv_into :: "packet \<Rightarrow> byte list \<Rightarrow> packet \<times> nat" where
  "recv_into buf datagram =
     (let d = take PACKET_SIZE datagram in (d @ drop (length d) buf, length d))"

lemma packet_type_mk [simp, codec_simps]:
  "packet_type (mk_packet_over rest t payload) = htons (type_code t)"
  by (simp add: packet_type_def mk_packet_over_def)

lemma packet_label_mk [simp, codec_simps]:
  "packet_label (mk_packet_over rest t payload) = Some t"
  by (simp add: packet_label_def)

lemma packet_label_mk' [simp, codec_simps]: "packet_label (mk_packet t payload) = Some t"
  by (simp add: mk_packet_def)

lemma packet_data_mk:
  assumes "length payload \<le> DATA_SIZE"
  shows "packet_data (mk_packet_over rest t payload) =
    payload @ take (DATA_SIZE - length payload) rest"
  using assms by (simp add: packet_data_def mk_packet_over_def DATA_OFFSET_def DATA_SIZE_def)

lemma length_mk_packet [simp]: "length payload \<le> 84 \<Longrightarrow> length (mk_packet t payload) = PACKET_SIZE"
  by (simp add: mk_packet_def mk_packet_over_def DATA_SIZE_def PACKET_SIZE_def)

text \<open>A packet of full size replaces the whole buffer.\<close>

lemma recv_into_full:
  assumes "length buf = PACKET_SIZE" "length p = PACKET_SIZE"
  shows "recv_into buf p = (p, PACKET_SIZE)"
  using assms by (simp add: recv_into_def)

locale member = codec +
  assumes fits: "width \<le> DATA_SIZE"
begin

lemma read_written:
  assumes "valid x"
  shows "dec (take width (packet_data (mk_packet_over rest t (enc x)))) = x"
proof -
  have "length (enc x) \<le> DATA_SIZE" using assms fits by (simp add: enc_width)
  then have "packet_data (mk_packet_over rest t (enc x)) =
      enc x @ take (DATA_SIZE - length (enc x)) rest" by (rule packet_data_mk)
  then show ?thesis using assms by (simp only: dec_front)
qed

end

interpretation m_req: member enc_req dec_req "\<lambda>_. True" 12
  by unfold_locales (simp add: DATA_SIZE_def)
interpretation m_ack: member enc_ack dec_ack valid_ack 16
  by unfold_locales (simp add: DATA_SIZE_def)
interpretation m_client_update: member enc_client_update dec_client_update valid_client_update 24
  by unfold_locales (simp add: DATA_SIZE_def)
interpretation m_state_update: member enc_state_update dec_state_update valid_state_update 84
  by unfold_locales (simp add: DATA_SIZE_def)
interpretation m_history_entry: member enc_transaction dec_transaction valid_transaction 44
  by unfold_locales (simp add: DATA_SIZE_def)

lemma data_req_mk [simp, codec_simps]: "data_req (mk_packet t (enc_req r)) = r"
  unfolding data_req_def mk_packet_def by (rule m_req.read_written) simp

lemma data_ack_mk [simp, codec_simps]:
  "valid_ack a \<Longrightarrow> data_ack (mk_packet t (enc_ack a)) = a"
  unfolding data_ack_def mk_packet_def by (rule m_ack.read_written)

lemma data_client_update_mk [simp, codec_simps]:
  "valid_client_update u \<Longrightarrow> data_client_update (mk_packet t (enc_client_update u)) = u"
  unfolding data_client_update_def mk_packet_def by (rule m_client_update.read_written)

lemma data_state_update_mk [simp, codec_simps]:
  "valid_state_update u \<Longrightarrow> data_state_update (mk_packet t (enc_state_update u)) = u"
  unfolding data_state_update_def mk_packet_def by (rule m_state_update.read_written)

lemma data_history_entry_mk [simp, codec_simps]:
  "valid_transaction x \<Longrightarrow> data_history_entry (mk_packet t (enc_transaction x)) = x"
  unfolding data_history_entry_def mk_packet_def by (rule m_history_entry.read_written)

text \<open>No receiver depends on the bytes that the sender left indeterminate.\<close>

lemma mk_packet_any_rest:
  "packet_label (mk_packet_over r t b) = packet_label (mk_packet_over r' t b)"
  "data_req (mk_packet_over r t (enc_req q)) = data_req (mk_packet_over r' t (enc_req q))"
  "valid_ack a \<Longrightarrow>
     data_ack (mk_packet_over r t (enc_ack a)) = data_ack (mk_packet_over r' t (enc_ack a))"
  "valid_client_update u \<Longrightarrow> data_client_update (mk_packet_over r t (enc_client_update u)) =
     data_client_update (mk_packet_over r' t (enc_client_update u))"
  by (simp_all add: data_req_def data_ack_def data_client_update_def m_req.read_written
      m_ack.read_written m_client_update.read_written)

text \<open>Whatever a full buffer holds, its members are values of their types.\<close>

lemma length_packet_data [simp]: "length p = PACKET_SIZE \<Longrightarrow> length (packet_data p) = 84"
  by (simp add: packet_data_def PACKET_SIZE_def DATA_OFFSET_def DATA_SIZE_def)

lemma valid_members:
  assumes "length p = PACKET_SIZE"
  shows "valid_ack (data_ack p)" "valid_client_update (data_client_update p)"
    "valid_state_update (data_state_update p)" "valid_transaction (data_history_entry p)"
  using assms
  by (simp_all add: data_ack_def data_client_update_def data_state_update_def
      data_history_entry_def c_ack.valid_dec c_client_update.valid_dec c_state_update.valid_dec
      c_transaction.valid_dec)

lemma length_recv_into: "length buf = PACKET_SIZE \<Longrightarrow> length (fst (recv_into buf d)) = PACKET_SIZE"
  by (simp add: recv_into_def Let_def)

end
