(* ===== verification/Vec.thy ===== *)
theory Vec
  imports Prelude "HOL-Library.Monad_Syntax"
begin

text \<open>
  \<open>std::vector\<close> with its iterators, as libstdc++ keeps it: the elements, the capacity, and an
  epoch that counts the reallocations. An iterator remembers the epoch it was taken in; reading
  or writing through it is defined only while no reallocation has happened since and it points
  at an element. Undefined behaviour is \<open>None\<close>.
\<close>

record 'a vec =
  elems :: "'a list"
  capacity :: nat
  epoch :: nat

datatype iter = Iter (it_epoch: nat) (it_pos: nat)

definition vec_empty :: "'a vec" where
  "vec_empty = \<lparr>elems = [], capacity = 0, epoch = 0\<rparr>"

definition vec_size :: "'a vec \<Rightarrow> nat" where
  "vec_size v = length (elems v)"

definition vec_end :: "'a vec \<Rightarrow> iter" where
  "vec_end v = Iter (epoch v) (vec_size v)"

text \<open>\<open>push_back\<close> and \<open>emplace_back\<close>: a full vector moves to a block of twice the size.\<close>

definition push_back :: "'a vec \<Rightarrow> 'a \<Rightarrow> 'a vec" where
  "push_back v x =
     (if vec_size v < capacity v then v\<lparr>elems := elems v @ [x]\<rparr>
      else v\<lparr>elems := elems v @ [x], capacity := vec_size v + max (vec_size v) 1,
             epoch := Suc (epoch v)\<rparr>)"

definition find_if :: "('a \<Rightarrow> bool) \<Rightarrow> 'a vec \<Rightarrow> iter" where
  "find_if P v = Iter (epoch v) (length (takeWhile (\<lambda>x. \<not> P x) (elems v)))"

definition deref :: "'a vec \<Rightarrow> iter \<Rightarrow> 'a option" where
  "deref v it =
     (if it_epoch it = epoch v \<and> it_pos it < vec_size v then Some (elems v ! it_pos it) else None)"

definition write_at :: "'a vec \<Rightarrow> iter \<Rightarrow> ('a \<Rightarrow> 'a) \<Rightarrow> 'a vec option" where
  "write_at v it f =
     (case deref v it of
        None \<Rightarrow> None
      | Some x \<Rightarrow> Some (v\<lparr>elems := (elems v)[it_pos it := f x]\<rparr>))"

definition vec_wf :: "'a vec \<Rightarrow> bool" where
  "vec_wf v \<longleftrightarrow> vec_size v \<le> capacity v"

lemma vec_wf_empty [simp]: "vec_wf vec_empty"
  by (simp add: vec_wf_def vec_empty_def vec_size_def)

lemma elems_push_back [simp]: "elems (push_back v x) = elems v @ [x]"
  by (simp add: push_back_def)

lemma vec_wf_push_back [simp]: "vec_wf v \<Longrightarrow> vec_wf (push_back v x)"
  by (simp add: vec_wf_def push_back_def vec_size_def)

lemma epoch_push_back:
  "epoch (push_back v x) = (if vec_size v < capacity v then epoch v else Suc (epoch v))"
  by (simp add: push_back_def)

section \<open>find_if\<close>

lemma takeWhile_full: "(\<And>x. x \<in> set xs \<Longrightarrow> P x) \<Longrightarrow> length (takeWhile P xs) = length xs"
  by (simp add: takeWhile_eq_all_conv [THEN iffD2])

lemma find_if_end_iff:
  "find_if P v = vec_end v \<longleftrightarrow> (\<forall>x\<in>set (elems v). \<not> P x)"
proof
  assume "find_if P v = vec_end v"
  then have "length (takeWhile (\<lambda>x. \<not> P x) (elems v)) = length (elems v)"
    by (simp add: find_if_def vec_end_def vec_size_def)
  then have "takeWhile (\<lambda>x. \<not> P x) (elems v) = elems v"
    by (metis append_take_drop_id length_takeWhile_le takeWhile_eq_take take_all_iff)
  then show "\<forall>x\<in>set (elems v). \<not> P x" by (metis set_takeWhileD)
next
  assume "\<forall>x\<in>set (elems v). \<not> P x"
  then show "find_if P v = vec_end v"
    by (simp add: find_if_def vec_end_def vec_size_def takeWhile_full)
qed

lemma deref_find_if:
  assumes "find_if P v \<noteq> vec_end v"
  obtains x where "deref v (find_if P v) = Some x" "x \<in> set (elems v)" "P x"
proof -
  let ?n = "length (takeWhile (\<lambda>x. \<not> P x) (elems v))"
  have "?n \<le> vec_size v" unfolding vec_size_def by (rule length_takeWhile_le)
  moreover have "?n \<noteq> vec_size v" using assms by (auto simp: find_if_def vec_end_def)
  ultimately have lt: "?n < vec_size v" by simp
  then have "P (elems v ! ?n)"
    using nth_length_takeWhile [of "\<lambda>x. \<not> P x" "elems v"] by (simp add: vec_size_def)
  with lt show ?thesis by (intro that) (simp_all add: deref_def find_if_def vec_size_def)
qed

lemma deref_push_back:
  assumes "deref v it = Some x" "vec_size v < capacity v"
  shows "deref (push_back v y) it = Some x"
  using assms by (auto simp: deref_def push_back_def vec_size_def nth_append split: if_splits)

text \<open>The end of a full vector: one more element and every iterator dangles.\<close>

lemma deref_push_back_full:
  assumes "it_epoch it = epoch v" "\<not> vec_size v < capacity v"
  shows "deref (push_back v y) it = None"
  using assms by (simp add: deref_def push_back_def)

lemma deref_fresh: "deref (push_back v x) (Iter (epoch (push_back v x)) (vec_size v)) = Some x"
  by (simp add: deref_def push_back_def vec_size_def)

section \<open>write_at\<close>

lemma write_at_Some:
  assumes "deref v it = Some x"
  shows "write_at v it f = Some (v\<lparr>elems := (elems v)[it_pos it := f x]\<rparr>)"
  using assms by (simp add: write_at_def)

lemma write_at_None: "deref v it = None \<Longrightarrow> write_at v it f = None"
  by (simp add: write_at_def)

lemma write_at_frame:
  assumes "write_at v it f = Some v'"
  shows "capacity v' = capacity v" "epoch v' = epoch v" "vec_size v' = vec_size v"
    "vec_end v' = vec_end v"
  using assms by (auto simp: write_at_def vec_size_def vec_end_def split: option.splits)

end
