(* ===== verification/KeyedTable.thy ===== *)
theory KeyedTable
  imports Vec
begin

text \<open>
  The contract the bank relies on: a table of rows with distinct keys that is searched by key,
  grows at its end and is updated in place. The locale \<open>keyed_table\<close> states the laws and proves
  what the bank needs of them (lookups after an update, sums over the rows); the interpretation
  \<open>vec_table\<close> discharges the laws for a \<open>std::vector\<close> searched with \<open>std::find_if\<close> and written
  through the iterator that the search returned, which is how Server.cpp keeps its clients.
\<close>

locale keyed_table =
  fixes key :: "'a \<Rightarrow> 'k"
    and get :: "'t \<Rightarrow> 'k \<Rightarrow> 'a option"
    and add :: "'t \<Rightarrow> 'a \<Rightarrow> 't"
    and upd :: "'t \<Rightarrow> 'k \<Rightarrow> ('a \<Rightarrow> 'a) \<Rightarrow> 't option"
    and rows :: "'t \<Rightarrow> 'a list"
    and wf :: "'t \<Rightarrow> bool"
  assumes distinct_keys: "wf t \<Longrightarrow> distinct (map key (rows t))"
    and get_iff: "wf t \<Longrightarrow> get t k = Some x \<longleftrightarrow> x \<in> set (rows t) \<and> key x = k"
    and add_rows: "rows (add t x) = rows t @ [x]"
    and add_wf: "wf t \<Longrightarrow> get t (key x) = None \<Longrightarrow> wf (add t x)"
    and upd_rows: "wf t \<Longrightarrow> get t k = Some x \<Longrightarrow> key (f x) = k \<Longrightarrow>
      \<exists>t'. upd t k f = Some t' \<and> rows t' = map (\<lambda>r. if key r = k then f r else r) (rows t) \<and> wf t'"
    and upd_missing: "wf t \<Longrightarrow> get t k = None \<Longrightarrow> upd t k f = None"
begin

lemma get_None_iff: "wf t \<Longrightarrow> get t k = None \<longleftrightarrow> k \<notin> key ` set (rows t)"
  using get_iff [of t k] by (metis (no_types, lifting) image_iff not_Some_eq)

lemma get_add:
  assumes "wf t" "get t (key x) = None"
  shows "get (add t x) k = (if k = key x then Some x else get t k)"
proof (cases "get (add t x) k")
  case None
  then have "k \<notin> key ` set (rows t @ [x])"
    using get_None_iff [OF add_wf [OF assms], of k] unfolding add_rows by blast
  then have "k \<noteq> key x" "get t k = None" using get_None_iff [OF assms(1)] by auto
  with None show ?thesis by simp
next
  case (Some y)
  then have y: "y \<in> set (rows t @ [x])" "key y = k"
    using get_iff [OF add_wf [OF assms]] by (auto simp: add_rows)
  show ?thesis
  proof (cases "y = x")
    case False
    with y have "y \<in> set (rows t)" by simp
    then have "get t k = Some y" using y(2) by (simp add: get_iff [OF assms(1)])
    with Some assms(2) show ?thesis by auto
  qed (use Some y in simp)
qed

lemma upd_ok:
  assumes "wf t" "get t k = Some x" "key (f x) = k"
  obtains t' where "upd t k f = Some t'" "wf t'"
    "rows t' = map (\<lambda>r. if key r = k then f r else r) (rows t)"
    "\<And>j. get t' j = (if j = k then Some (f x) else get t j)"
proof -
  from upd_rows [of t k x f, OF assms] obtain t' where
    t': "upd t k f = Some t'" "rows t' = map (\<lambda>r. if key r = k then f r else r) (rows t)" "wf t'"
    by blast
  have x: "x \<in> set (rows t)" "key x = k" using assms by (simp_all add: get_iff)
  have uniq: "r = x" if "r \<in> set (rows t)" "key r = k" for r
    using that assms(1,2) by (metis get_iff option.inject)
  have "get t' j = Some y \<longleftrightarrow> (if j = k then Some (f x) else get t j) = Some y" for j y
  proof -
    have "get t' j = Some y \<longleftrightarrow>
        (\<exists>r\<in>set (rows t). y = (if key r = k then f r else r) \<and> key y = j)"
      by (simp only: get_iff [OF t'(3)] t'(2) set_map image_iff) blast
    also have "\<dots> \<longleftrightarrow> (if j = k then y = f x else y \<in> set (rows t) \<and> key y = j)"
    proof (cases "j = k")
      case True
      have "(\<exists>r\<in>set (rows t). y = (if key r = k then f r else r) \<and> key y = k) \<longleftrightarrow> y = f x"
        using uniq x assms(3) by (metis (full_types))
      with True show ?thesis by simp
    next
      case False
      have "y = (if key r = k then f r else r) \<and> key y = j \<longleftrightarrow> r = y \<and> key y = j"
        if "r \<in> set (rows t)" for r
        using uniq [OF that] assms(3) False by auto
      with False show ?thesis by auto
    qed
    also have "\<dots> \<longleftrightarrow> (if j = k then Some (f x) else get t j) = Some y"
      using assms(1) by (auto simp: get_iff)
    finally show ?thesis .
  qed
  then have "get t' j = (if j = k then Some (f x) else get t j)" for j
    by (metis option.exhaust)
  with t' show ?thesis by (intro that)
qed

lemma sum_upd:
  fixes g :: "'a \<Rightarrow> int"
  assumes "wf t" "get t k = Some x"
  shows "sum_list (map g (map (\<lambda>r. if key r = k then f r else r) (rows t))) =
    sum_list (map g (rows t)) + g (f x) - g x"
proof -
  have "distinct (map key xs) \<Longrightarrow> x \<in> set xs \<Longrightarrow> key x = k \<Longrightarrow>
      sum_list (map g (map (\<lambda>r. if key r = k then f r else r) xs)) =
      sum_list (map g xs) + g (f x) - g x" for xs
  proof (induction xs)
    case (Cons y ys)
    show ?case
    proof (cases "y = x")
      case True
      then have "k \<notin> key ` set ys" using Cons.prems by auto
      then have "map (\<lambda>r. if key r = k then f r else r) ys = ys"
        by (intro map_idI) auto
      with True Cons.prems(3) show ?thesis by simp
    next
      case False
      then have "key y \<noteq> k" using Cons.prems by (metis distinct.simps(2) image_eqI
            list.simps(9) set_ConsD set_map)
      with False Cons show ?thesis by simp
    qed
  qed simp
  then show ?thesis using assms distinct_keys by (simp add: get_iff)
qed

lemma sum_at_key:
  assumes "wf t" "get t k = Some x"
  shows "sum_list (map (\<lambda>r. if key r = k then a else 0) (rows t)) = (a :: int)"
proof -
  have "distinct (map key xs) \<Longrightarrow> x \<in> set xs \<Longrightarrow> key x = k \<Longrightarrow>
      sum_list (map (\<lambda>r. if key r = k then a else 0) xs) = a" for xs
  proof (induction xs)
    case (Cons y ys)
    show ?case
    proof (cases "y = x")
      case True
      then have "k \<notin> key ` set ys" using Cons.prems by auto
      then have "map (\<lambda>r. if key r = k then a else 0) ys = map (\<lambda>r. 0) ys" by auto
      then have "sum_list (map (\<lambda>r. if key r = k then a else 0) ys) = 0" by (simp only: sum_list_0)
      with True Cons.prems(3) show ?thesis by simp
    next
      case False
      then have "key y \<noteq> k" using Cons.prems by (metis distinct.simps(2) image_eqI
            list.simps(9) set_ConsD set_map)
      with False Cons show ?thesis by simp
    qed
  qed simp
  then show ?thesis using assms distinct_keys by (simp add: get_iff)
qed

lemma sum_add:
  fixes g :: "'a \<Rightarrow> int"
  shows "sum_list (map g (rows (add t x))) = sum_list (map g (rows t)) + g x"
  by (simp add: add_rows)

end

section \<open>A vector searched with find_if\<close>

definition vec_get :: "('a \<Rightarrow> 'k) \<Rightarrow> 'a vec \<Rightarrow> 'k \<Rightarrow> 'a option" where
  "vec_get key v k = deref v (find_if (\<lambda>x. key x = k) v)"

definition vec_upd :: "('a \<Rightarrow> 'k) \<Rightarrow> 'a vec \<Rightarrow> 'k \<Rightarrow> ('a \<Rightarrow> 'a) \<Rightarrow> 'a vec option" where
  "vec_upd key v k f = write_at v (find_if (\<lambda>x. key x = k) v) f"

definition table_wf :: "('a \<Rightarrow> 'k) \<Rightarrow> 'a vec \<Rightarrow> bool" where
  "table_wf key v \<longleftrightarrow> vec_wf v \<and> distinct (map key (elems v))"

lemma deref_end [simp]: "deref v (vec_end v) = None"
  by (simp add: deref_def vec_end_def)

lemma vec_get_None_iff: "vec_get key v k = None \<longleftrightarrow> find_if (\<lambda>x. key x = k) v = vec_end v"
proof
  assume n: "vec_get key v k = None"
  show "find_if (\<lambda>x. key x = k) v = vec_end v"
  proof (rule ccontr)
    assume "find_if (\<lambda>x. key x = k) v \<noteq> vec_end v"
    then obtain x where "deref v (find_if (\<lambda>x. key x = k) v) = Some x" by (rule deref_find_if)
    with n show False by (simp add: vec_get_def)
  qed
qed (simp add: vec_get_def)

lemma find_if_end_get [simp]:
  "find_if (\<lambda>x. key x = k) v = vec_end v \<longleftrightarrow> vec_get key v k = None"
  by (simp add: vec_get_None_iff)

lemma vec_get_SomeD:
  assumes "vec_get key v k = Some x" shows "x \<in> set (elems v)" "key x = k"
proof -
  from assms have "find_if (\<lambda>x. key x = k) v \<noteq> vec_end v"
    by (auto simp: vec_get_None_iff [symmetric])
  then obtain y where "deref v (find_if (\<lambda>x. key x = k) v) = Some y" "y \<in> set (elems v)" "key y = k"
    by (rule deref_find_if)
  with assms show "x \<in> set (elems v)" "key x = k" by (simp_all add: vec_get_def)
qed

lemma find_if_same_keys:
  assumes "map key (elems v') = map key (elems v)" "epoch v' = epoch v"
  shows "find_if (\<lambda>x. key x = k) v' = find_if (\<lambda>x. key x = k) v"
proof -
  have "length (takeWhile (\<lambda>x. key x \<noteq> k) xs) = length (takeWhile (\<lambda>j. j \<noteq> k) (map key xs))" for xs
    by (induction xs) simp_all
  then show ?thesis using assms by (simp add: find_if_def)
qed

lemma update_first_map:
  assumes "i < length xs" "distinct (map key xs)" "key (xs ! i) = k"
  shows "xs[i := f (xs ! i)] = map (\<lambda>r. if key r = k then f r else r) xs"
proof (rule nth_equalityI)
  fix j assume j: "j < length (xs[i := f (xs ! i)])"
  then have "key (xs ! j) = k \<longleftrightarrow> j = i"
    using assms by (metis distinct_conv_nth length_list_update length_map nth_map)
  with assms(1) j show "xs[i := f (xs ! i)] ! j = map (\<lambda>r. if key r = k then f r else r) xs ! j"
    by auto
qed simp

lemma write_at_map:
  assumes "table_wf key v" "vec_get key v k = Some x"
  shows "vec_upd key v k f =
    Some (v\<lparr>elems := map (\<lambda>r. if key r = k then f r else r) (elems v)\<rparr>)"
proof -
  let ?i = "it_pos (find_if (\<lambda>x. key x = k) v)"
  have d: "deref v (find_if (\<lambda>x. key x = k) v) = Some x"
    using assms(2) by (simp add: vec_get_def)
  then have i: "?i < length (elems v)" and x: "x = elems v ! ?i"
    by (auto simp: deref_def vec_size_def split: if_splits)
  have "key (elems v ! ?i) = k" using vec_get_SomeD(2) [OF assms(2)] x by simp
  then have "(elems v)[?i := f x] = map (\<lambda>r. if key r = k then f r else r) (elems v)"
    using update_first_map [OF i, of key k f] assms(1) x by (simp add: table_wf_def)
  then show ?thesis by (simp add: vec_upd_def write_at_def d)
qed

lemma table_wf_update:
  assumes "table_wf key v" "\<And>r. r \<in> set (elems v) \<Longrightarrow> key (f r) = key r"
  shows "table_wf key (v\<lparr>elems := map f (elems v)\<rparr>)"
proof -
  have "map key (map f (elems v)) = map key (elems v)" using assms(2) by simp
  then show ?thesis using assms(1)
    by (simp add: table_wf_def vec_wf_def vec_size_def del: map_map)
qed

lemma vec_get_iff:
  assumes "table_wf key v"
  shows "vec_get key v k = Some x \<longleftrightarrow> x \<in> set (elems v) \<and> key x = k"
proof
  assume x: "x \<in> set (elems v) \<and> key x = k"
  then have "find_if (\<lambda>x. key x = k) v \<noteq> vec_end v" unfolding find_if_end_iff by blast
  then obtain y where y: "vec_get key v k = Some y" by auto
  with vec_get_SomeD [OF y] x assms show "vec_get key v k = Some x"
    by (metis distinct_map inj_onD table_wf_def)
qed (auto dest: vec_get_SomeD)

interpretation vec_table: keyed_table key "vec_get key" push_back "vec_upd key" elems "table_wf key"
  for key :: "'a \<Rightarrow> 'k"
proof
  fix t k x and f :: "'a \<Rightarrow> 'a"
  assume a: "table_wf key t" "vec_get key t k = Some x" "key (f x) = k"
  have "r = x" if "r \<in> set (elems t)" "key r = k" for r
    using that a(1,2) by (metis option.inject vec_get_iff)
  then have "table_wf key (t\<lparr>elems := map (\<lambda>r. if key r = k then f r else r) (elems t)\<rparr>)"
    using a by (intro table_wf_update) auto
  then show "\<exists>t'. vec_upd key t k f = Some t' \<and>
      elems t' = map (\<lambda>r. if key r = k then f r else r) (elems t) \<and> table_wf key t'"
    using write_at_map [OF a(1,2)] by simp
next
  fix t and x :: 'a assume "table_wf key t" "vec_get key t (key x) = None"
  then show "table_wf key (push_back t x)"
    using vec_get_iff [of key t "key x"] by (force simp: table_wf_def)
next
  fix t k and f :: "'a \<Rightarrow> 'a" assume "vec_get key t k = None"
  then show "vec_upd key t k f = None" by (simp add: vec_upd_def vec_get_def write_at_None)
qed (simp_all add: vec_get_iff, simp add: table_wf_def)

text \<open>Rewriting every row without touching its key commutes with the search.\<close>

lemma vec_get_map_rows:
  assumes "\<And>r. key (g r) = key r"
  shows "vec_get key (v\<lparr>elems := map g (elems v)\<rparr>) k = map_option g (vec_get key v k)"
proof -
  have "find_if (\<lambda>x. key x = k) (v\<lparr>elems := map g (elems v)\<rparr>) = find_if (\<lambda>x. key x = k) v"
    using assms by (intro find_if_same_keys) simp_all
  then show ?thesis by (simp add: vec_get_def deref_def vec_size_def)
qed

text \<open>Iterators found before writes that keep the keys stay the ones a new search would find.\<close>

lemma write_through_find:
  assumes "table_wf key v" "vec_get key v k = Some x" "find_if (\<lambda>c. key c = k) v = it"
  shows "write_at v it f = Some (v\<lparr>elems := map (\<lambda>r. if key r = k then f r else r) (elems v)\<rparr>)"
  using write_at_map [OF assms(1,2)] by (simp add: vec_upd_def assms(3))

lemma write_three:
  fixes key :: "'a \<Rightarrow> 'k" and f g h :: "'a \<Rightarrow> 'a"
  defines "f' \<equiv> \<lambda>a r. if key r = a then f r else r"
    and "g' \<equiv> \<lambda>b r. if key r = b then g r else r"
    and "h' \<equiv> \<lambda>a r. if key r = a then h r else r"
  assumes wf: "table_wf key v" and a: "vec_get key v a = Some x" and b: "vec_get key v b = Some y"
    and keys: "\<And>r. key (f r) = key r" "\<And>r. key (g r) = key r" "\<And>r. key (h r) = key r"
  shows "Option.bind (write_at v (find_if (\<lambda>c. key c = a) v) f) (\<lambda>v1.
      Option.bind (write_at v1 (find_if (\<lambda>c. key c = b) v) g) (\<lambda>v2.
      write_at v2 (find_if (\<lambda>c. key c = a) v) h)) =
    Some (v\<lparr>elems := map (\<lambda>r. h' a (g' b (f' a r))) (elems v)\<rparr>)"
proof -
  let ?v1 = "v\<lparr>elems := map (f' a) (elems v)\<rparr>" and ?v2 = "v\<lparr>elems := map (g' b \<circ> f' a) (elems v)\<rparr>"
  have k1: "key (f' a r) = key r" and k2: "key ((g' b \<circ> f' a) r) = key r" for r
    by (simp_all add: f'_def g'_def keys)
  have w1: "table_wf key ?v1" and w2: "table_wf key ?v2"
    using wf k1 k2 by (auto intro: table_wf_update)
  have g1: "vec_get key ?v1 b = Some (f' a y)" and g2: "vec_get key ?v2 a = Some (g' b (f' a x))"
    using a b by (simp_all only: vec_get_map_rows [where key = key and g = "f' a", OF k1]
        vec_get_map_rows [where key = key and g = "g' b \<circ> f' a", OF k2] option.map comp_apply)
  have i1: "find_if (\<lambda>c. key c = j) ?v1 = find_if (\<lambda>c. key c = j) v"
    and i2: "find_if (\<lambda>c. key c = j) ?v2 = find_if (\<lambda>c. key c = j) v" for j
    using k1 k2 by (auto intro!: find_if_same_keys)
  have s1: "write_at v (find_if (\<lambda>c. key c = a) v) f = Some ?v1"
    using write_through_find [OF wf a refl] by (simp add: f'_def)
  have s2: "write_at ?v1 (find_if (\<lambda>c. key c = b) v) g = Some ?v2"
    using write_through_find [OF w1 g1 i1] by (simp add: g'_def comp_def)
  have s3: "write_at ?v2 (find_if (\<lambda>c. key c = a) v) h =
      Some (v\<lparr>elems := map (\<lambda>r. h' a (g' b (f' a r))) (elems v)\<rparr>)"
    using write_through_find [OF w2 g2 i2] by (simp add: h'_def comp_def)
  show ?thesis by (simp only: s1 s2 s3 Option.bind.bind_lunit)
qed

end
