(* ===== verification/ServerState.thy ===== *)
theory ServerState
  imports Wire KeyedTable
begin

text \<open>
  The state of the class \<open>Server\<close> (include/Server.h), the client record \<open>ClientDTO\<close>
  (include/ClientDTO.h), the log record and the enums of include/utils.h, and what an operation
  does to the world outside the object: packets handed to the socket, the lock operations, the
  notification of the console and the threads it starts. An operation returns the new state and
  the list of its effects in program order; \<open>None\<close> is undefined behaviour (a dereferenced
  invalid iterator). The lock fields of the class are modelled in \<open>RWLock\<close>.
\<close>

datatype log_type = LOG_NONE | LOG_SUCCESS | LOG_DUPLICATE

datatype server_role = PRIMARY | BACKUP

record log_info =
  li_type :: log_type
  li_transaction_id :: int
  li_value :: int
  li_source_ip :: string
  li_dest_ip :: string

datatype transaction_status =
    SUCCESS
  | ERROR_CLIENT_NOT_FOUND
  | ERROR_DUPLICATE_REQUEST
  | ERROR_INSUFFICIENT_FUNDS
  | ERROR_OUT_OF_SEQUENCE

text \<open>\<open>static_cast<uint32_t>(status)\<close> and back\<close>

primrec status_code :: "transaction_status \<Rightarrow> u32" where
  "status_code SUCCESS = 0"
| "status_code ERROR_CLIENT_NOT_FOUND = 1"
| "status_code ERROR_DUPLICATE_REQUEST = 2"
| "status_code ERROR_INSUFFICIENT_FUNDS = 3"
| "status_code ERROR_OUT_OF_SEQUENCE = 4"

instantiation transaction_status :: enum
begin

definition enum_transaction_status :: "transaction_status list" where
  "enum_transaction_status =
     [SUCCESS, ERROR_CLIENT_NOT_FOUND, ERROR_DUPLICATE_REQUEST, ERROR_INSUFFICIENT_FUNDS,
      ERROR_OUT_OF_SEQUENCE]"

definition enum_all_transaction_status :: "(transaction_status \<Rightarrow> bool) \<Rightarrow> bool" where
  "enum_all_transaction_status P \<longleftrightarrow> list_all P enum_class.enum"

definition enum_ex_transaction_status :: "(transaction_status \<Rightarrow> bool) \<Rightarrow> bool" where
  "enum_ex_transaction_status P \<longleftrightarrow> list_ex P enum_class.enum"

instance
proof
  have u: "t \<in> set (enum_class.enum :: transaction_status list)" for t
    by (cases t) (simp_all add: enum_transaction_status_def)
  then show all: "(UNIV :: transaction_status set) = set enum_class.enum" by auto
  show "distinct (enum_class.enum :: transaction_status list)" by (simp add: enum_transaction_status_def)
  show "enum_class.enum_all P \<longleftrightarrow> Ball UNIV P" for P :: "transaction_status \<Rightarrow> bool"
    by (simp add: enum_all_transaction_status_def list_all_iff all)
  show "enum_class.enum_ex P \<longleftrightarrow> Bex UNIV P" for P :: "transaction_status \<Rightarrow> bool"
    by (simp add: enum_ex_transaction_status_def list_ex_iff all)
qed

end

definition status_of_code :: "u32 \<Rightarrow> transaction_status option" where
  "status_of_code w = find (\<lambda>s. status_code s = w) enum_class.enum"

lemma status_of_code_code [simp, codec_simps]: "status_of_code (status_code s) = Some s"
  by (cases s) (simp_all add: status_of_code_def enum_transaction_status_def)

section \<open>ClientDTO\<close>

record client_dto =
  cl_address :: string
  cl_last_req :: int
  cl_balance :: float32

definition INITIAL_BALANCE :: float32 where
  "INITIAL_BALANCE = f32_of_int 1000"

definition new_client :: "string \<Rightarrow> client_dto" where
  "new_client addr = \<lparr>cl_address = addr, cl_last_req = 0, cl_balance = INITIAL_BALANCE\<rparr>"

lemma INITIAL_BALANCE_whole: "INITIAL_BALANCE = whole 1000"
  by (simp add: INITIAL_BALANCE_def)

lemma canonical_INITIAL_BALANCE [simp]: "canonical INITIAL_BALANCE"
  by (simp add: INITIAL_BALANCE_def)

section \<open>Server\<close>

record server =
  num_transactions :: int
  total_transferred :: int
  total_balance :: int
  socket_port :: int
  clients :: "client_dto vec"
  transaction_history :: "transaction list"
  current_role :: server_role
  backup_servers :: "sockaddr list"
  primary_server_addr :: sockaddr
  primary_alive :: bool
  server_id :: u32
  election_in_progress :: bool
  election_lost :: bool
  last_log_info :: log_info

definition empty_log_info :: log_info where
  "empty_log_info =
     \<lparr>li_type = LOG_NONE, li_transaction_id = 0, li_value = 0, li_source_ip = [], li_dest_ip = []\<rparr>"

text \<open>
  The constructor. It leaves \<open>current_role\<close>, \<open>primary_alive\<close> and \<open>primary_server_addr\<close>
  indeterminate: they are the arguments \<open>role0\<close>, \<open>alive0\<close> and \<open>addr0\<close>.
\<close>

definition server_new :: "int \<Rightarrow> u32 \<Rightarrow> server_role \<Rightarrow> bool \<Rightarrow> sockaddr \<Rightarrow> server" where
  "server_new port ip role0 alive0 addr0 =
     \<lparr>num_transactions = 0, total_transferred = 0, total_balance = 0, socket_port = port,
      clients = vec_empty, transaction_history = [], current_role = role0, backup_servers = [],
      primary_server_addr = addr0, primary_alive = alive0, server_id = ip,
      election_in_progress = False, election_lost = False, last_log_info = empty_log_info\<rparr>"

text \<open>The getters.\<close>

definition getNumTransactions :: "server \<Rightarrow> int" where [simp]:
  "getNumTransactions s = num_transactions s"

definition getTotalTransferred :: "server \<Rightarrow> int" where [simp]:
  "getTotalTransferred s = total_transferred s"

definition getTotalBalance :: "server \<Rightarrow> int" where [simp]:
  "getTotalBalance s = total_balance s"

definition getLastLogInfo :: "server \<Rightarrow> log_info" where [simp]:
  "getLastLogInfo s = last_log_info s"

definition getRole :: "server \<Rightarrow> server_role" where [simp]:
  "getRole s = current_role s"

definition empty_transaction :: transaction where
  "empty_transaction =
     \<lparr>tx_id = 0, tx_source_ip = replicate 16 NUL, tx_dest_ip = replicate 16 NUL, tx_value = 0,
      tx_client_seqn = 0\<rparr>"

definition getLastTransaction :: "server \<Rightarrow> transaction" where
  "getLastTransaction s =
     (if transaction_history s = [] then empty_transaction else last (transaction_history s))"

section \<open>Effects\<close>

datatype effect =
    Send packet sockaddr
  | WriterLock | WriterUnlock | ReaderLock | ReaderUnlock
  | Notify
  | SpawnHeartbeatSender | SpawnHeartbeatMonitor | SpawnElection
  | SpawnRequest packet sockaddr

definition send_all :: "packet \<Rightarrow> sockaddr list \<Rightarrow> effect list" where
  "send_all p addrs = map (Send p) addrs"

text \<open>
  The lock discipline of a trace, read with the lock held or not: \<open>data_mutex\<close>-protected
  sections are entered only when free and left before the operation ends, and the console is
  notified outside of them (the console thread takes its own mutex first and the reader lock
  second, so a notification under the lock could deadlock).
\<close>

datatype held = Free | Writing | Reading

fun discipline :: "held \<Rightarrow> effect list \<Rightarrow> bool" where
  "discipline h [] \<longleftrightarrow> h = Free"
| "discipline h (WriterLock # es) \<longleftrightarrow> h = Free \<and> discipline Writing es"
| "discipline h (WriterUnlock # es) \<longleftrightarrow> h = Writing \<and> discipline Free es"
| "discipline h (ReaderLock # es) \<longleftrightarrow> h = Free \<and> discipline Reading es"
| "discipline h (ReaderUnlock # es) \<longleftrightarrow> h = Reading \<and> discipline Free es"
| "discipline h (Notify # es) \<longleftrightarrow> h = Free \<and> discipline h es"
| "discipline h (_ # es) \<longleftrightarrow> discipline h es"

lemma discipline_append_Free:
  "discipline h xs \<Longrightarrow> discipline Free ys \<Longrightarrow> discipline h (xs @ ys)"
  by (induction h xs rule: discipline.induct) auto

lemma discipline_sends [simp]: "discipline h (send_all p addrs @ es) \<longleftrightarrow> discipline h es"
  by (induction addrs) (simp_all add: send_all_def)

lemma discipline_send_list:
  "(\<And>e. e \<in> set xs \<Longrightarrow> \<exists>p a. e = Send p a) \<Longrightarrow> discipline h (xs @ es) \<longleftrightarrow> discipline h es"
proof (induction xs)
  case (Cons e xs)
  then obtain p a where "e = Send p a" by force
  with Cons show ?case by simp
qed simp

section \<open>The client table\<close>

definition findClient :: "server \<Rightarrow> string \<Rightarrow> iter" where
  "findClient s ip = find_if (\<lambda>c. cl_address c = ip) (clients s)"

text \<open>The client with an address, if any: the abstract view of the vector.\<close>

definition account :: "server \<Rightarrow> string \<Rightarrow> client_dto option" where
  "account s ip = vec_get cl_address (clients s) ip"

lemma deref_findClient [simp]: "deref (clients s) (findClient s ip) = account s ip"
  by (simp add: account_def vec_get_def findClient_def)

lemma findClient_end [simp]: "findClient s ip = vec_end (clients s) \<longleftrightarrow> account s ip = None"
  by (simp add: account_def findClient_def)

text \<open>
  The invariant of the data: distinct client addresses, values that fit their C++ types, and
  the counters in step with the history they summarise.
\<close>

definition valid_client :: "client_dto \<Rightarrow> bool" where
  "valid_client c \<longleftrightarrow> in_i32 (cl_last_req c) \<and> canonical (cl_balance c)"

definition server_wf :: "server \<Rightarrow> bool" where
  "server_wf s \<longleftrightarrow>
     table_wf cl_address (clients s) \<and>
     (\<forall>c\<in>set (elems (clients s)). valid_client c) \<and>
     (\<forall>t\<in>set (transaction_history s). valid_transaction t) \<and>
     in_i32 (total_balance s) \<and>
     num_transactions s = wrap32 (int (length (transaction_history s))) \<and>
     total_transferred s = wrap32 (sum_list (map tx_value (transaction_history s)))"

lemma server_wf_table: "server_wf s \<Longrightarrow> table_wf cl_address (clients s)"
  by (simp add: server_wf_def)

lemma account_iff:
  "server_wf s \<Longrightarrow> account s ip = Some c \<longleftrightarrow> c \<in> set (elems (clients s)) \<and> cl_address c = ip"
  unfolding account_def by (rule vec_table.get_iff [OF server_wf_table])

lemma account_valid: "server_wf s \<Longrightarrow> account s ip = Some c \<Longrightarrow> valid_client c"
  using account_iff by (auto simp: server_wf_def)

lemma account_address: "account s ip = Some c \<Longrightarrow> cl_address c = ip"
  unfolding account_def by (rule vec_get_SomeD)

text \<open>The constructor establishes it.\<close>

lemma server_wf_new [simp]: "server_wf (server_new port ip role0 alive0 addr0)"
  by (simp add: server_wf_def server_new_def table_wf_def vec_empty_def vec_wf_def vec_size_def
      in_i32_def)

end
