(* ===== verification/Bank.thy ===== *)
theory Bank
  imports ServerState
begin

text \<open>
  The primary's work: \<open>addClient\<close> and \<open>processTransaction\<close> of server/Server.cpp with everything
  they call, one definition per C++ function, and \<open>handleTransactionRequest\<close> of
  transactions/transactionServer.cpp around them. Iterators are the model's iterators, so each
  dereference is a step that could be undefined; \<open>processTransaction_eq\<close> shows it never is.
\<close>

section \<open>Propagation to the backups\<close>

definition client_update_packet :: "client_dto \<Rightarrow> packet" where
  "client_update_packet c =
     mk_packet ADD_CLIENT_UPDATE (enc_client_update
       \<lparr>cu_ip = ip_array (cl_address c), cu_balance = cl_balance c,
        cu_last_request = cl_last_req c\<rparr>)"

definition propagateClientAddition :: "server \<Rightarrow> client_dto \<Rightarrow> effect list" where
  "propagateClientAddition s c = send_all (client_update_packet c) (backup_servers s)"

definition state_update_packet :: "transaction \<Rightarrow> client_dto \<Rightarrow> client_dto \<Rightarrow> packet" where
  "state_update_packet tx source dest =
     mk_packet STATE_UPDATE (enc_state_update
       \<lparr>su_transaction = tx,
        su_source_ip = ip_array (cl_address source), su_source_balance = cl_balance source,
        su_dest_ip = ip_array (cl_address dest), su_dest_balance = cl_balance dest\<rparr>)"

definition propagateTransaction ::
    "server \<Rightarrow> transaction \<Rightarrow> client_dto \<Rightarrow> client_dto \<Rightarrow> effect list" where
  "propagateTransaction s tx source dest =
     send_all (state_update_packet tx source dest) (backup_servers s)"

section \<open>Registering a client\<close>

text \<open>\<open>this->total_balance += balance\<close>: \<open>int += float\<close> computes in \<open>float\<close> and truncates.\<close>

definition add_balance :: "int \<Rightarrow> float32 \<Rightarrow> int" where
  "add_balance tot b = f32_to_int (f32_add (f32_of_int tot) b)"

definition wasClientAdded :: "server \<Rightarrow> string \<Rightarrow> server \<times> effect list \<times> bool" where
  "wasClientAdded s ip =
     (if findClient s ip = vec_end (clients s) then
        (let c = new_client ip;
             s1 = s\<lparr>clients := push_back (clients s) c,
                    total_balance := add_balance (total_balance s) (cl_balance c)\<rparr>
         in (s1, if current_role s1 = PRIMARY then propagateClientAddition s1 c else [], True))
      else (s, [], False))"

definition addClient :: "server \<Rightarrow> string \<Rightarrow> server \<times> effect list" where
  "addClient s ip =
     (case wasClientAdded s ip of (s1, sends, added) \<Rightarrow>
        (s1, [WriterLock] @ sends @ [WriterUnlock] @ (if added then [Notify] else [])))"

section \<open>A transaction\<close>

definition validateTransaction ::
    "server \<Rightarrow> iter \<Rightarrow> iter \<Rightarrow> int \<Rightarrow> int \<Rightarrow> transaction_status option" where
  "validateTransaction s source_it dest_it val seqn =
     (if source_it = vec_end (clients s) \<or> dest_it = vec_end (clients s)
      then Some ERROR_CLIENT_NOT_FOUND
      else do {
        c \<leftarrow> deref (clients s) source_it;
        Some (if seqn \<le> cl_last_req c then ERROR_DUPLICATE_REQUEST
              else if seqn > wrap32 (cl_last_req c + 1) then ERROR_OUT_OF_SEQUENCE
              else if f32_less (cl_balance c) (f32_of_int val) then ERROR_INSUFFICIENT_FUNDS
              else SUCCESS)
      })"

definition executeTransaction :: "server \<Rightarrow> iter \<Rightarrow> iter \<Rightarrow> int \<Rightarrow> int \<Rightarrow> server option" where
  "executeTransaction s source_it dest_it val seqn = do {
     v1 \<leftarrow> write_at (clients s) source_it
            (\<lambda>c. c\<lparr>cl_balance := f32_sub (cl_balance c) (f32_of_int val)\<rparr>);
     v2 \<leftarrow> write_at v1 dest_it
            (\<lambda>c. c\<lparr>cl_balance := f32_add (cl_balance c) (f32_of_int val)\<rparr>);
     v3 \<leftarrow> write_at v2 source_it (\<lambda>c. c\<lparr>cl_last_req := seqn\<rparr>);
     Some (s\<lparr>clients := v3\<rparr>)
   }"

definition new_transaction :: "server \<Rightarrow> string \<Rightarrow> string \<Rightarrow> int \<Rightarrow> int \<Rightarrow> transaction" where
  "new_transaction s source_ip dest_ip val seqn =
     \<lparr>tx_id = num_transactions s, tx_source_ip = ip_array source_ip, tx_dest_ip = ip_array dest_ip,
      tx_value = val, tx_client_seqn = seqn\<rparr>"

definition updateAndLogTransaction ::
    "server \<Rightarrow> string \<Rightarrow> string \<Rightarrow> int \<Rightarrow> int \<Rightarrow> server" where
  "updateAndLogTransaction s source_ip dest_ip val seqn =
     (let s1 = s\<lparr>num_transactions := wrap32 (num_transactions s + 1),
                 total_transferred := wrap32 (total_transferred s + val)\<rparr>
      in s1\<lparr>transaction_history :=
              transaction_history s1 @ [new_transaction s1 source_ip dest_ip val seqn]\<rparr>)"

definition setupDuplicateRequestLog ::
    "server \<Rightarrow> string \<Rightarrow> string \<Rightarrow> int \<Rightarrow> int \<Rightarrow> server" where
  "setupDuplicateRequestLog s source_ip dest_ip val seqn =
     s\<lparr>last_log_info :=
         \<lparr>li_type = LOG_DUPLICATE, li_transaction_id = seqn, li_value = val,
          li_source_ip = source_ip, li_dest_ip = dest_ip\<rparr>\<rparr>"

definition handleTransactionLogic ::
    "server \<Rightarrow> string \<Rightarrow> string \<Rightarrow> int \<Rightarrow> int \<Rightarrow> (server \<times> transaction_status \<times> float32) option" where
  "handleTransactionLogic s source_ip dest_ip val seqn = (
     let source_it = findClient s source_ip; dest_it = findClient s dest_ip in do {
       status \<leftarrow> validateTransaction s source_it dest_it val seqn;
       if status = SUCCESS then do {
         s1 \<leftarrow> executeTransaction s source_it dest_it val seqn;
         let s2 = updateAndLogTransaction s1 source_ip dest_ip val seqn;
         let s3 = s2\<lparr>last_log_info := (last_log_info s2)\<lparr>li_type := LOG_SUCCESS\<rparr>\<rparr>;
         c \<leftarrow> deref (clients s3) source_it;
         Some (s3, SUCCESS, cl_balance c)
       }
       else if status = ERROR_DUPLICATE_REQUEST \<or> status = ERROR_OUT_OF_SEQUENCE then do {
         let s1 = setupDuplicateRequestLog s source_ip dest_ip val seqn;
         c \<leftarrow> deref (clients s1) source_it;
         Some (s1, status, cl_balance c)
       }
       else if source_it = vec_end (clients s) then Some (s, status, f32_of_int (-1))
       else do {
         c \<leftarrow> deref (clients s) source_it;
         Some (s, status, cl_balance c)
       }
     })"

record reply =
  rp_status :: transaction_status
  rp_balance :: float32
  rp_last_req :: int

definition should_notify :: "transaction_status \<Rightarrow> bool" where
  "should_notify status \<longleftrightarrow>
     status = SUCCESS \<or> status = ERROR_DUPLICATE_REQUEST \<or> status = ERROR_OUT_OF_SEQUENCE"

definition propagate_last ::
    "server \<Rightarrow> string \<Rightarrow> string \<Rightarrow> transaction_status \<Rightarrow> effect list option" where
  "propagate_last s source_ip dest_ip status =
     (if status = SUCCESS \<and> current_role s = PRIMARY then do {
        tx \<leftarrow> (if transaction_history s = [] then None else Some (last (transaction_history s)));
        source \<leftarrow> deref (clients s) (findClient s source_ip);
        dest \<leftarrow> deref (clients s) (findClient s dest_ip);
        Some (propagateTransaction s tx source dest)
      }
      else Some [])"

definition processTransaction ::
    "server \<Rightarrow> string \<Rightarrow> u32 \<Rightarrow> int \<Rightarrow> int \<Rightarrow> (server \<times> effect list \<times> reply) option" where
  "processTransaction s source_ip dest_addr val seqn = (
     let dest_ip = inet_ntop dest_addr in do {
       (s1, status, balance) \<leftarrow> handleTransactionLogic s source_ip dest_ip val seqn;
       sends \<leftarrow> propagate_last s1 source_ip dest_ip status;
       last_req \<leftarrow>
         (let source_it = findClient s1 source_ip in
          if source_it = vec_end (clients s1) then Some 0
          else do { c \<leftarrow> deref (clients s1) source_it; Some (cl_last_req c) });
       Some (s1,
             [WriterLock] @ sends @ [WriterUnlock] @ (if should_notify status then [Notify] else []),
             \<lparr>rp_status = status, rp_balance = balance, rp_last_req = last_req\<rparr>)
     })"

text \<open>
  \<open>handleTransactionRequest\<close> starts a detached thread with a copy of the packet and of the
  address; \<open>request_thread\<close> is that thread's body.
\<close>

definition handleTransactionRequest :: "packet \<Rightarrow> sockaddr \<Rightarrow> effect list" where
  "handleTransactionRequest request client_addr = [SpawnRequest request client_addr]"

definition ack_packet :: "int \<Rightarrow> reply \<Rightarrow> packet" where
  "ack_packet seqn r =
     mk_packet TRANSACTION_ACK (enc_ack
       \<lparr>ak_seqn = htonl (u32_of_int seqn), ak_new_balance = rp_balance r,
        ak_status = htonl (status_code (rp_status r)),
        ak_last_req = htonl (u32_of_int (rp_last_req r))\<rparr>)"

definition request_thread ::
    "server \<Rightarrow> packet \<Rightarrow> sockaddr \<Rightarrow> (server \<times> effect list) option" where
  "request_thread s request client_addr = (
     let source_ip = inet_ntop (sin_addr client_addr);
         val = int_of_u32 (ntohl (rq_value (data_req request)));
         seqn = int_of_u32 (ntohl (rq_seqn (data_req request)))
     in do {
       (s1, effs, r) \<leftarrow> processTransaction s source_ip (rq_dest_addr (data_req request)) val seqn;
       Some (s1, effs @ [Send (ack_packet seqn r) client_addr])
     })"

end
