(* ===== verification/BankSpec.thy ===== *)
theory BankSpec
  imports Bank
begin

text \<open>
  What the bank promises, and that \<open>processTransaction\<close> keeps it: the verdict on a request as a
  function of the two accounts, the state after it, and the reply. The concrete code (searches,
  iterators, three writes through them) is shown equal to this description on every branch.
\<close>

section \<open>The verdict and the state after it\<close>

definition verdict :: "server \<Rightarrow> string \<Rightarrow> string \<Rightarrow> int \<Rightarrow> int \<Rightarrow> transaction_status" where
  "verdict s source_ip dest_ip val seqn =
     (case (account s source_ip, account s dest_ip) of
        (Some c, Some d) \<Rightarrow>
          if seqn \<le> cl_last_req c then ERROR_DUPLICATE_REQUEST
          else if seqn \<noteq> cl_last_req c + 1 then ERROR_OUT_OF_SEQUENCE
          else if f32_less (cl_balance c) (f32_of_int val) then ERROR_INSUFFICIENT_FUNDS
          else SUCCESS
      | _ \<Rightarrow> ERROR_CLIENT_NOT_FOUND)"

definition settle_row :: "string \<Rightarrow> string \<Rightarrow> int \<Rightarrow> int \<Rightarrow> client_dto \<Rightarrow> client_dto" where
  "settle_row source_ip dest_ip val seqn c =
     (let c1 = (if cl_address c = source_ip
                then c\<lparr>cl_balance := f32_sub (cl_balance c) (f32_of_int val)\<rparr> else c);
          c2 = (if cl_address c = dest_ip
                then c1\<lparr>cl_balance := f32_add (cl_balance c1) (f32_of_int val)\<rparr> else c1)
      in if cl_address c = source_ip then c2\<lparr>cl_last_req := seqn\<rparr> else c2)"

definition settled :: "server \<Rightarrow> string \<Rightarrow> string \<Rightarrow> int \<Rightarrow> int \<Rightarrow> server" where
  "settled s source_ip dest_ip val seqn =
     s\<lparr>clients := (clients s)\<lparr>elems := map (settle_row source_ip dest_ip val seqn) (elems (clients s))\<rparr>\<rparr>"

definition committed :: "server \<Rightarrow> string \<Rightarrow> string \<Rightarrow> int \<Rightarrow> int \<Rightarrow> server" where
  "committed s source_ip dest_ip val seqn =
     (let s2 = updateAndLogTransaction (settled s source_ip dest_ip val seqn) source_ip dest_ip val seqn
      in s2\<lparr>last_log_info := (last_log_info s2)\<lparr>li_type := LOG_SUCCESS\<rparr>\<rparr>)"

definition outcome :: "server \<Rightarrow> string \<Rightarrow> string \<Rightarrow> int \<Rightarrow> int \<Rightarrow> server" where
  "outcome s source_ip dest_ip val seqn =
     (case verdict s source_ip dest_ip val seqn of
        SUCCESS \<Rightarrow> committed s source_ip dest_ip val seqn
      | ERROR_DUPLICATE_REQUEST \<Rightarrow> setupDuplicateRequestLog s source_ip dest_ip val seqn
      | ERROR_OUT_OF_SEQUENCE \<Rightarrow> setupDuplicateRequestLog s source_ip dest_ip val seqn
      | _ \<Rightarrow> s)"

definition balance_of :: "server \<Rightarrow> string \<Rightarrow> float32" where
  "balance_of s ip = (case account s ip of Some c \<Rightarrow> cl_balance c | None \<Rightarrow> whole (-1))"

definition last_req_of :: "server \<Rightarrow> string \<Rightarrow> int" where
  "last_req_of s ip = (case account s ip of Some c \<Rightarrow> cl_last_req c | None \<Rightarrow> 0)"

lemma settle_row_address [simp]: "cl_address (settle_row a b v q c) = cl_address c"
  by (simp add: settle_row_def Let_def)

lemma account_settled [simp]:
  "account (settled s a b v q) ip = map_option (settle_row a b v q) (account s ip)"
  by (simp add: account_def settled_def vec_get_map_rows)

text \<open>An operation that leaves the vector alone leaves the accounts alone.\<close>

lemma account_same_clients: "clients s' = clients s \<Longrightarrow> account s' = account s"
  by (simp add: account_def fun_eq_iff)

lemma clients_updateAndLog [simp]: "clients (updateAndLogTransaction s a b v q) = clients s"
  by (simp add: updateAndLogTransaction_def Let_def)

lemma clients_setupDuplicate [simp]: "clients (setupDuplicateRequestLog s a b v q) = clients s"
  by (simp add: setupDuplicateRequestLog_def)

lemma clients_committed [simp]: "clients (committed s a b v q) = clients (settled s a b v q)"
  by (simp add: committed_def Let_def)

lemma account_committed [simp]:
  "account (committed s a b v q) ip = map_option (settle_row a b v q) (account s ip)"
  using account_same_clients [OF clients_committed] by simp

lemma account_setupDuplicate [simp]: "account (setupDuplicateRequestLog s a b v q) = account s"
  by (rule account_same_clients) simp

lemma findClient_same:
  assumes "map cl_address (elems (clients s')) = map cl_address (elems (clients s))"
    "epoch (clients s') = epoch (clients s)"
  shows "findClient s' ip = findClient s ip"
  unfolding findClient_def using assms by (rule find_if_same_keys)

lemma findClient_settled [simp]: "findClient (settled s a b v q) ip = findClient s ip"
  by (rule findClient_same) (simp_all add: settled_def)

lemma findClient_committed [simp]: "findClient (committed s a b v q) ip = findClient s ip"
  by (rule findClient_same) (simp_all add: settled_def)

lemma deref_settled [simp]:
  "deref (clients (settled s a b v q)) (findClient s ip) =
     map_option (settle_row a b v q) (account s ip)"
  using deref_findClient [of "settled s a b v q" ip] by simp

lemma findClient_setupDuplicate [simp]:
  "findClient (setupDuplicateRequestLog s a b v q) ip = findClient s ip"
  by (rule findClient_same) simp_all

section \<open>The code computes it\<close>

lemma validateTransaction_verdict:
  assumes "server_wf s" "in_i32 seqn"
  shows "validateTransaction s (findClient s a) (findClient s b) v seqn = Some (verdict s a b v seqn)"
proof (cases "account s a")
  case (Some c)
  then have "in_i32 (cl_last_req c)" using account_valid [OF assms(1)] by (simp add: valid_client_def)
  moreover have "seqn > wrap32 (cl_last_req c + 1) \<longleftrightarrow> seqn \<noteq> cl_last_req c + 1"
    if "\<not> seqn \<le> cl_last_req c"
  proof -
    have "in_i32 (cl_last_req c + 1)"
      using that assms(2) \<open>in_i32 (cl_last_req c)\<close> by (simp add: in_i32_def)
    with that show ?thesis by auto
  qed
  ultimately show ?thesis using Some
    by (cases "account s b") (auto simp: validateTransaction_def verdict_def)
qed (simp add: validateTransaction_def verdict_def)

lemma executeTransaction_settled:
  assumes wf: "server_wf s" and a: "account s a = Some c" and b: "account s b = Some d"
  shows "executeTransaction s (findClient s a) (findClient s b) v q = Some (settled s a b v q)"
proof -
  let ?f = "\<lambda>c. c\<lparr>cl_balance := f32_sub (cl_balance c) (f32_of_int v)\<rparr>"
  let ?g = "\<lambda>c. c\<lparr>cl_balance := f32_add (cl_balance c) (f32_of_int v)\<rparr>"
  let ?h = "\<lambda>c. c\<lparr>cl_last_req := q\<rparr>"
  have w: "Option.bind (write_at (clients s) (findClient s a) ?f) (\<lambda>v1.
      Option.bind (write_at v1 (findClient s b) ?g) (\<lambda>v2. write_at v2 (findClient s a) ?h)) =
    Some ((clients s)\<lparr>elems := map (settle_row a b v q) (elems (clients s))\<rparr>)"
    using write_three [OF server_wf_table [OF wf] a [unfolded account_def] b [unfolded account_def],
        of ?f ?g ?h]
    by (simp add: findClient_def settle_row_def Let_def)
  have "executeTransaction s (findClient s a) (findClient s b) v q =
      Option.bind (Option.bind (write_at (clients s) (findClient s a) ?f) (\<lambda>v1.
      Option.bind (write_at v1 (findClient s b) ?g) (\<lambda>v2. write_at v2 (findClient s a) ?h)))
      (\<lambda>v3. Some (s\<lparr>clients := v3\<rparr>))"
    by (simp add: executeTransaction_def bind_assoc)
  then show ?thesis unfolding w by (simp add: settled_def)
qed

lemma handleTransactionLogic_outcome:
  assumes wf: "server_wf s" and q: "in_i32 q"
  shows "handleTransactionLogic s a b v q =
    Some (outcome s a b v q, verdict s a b v q, balance_of (outcome s a b v q) a)"
proof -
  have fc: "deref (clients s') (findClient s a) = account s' a"
    if "findClient s' a = findClient s a" for s'
    using that deref_findClient [of s' a] by simp
  show ?thesis
  proof (cases "account s a")
    case None
    then have "verdict s a b v q = ERROR_CLIENT_NOT_FOUND" by (simp add: verdict_def)
    then show ?thesis using None
      by (simp add: handleTransactionLogic_def validateTransaction_verdict [OF wf q] outcome_def
          balance_of_def)
  next
    case a: (Some c)
    show ?thesis
    proof (cases "account s b")
      case None
      then have "verdict s a b v q = ERROR_CLIENT_NOT_FOUND" by (simp add: verdict_def a)
      then show ?thesis using a
        by (simp add: handleTransactionLogic_def validateTransaction_verdict [OF wf q] outcome_def
            balance_of_def)
    next
      case b: (Some d)
      have c: "deref (clients (committed s a b v q)) (findClient s a) = Some (settle_row a b v q c)"
        using fc [of "committed s a b v q"] a by simp
      have acc: "account (committed s a b v q) a = Some (settle_row a b v q c)"
        using a by simp
      note exec = executeTransaction_settled [OF wf a b]
      show ?thesis using a c acc [unfolded committed_def Let_def]
        by (cases "verdict s a b v q")
          (simp_all add: handleTransactionLogic_def validateTransaction_verdict [OF wf q] exec
            outcome_def balance_of_def committed_def Let_def)
    qed
  qed
qed

definition propagated :: "server \<Rightarrow> string \<Rightarrow> string \<Rightarrow> transaction_status \<Rightarrow> effect list" where
  "propagated s a b status =
     (if status = SUCCESS \<and> current_role s = PRIMARY then
        (case (account s a, account s b) of
           (Some c, Some d) \<Rightarrow> propagateTransaction s (last (transaction_history s)) c d
         | _ \<Rightarrow> [])
      else [])"

lemma propagated_send_all:
  "propagated s a b st = [] \<or>
     (\<exists>c d. propagated s a b st =
        send_all (state_update_packet (last (transaction_history s)) c d) (backup_servers s))"
  by (cases "account s a"; cases "account s b") (auto simp: propagated_def propagateTransaction_def)

lemma discipline_propagated: "discipline h (propagated s a b st @ es) \<longleftrightarrow> discipline h es"
  using propagated_send_all [of s a b st] by auto

lemma verdict_SUCCESS_iff:
  "verdict s a b v q = SUCCESS \<longleftrightarrow>
     (\<exists>c d. account s a = Some c \<and> account s b = Some d \<and> q = cl_last_req c + 1 \<and>
            \<not> f32_less (cl_balance c) (f32_of_int v))"
  by (auto simp: verdict_def split: option.splits if_splits)

lemma verdict_SUCCESSE:
  assumes "verdict s a b v q = SUCCESS"
  obtains c d where "account s a = Some c" "account s b = Some d" "q = cl_last_req c + 1"
    "\<not> f32_less (cl_balance c) (f32_of_int v)"
  using assms unfolding verdict_SUCCESS_iff by blast

lemma outcome_cases:
  obtains (committed) "verdict s a b v q = SUCCESS" "outcome s a b v q = committed s a b v q"
  | (logged) "verdict s a b v q \<in> {ERROR_DUPLICATE_REQUEST, ERROR_OUT_OF_SEQUENCE}"
      "outcome s a b v q = setupDuplicateRequestLog s a b v q"
  | (unchanged) "verdict s a b v q \<in> {ERROR_CLIENT_NOT_FOUND, ERROR_INSUFFICIENT_FUNDS}"
      "outcome s a b v q = s"
  by (cases "verdict s a b v q") (simp_all add: outcome_def)

lemma outcome_frame:
  "current_role (outcome s a b v q) = current_role s"
  "election_in_progress (outcome s a b v q) = election_in_progress s"
  "server_id (outcome s a b v q) = server_id s"
  "backup_servers (outcome s a b v q) = backup_servers s"
  by (simp_all add: outcome_def committed_def updateAndLogTransaction_def settled_def
      setupDuplicateRequestLog_def Let_def split: transaction_status.split)

lemma history_committed [simp]:
  "transaction_history (committed s a b v q) =
     transaction_history s @
       [\<lparr>tx_id = wrap32 (num_transactions s + 1), tx_source_ip = ip_array a,
         tx_dest_ip = ip_array b, tx_value = v, tx_client_seqn = q\<rparr>]"
  by (simp add: committed_def updateAndLogTransaction_def new_transaction_def settled_def Let_def)

lemma account_outcome:
  "account (outcome s a b v q) ip =
     (if verdict s a b v q = SUCCESS then map_option (settle_row a b v q) (account s ip)
      else account s ip)"
  by (rule outcome_cases [of s a b v q]) auto

lemma propagate_last_outcome:
  "propagate_last (outcome s a b v q) a b (verdict s a b v q) =
     Some (propagated (outcome s a b v q) a b (verdict s a b v q))"
proof (cases "verdict s a b v q = SUCCESS")
  case True
  then obtain c d where "account s a = Some c" "account s b = Some d" by (rule verdict_SUCCESSE)
  with True show ?thesis
    by (simp add: propagate_last_def propagated_def outcome_def)
qed (simp add: propagate_last_def propagated_def)

text \<open>Every request gets a reply, and no iterator the code dereferences is invalid.\<close>

lemma processTransaction_eq:
  assumes "server_wf s" "in_i32 q"
  shows "processTransaction s a dest_addr v q =
    (let b = inet_ntop dest_addr; st = verdict s a b v q; s' = outcome s a b v q in
     Some (s', [WriterLock] @ propagated s' a b st @ [WriterUnlock] @
                 (if should_notify st then [Notify] else []),
           \<lparr>rp_status = st, rp_balance = balance_of s' a, rp_last_req = last_req_of s' a\<rparr>))"
  using assms
  by (cases "account (outcome s a (inet_ntop dest_addr) v q) a")
    (simp_all add: processTransaction_def handleTransactionLogic_outcome propagate_last_outcome
      last_req_of_def Let_def)

section \<open>The data invariant\<close>

lemma valid_client_settle_row [simp]:
  "in_i32 q \<Longrightarrow> valid_client c \<Longrightarrow> valid_client (settle_row a b v q c)"
  by (simp add: settle_row_def valid_client_def Let_def)

lemma server_wf_setupDuplicate [simp]:
  "server_wf (setupDuplicateRequestLog s a b v q) \<longleftrightarrow> server_wf s"
  by (simp add: server_wf_def setupDuplicateRequestLog_def)

lemma server_wf_committed:
  assumes wf: "server_wf s" and "in_i32 v" "in_i32 q"
  shows "server_wf (committed s a b v q)"
proof -
  have "table_wf cl_address (clients (settled s a b v q))"
    unfolding settled_def using server_wf_table [OF wf] by (auto intro: table_wf_update)
  moreover have "\<forall>c\<in>set (elems (clients (settled s a b v q))). valid_client c"
    using assms by (auto simp: settled_def server_wf_def)
  moreover have "\<forall>t\<in>set (transaction_history (committed s a b v q)). valid_transaction t"
    using assms by (auto simp: server_wf_def valid_transaction_def)
  moreover have "in_i32 (total_balance (committed s a b v q))"
    using wf by (simp add: committed_def updateAndLogTransaction_def settled_def server_wf_def Let_def)
  moreover have "num_transactions (committed s a b v q) =
      wrap32 (int (length (transaction_history (committed s a b v q))))"
    using wf by (simp add: committed_def updateAndLogTransaction_def settled_def server_wf_def
        Let_def add.commute)
  moreover have "total_transferred (committed s a b v q) =
      wrap32 (sum_list (map tx_value (transaction_history (committed s a b v q))))"
    using wf by (simp add: committed_def updateAndLogTransaction_def settled_def server_wf_def
        new_transaction_def Let_def)
  ultimately show ?thesis unfolding server_wf_def by simp
qed

lemma server_wf_outcome:
  assumes "server_wf s" "in_i32 v" "in_i32 q" shows "server_wf (outcome s a b v q)"
  using assms by (rule_tac outcome_cases [of s a b v q]) (simp_all add: server_wf_committed)

lemma wasClientAdded_cases:
  obtains (old) c where "account s ip = Some c" "wasClientAdded s ip = (s, [], False)"
  | (new) s1 sends where "account s ip = None" "wasClientAdded s ip = (s1, sends, True)"
      "s1 = s\<lparr>clients := push_back (clients s) (new_client ip),
             total_balance := add_balance (total_balance s) INITIAL_BALANCE\<rparr>"
      "sends = (if current_role s = PRIMARY then propagateClientAddition s1 (new_client ip) else [])"
proof (cases "account s ip")
  case None
  show ?thesis
    by (rule new [OF None]) (simp_all add: wasClientAdded_def None new_client_def Let_def)
next
  case (Some c)
  then show ?thesis by (intro old) (simp_all add: wasClientAdded_def)
qed

lemma server_wf_addClient:
  assumes wf: "server_wf s" shows "server_wf (fst (addClient s ip))"
proof (rule wasClientAdded_cases [of s ip])
  fix s1 sends
  assume n: "account s ip = None" and w: "wasClientAdded s ip = (s1, sends, True)"
    and s1: "s1 = s\<lparr>clients := push_back (clients s) (new_client ip),
             total_balance := add_balance (total_balance s) INITIAL_BALANCE\<rparr>"
  have "table_wf cl_address (push_back (clients s) (new_client ip))"
    using server_wf_table [OF wf] n
    by (intro vec_table.add_wf) (simp_all add: account_def new_client_def)
  moreover have "valid_client (new_client ip)"
    by (simp add: valid_client_def new_client_def in_i32_def)
  ultimately show ?thesis
    using wf by (auto simp: addClient_def w s1 server_wf_def add_balance_def)
qed (use wf in \<open>simp add: addClient_def\<close>)

end
