(* ===== verification/Ledger.thy ===== *)
theory Ledger
  imports BankSpec
begin

text \<open>
  The abstract specification of the bank: a ledger, that is the history of transactions, from
  which the balance and the sequence numbers of every client follow. The invariant \<open>ledger_inv\<close>
  says that the server's accounts are the ones its history gives; it holds in every state that
  registrations and requests of non-negative value can reach while at most 16777 clients
  register, the number whose initial balances still add up below \<open>2 ^ 24\<close>, so that no balance
  is ever rounded.
\<close>

section \<open>The ledger\<close>

definition sent_by :: "string \<Rightarrow> transaction list \<Rightarrow> transaction list" where
  "sent_by ip h = filter (\<lambda>t. c_string (tx_source_ip t) = ip) h"

definition received_by :: "string \<Rightarrow> transaction list \<Rightarrow> transaction list" where
  "received_by ip h = filter (\<lambda>t. c_string (tx_dest_ip t) = ip) h"

definition ledger_balance :: "transaction list \<Rightarrow> string \<Rightarrow> int" where
  "ledger_balance h ip =
     1000 + sum_list (map tx_value (received_by ip h)) - sum_list (map tx_value (sent_by ip h))"

lemma sent_by_append [simp]: "sent_by ip (h @ h') = sent_by ip h @ sent_by ip h'"
  by (simp add: sent_by_def)

lemma received_by_append [simp]: "received_by ip (h @ h') = received_by ip h @ received_by ip h'"
  by (simp add: received_by_def)

definition entry :: "int \<Rightarrow> u32 \<Rightarrow> u32 \<Rightarrow> int \<Rightarrow> int \<Rightarrow> transaction" where
  "entry n a b v q =
     \<lparr>tx_id = n, tx_source_ip = ip_array (inet_ntop a), tx_dest_ip = ip_array (inet_ntop b),
      tx_value = v, tx_client_seqn = q\<rparr>"

lemma sent_by_entry [simp]: "sent_by ip [entry n a b v q] = (if ip = inet_ntop a then [entry n a b v q] else [])"
  by (auto simp: sent_by_def entry_def)

lemma received_by_entry [simp]:
  "received_by ip [entry n a b v q] = (if ip = inet_ntop b then [entry n a b v q] else [])"
  by (auto simp: received_by_def entry_def)

lemma entry_fields [simp]:
  "tx_value (entry n a b v q) = v" "tx_client_seqn (entry n a b v q) = q"
  "tx_id (entry n a b v q) = n"
  "c_string (tx_source_ip (entry n a b v q)) = inet_ntop a"
  "c_string (tx_dest_ip (entry n a b v q)) = inet_ntop b"
  by (simp_all add: entry_def)

lemma ledger_balance_append_entry:
  "ledger_balance (h @ [entry n a b v q]) ip =
     ledger_balance h ip - (if ip = inet_ntop a then v else 0) + (if ip = inet_ntop b then v else 0)"
  by (simp add: ledger_balance_def)

section \<open>The invariant\<close>

definition CLIENT_LIMIT :: nat where "CLIENT_LIMIT = 16777"

definition row_inv :: "transaction list \<Rightarrow> client_dto \<Rightarrow> bool" where
  "row_inv h c \<longleftrightarrow>
     (\<exists>a. cl_address c = inet_ntop a) \<and>
     0 \<le> ledger_balance h (cl_address c) \<and>
     cl_balance c = whole (ledger_balance h (cl_address c)) \<and>
     0 \<le> cl_last_req c \<and>
     map tx_client_seqn (sent_by (cl_address c) h) = [1..cl_last_req c]"

text \<open>The whole bank's money, as the rows and as the ledger have it.\<close>

definition ledger_sum :: "server \<Rightarrow> int" where
  "ledger_sum s =
     sum_list (map (\<lambda>c. ledger_balance (transaction_history s) (cl_address c)) (elems (clients s)))"

definition client_count :: "server \<Rightarrow> nat" where
  "client_count s = length (elems (clients s))"

text \<open>\<open>b\<close> more clients may register.\<close>

definition ledger_inv :: "nat \<Rightarrow> server \<Rightarrow> bool" where
  "ledger_inv b s \<longleftrightarrow>
     server_wf s \<and>
     (\<forall>c\<in>set (elems (clients s)). row_inv (transaction_history s) c) \<and>
     (\<forall>t\<in>set (transaction_history s).
        account s (c_string (tx_source_ip t)) \<noteq> None \<and> account s (c_string (tx_dest_ip t)) \<noteq> None) \<and>
     ledger_sum s = 1000 * int (client_count s) \<and>
     total_balance s = 1000 * int (client_count s) \<and>
     client_count s + b \<le> CLIENT_LIMIT"

lemma ledger_inv_wf: "ledger_inv b s \<Longrightarrow> server_wf s"
  by (simp add: ledger_inv_def)

lemma ledger_inv_new [simp]: "ledger_inv CLIENT_LIMIT (server_new port ip r al ad)"
  using server_wf_new [of port ip r al ad]
  by (simp add: ledger_inv_def server_new_def vec_empty_def ledger_sum_def client_count_def)

lemma ledger_row:
  assumes "ledger_inv b s" "account s ip = Some c"
  shows "row_inv (transaction_history s) c" "cl_address c = ip"
  using assms account_iff [OF ledger_inv_wf [OF assms(1)]] by (auto simp: ledger_inv_def)

lemma ledger_balance_bounds:
  assumes inv: "ledger_inv b s" and c: "c \<in> set (elems (clients s))"
  shows "0 \<le> ledger_balance (transaction_history s) (cl_address c)"
    "ledger_balance (transaction_history s) (cl_address c) < 2 ^ 24"
proof -
  let ?f = "\<lambda>c. ledger_balance (transaction_history s) (cl_address c)"
  have nonneg: "\<forall>r\<in>set (elems (clients s)). 0 \<le> ?f r"
    using inv by (simp add: ledger_inv_def row_inv_def)
  with c show "0 \<le> ?f c" by blast
  have "?f c \<le> sum_list (map ?f (elems (clients s)))"
    using c nonneg by (intro member_le_sum_list) auto
  also have "\<dots> = 1000 * int (client_count s)" using inv by (simp add: ledger_inv_def ledger_sum_def)
  also have "\<dots> \<le> 16777000" using inv by (simp add: ledger_inv_def CLIENT_LIMIT_def)
  finally show "?f c < 2 ^ 24" by simp
qed

section \<open>A request keeps it\<close>

text \<open>What the invariant says of an account and of all the money.\<close>

lemma ledger_account:
  assumes "ledger_inv b s" "account s who = Some c"
  shows "cl_balance c = whole (ledger_balance (transaction_history s) who) \<and>
    0 \<le> ledger_balance (transaction_history s) who \<and>
    map tx_client_seqn (sent_by who (transaction_history s)) = [1..cl_last_req c]"
  using ledger_row [OF assms] by (auto simp: row_inv_def)

lemma ledger_money:
  assumes inv: "ledger_inv b s"
  shows "sum_list (map (\<lambda>c. f32_to_int (cl_balance c)) (elems (clients s))) =
      1000 * int (client_count s) \<and> total_balance s = 1000 * int (client_count s)"
proof -
  have "f32_to_int (cl_balance c) = ledger_balance (transaction_history s) (cl_address c)"
    if c: "c \<in> set (elems (clients s))" for c
  proof -
    have "cl_balance c = whole (ledger_balance (transaction_history s) (cl_address c))"
      using inv c by (simp add: ledger_inv_def row_inv_def)
    then show ?thesis using ledger_balance_bounds [OF inv c] by (simp add: in_i32_def)
  qed
  then have "map (\<lambda>c. f32_to_int (cl_balance c)) (elems (clients s)) =
      map (\<lambda>c. ledger_balance (transaction_history s) (cl_address c)) (elems (clients s))" by simp
  then show ?thesis using inv by (simp only: ledger_inv_def ledger_sum_def)
qed

lemma settle_row_whole:
  assumes "cl_balance c = whole n" "0 \<le> n" "n < 2 ^ 24" "0 \<le> v" "v < 2 ^ 24"
    and "cl_address c = a \<Longrightarrow> v \<le> n" "cl_address c = b \<Longrightarrow> cl_address c \<noteq> a \<Longrightarrow> n + v < 2 ^ 24"
  shows "cl_balance (settle_row a b v q c) =
    whole (n - (if cl_address c = a then v else 0) + (if cl_address c = b then v else 0))"
  using assms by (auto simp: settle_row_def Let_def)

lemma last_req_settle_row:
  "cl_last_req (settle_row a b v q c) = (if cl_address c = a then q else cl_last_req c)"
  by (simp add: settle_row_def Let_def)

lemma sum_list_map_add3:
  fixes f g h :: "'a \<Rightarrow> int"
  shows "sum_list (map (\<lambda>x. f x - g x + h x) xs) =
    sum_list (map f xs) - sum_list (map g xs) + sum_list (map h xs)"
  by (induction xs) simp_all

lemma other_balance_bound:
  assumes inv: "ledger_inv n s" and c: "account s a = Some c" and d: "account s b = Some d"
    and "a \<noteq> b"
  shows "ledger_balance (transaction_history s) a + ledger_balance (transaction_history s) b < 2 ^ 24"
proof -
  let ?f = "\<lambda>r. ledger_balance (transaction_history s) (cl_address r)"
  let ?rows = "elems (clients s)"
  let ?g = "\<lambda>r. if cl_address r = a then ledger_balance (transaction_history s) a else 0"
  let ?h = "\<lambda>r. if cl_address r = b then - ledger_balance (transaction_history s) b else 0"
  note wf = ledger_inv_wf [OF inv]
  have "sum_list (map ?g ?rows) = ledger_balance (transaction_history s) a"
    and "sum_list (map ?h ?rows) = - ledger_balance (transaction_history s) b"
    using vec_table.sum_at_key [OF server_wf_table [OF wf]] c d by (auto simp: account_def)
  moreover have "0 \<le> sum_list (map (\<lambda>r. ?f r - ?g r + ?h r) ?rows)"
    using ledger_balance_bounds(1) [OF inv] \<open>a \<noteq> b\<close> by (intro sum_list_nonneg) auto
  moreover have "sum_list (map ?f ?rows) \<le> 16777000"
    using inv by (simp add: ledger_inv_def ledger_sum_def CLIENT_LIMIT_def)
  ultimately show ?thesis unfolding sum_list_map_add3 by simp
qed

text \<open>What a request that succeeds gives: the two rows, the number and that the money is there.\<close>

lemma commit_facts:
  assumes inv: "ledger_inv n s" and v: "0 \<le> v" "in_i32 v"
    and verdict: "verdict s a b v q = SUCCESS"
  obtains c d where "account s a = Some c" "account s b = Some d" "q = cl_last_req c + 1"
    "v \<le> ledger_balance (transaction_history s) a" "v < 2 ^ 24"
    "a \<noteq> b \<longrightarrow> ledger_balance (transaction_history s) b + v < 2 ^ 24"
proof -
  let ?h = "transaction_history s"
  obtain c d where c: "account s a = Some c" and d: "account s b = Some d"
    and qc: "q = cl_last_req c + 1" and pay: "\<not> f32_less (cl_balance c) (f32_of_int v)"
    using verdict by (rule verdict_SUCCESSE)
  have row: "row_inv ?h c" "cl_address c = a" using ledger_row [OF inv c] .
  have "c \<in> set (elems (clients s))" using c account_iff [OF ledger_inv_wf [OF inv]] by auto
  note bounds = ledger_balance_bounds [OF inv this]
  have le: "v \<le> ledger_balance ?h a" "v < 2 ^ 24"
    using pay row bounds v affordable by (simp_all add: row_inv_def)
  have "a \<noteq> b \<longrightarrow> ledger_balance ?h b + v < 2 ^ 24"
    using other_balance_bound [OF inv c d] le by auto
  with c d qc le that show ?thesis by blast
qed

text \<open>One row after the transfer, and the sum of all.\<close>

lemma committed_row:
  assumes inv: "ledger_inv n s" and v: "0 \<le> v" "in_i32 v"
    and verdict: "verdict s (inet_ntop a) (inet_ntop b) v q = SUCCESS"
    and r: "r \<in> set (elems (clients s))"
  shows "row_inv (transaction_history s @ [entry k a b v q]) (settle_row (inet_ntop a) (inet_ntop b) v q r)"
proof -
  let ?a = "inet_ntop a" and ?b = "inet_ntop b" and ?h = "transaction_history s"
  obtain c d where c: "account s ?a = Some c" "account s ?b = Some d" "q = cl_last_req c + 1"
    "v \<le> ledger_balance ?h ?a" "v < 2 ^ 24" "?a \<noteq> ?b \<longrightarrow> ledger_balance ?h ?b + v < 2 ^ 24"
    using inv v verdict by (rule commit_facts)
  have inv_r: "row_inv ?h r" using inv r by (simp add: ledger_inv_def)
  note bounds = ledger_balance_bounds [OF inv r]
  have "cl_balance (settle_row ?a ?b v q r) =
      whole (ledger_balance ?h (cl_address r) - (if cl_address r = ?a then v else 0) +
        (if cl_address r = ?b then v else 0))"
    using inv_r bounds v c(4-6) by (intro settle_row_whole) (auto simp: row_inv_def)
  moreover have "0 \<le> ledger_balance (?h @ [entry k a b v q]) (cl_address r)"
    using bounds v c(4) by (auto simp: ledger_balance_append_entry)
  moreover have "map tx_client_seqn (sent_by (cl_address r) (?h @ [entry k a b v q])) =
      [1..cl_last_req (settle_row ?a ?b v q r)] \<and> 0 \<le> cl_last_req (settle_row ?a ?b v q r)"
  proof (cases "cl_address r = ?a")
    case True
    then have "r = c" using c(1) r account_iff [OF ledger_inv_wf [OF inv]] by (metis option.inject)
    then show ?thesis
      using inv_r c(3) True by (simp add: row_inv_def last_req_settle_row upto_rec2)
  next
    case False
    then show ?thesis using inv_r by (simp add: row_inv_def last_req_settle_row)
  qed
  ultimately show ?thesis using inv_r by (simp add: row_inv_def ledger_balance_append_entry)
qed

lemma committed_sum:
  assumes inv: "ledger_inv n s" and c: "account s (inet_ntop a) = Some c" and d: "account s (inet_ntop b) = Some d"
  shows "sum_list (map (\<lambda>r. ledger_balance (transaction_history s @ [entry k a b v q]) (cl_address r))
    (elems (clients s))) = ledger_sum s"
proof -
  let ?g = "\<lambda>r. if cl_address r = inet_ntop a then v else 0"
  let ?k = "\<lambda>r. if cl_address r = inet_ntop b then v else 0"
  have "sum_list (map (\<lambda>r. ledger_balance (transaction_history s @ [entry k a b v q]) (cl_address r))
      (elems (clients s))) =
    sum_list (map (\<lambda>r. ledger_balance (transaction_history s) (cl_address r) - ?g r + ?k r) (elems (clients s)))"
    by (simp add: ledger_balance_append_entry)
  also have "\<dots> = ledger_sum s - v + v"
    unfolding sum_list_map_add3 ledger_sum_def
    using vec_table.sum_at_key [OF server_wf_table [OF ledger_inv_wf [OF inv]]] c d
    by (auto simp: account_def)
  finally show ?thesis by simp
qed

lemma committed_ledger:
  assumes inv: "ledger_inv n s" and v: "0 \<le> v" "in_i32 v" and q: "in_i32 q"
    and verdict: "verdict s (inet_ntop a) (inet_ntop b) v q = SUCCESS"
  shows "ledger_inv n (committed s (inet_ntop a) (inet_ntop b) v q)"
proof -
  let ?s' = "committed s (inet_ntop a) (inet_ntop b) v q"
  let ?e = "entry (wrap32 (num_transactions s + 1)) a b v q"
  obtain c d where c: "account s (inet_ntop a) = Some c" and d: "account s (inet_ntop b) = Some d"
    using inv v verdict by (rule commit_facts)
  have h': "transaction_history ?s' = transaction_history s @ [?e]" by (simp add: entry_def)
  have elems': "elems (clients ?s') = map (settle_row (inet_ntop a) (inet_ntop b) v q) (elems (clients s))"
    by (simp add: settled_def)
  have "ledger_sum ?s' = ledger_sum s"
    using committed_sum [OF inv c d] unfolding ledger_sum_def [of ?s'] h' elems' by (simp add: comp_def)
  moreover have "total_balance ?s' = total_balance s" "client_count ?s' = client_count s"
    by (simp_all add: committed_def updateAndLogTransaction_def settled_def client_count_def Let_def)
  moreover have "server_wf ?s'" using server_wf_committed [OF ledger_inv_wf [OF inv] v(2) q] .
  moreover have "\<forall>t\<in>set (transaction_history ?s').
      account ?s' (c_string (tx_source_ip t)) \<noteq> None \<and> account ?s' (c_string (tx_dest_ip t)) \<noteq> None"
    using inv c d unfolding h' by (auto simp: ledger_inv_def)
  moreover have "\<forall>r\<in>set (elems (clients ?s')). row_inv (transaction_history ?s') r"
    unfolding h' elems' using committed_row [OF inv v verdict] by auto
  ultimately show ?thesis using inv unfolding ledger_inv_def by simp
qed

lemma outcome_ledger:
  assumes inv: "ledger_inv n s" and "0 \<le> v" "in_i32 v" "in_i32 q"
  shows "ledger_inv n (outcome s (inet_ntop a) (inet_ntop b) v q)"
proof (rule outcome_cases [of s "inet_ntop a" "inet_ntop b" v q])
  assume "verdict s (inet_ntop a) (inet_ntop b) v q = SUCCESS"
    and o: "outcome s (inet_ntop a) (inet_ntop b) v q = committed s (inet_ntop a) (inet_ntop b) v q"
  with committed_ledger [OF assms] show ?thesis by simp
next
  assume o: "outcome s (inet_ntop a) (inet_ntop b) v q =
    setupDuplicateRequestLog s (inet_ntop a) (inet_ntop b) v q"
  show ?thesis
    using inv unfolding o ledger_inv_def server_wf_setupDuplicate account_setupDuplicate
    by (simp add: setupDuplicateRequestLog_def ledger_sum_def client_count_def)
qed (use inv in simp)

section \<open>A registration keeps it\<close>

lemma addClient_ledger:
  assumes inv: "ledger_inv (Suc n) s"
  shows "ledger_inv n (fst (addClient s (inet_ntop a)))"
proof (rule wasClientAdded_cases [of s "inet_ntop a"])
  fix c assume "account s (inet_ntop a) = Some c" "wasClientAdded s (inet_ntop a) = (s, [], False)"
  then show ?thesis using inv by (simp add: addClient_def ledger_inv_def)
next
  fix s1 sends
  assume fresh: "account s (inet_ntop a) = None"
    and w: "wasClientAdded s (inet_ntop a) = (s1, sends, True)"
    and s1: "s1 = s\<lparr>clients := push_back (clients s) (new_client (inet_ntop a)),
      total_balance := add_balance (total_balance s) INITIAL_BALANCE\<rparr>"
  let ?h = "transaction_history s" and ?c = "new_client (inet_ntop a)"
  note wf = ledger_inv_wf [OF inv]
  have s': "fst (addClient s (inet_ntop a)) = s1" by (simp add: addClient_def w)
  have none: "sent_by (inet_ntop a) ?h = []" "received_by (inet_ntop a) ?h = []"
    using inv fresh by (auto simp: ledger_inv_def sent_by_def received_by_def filter_empty_conv)
  then have bal: "ledger_balance ?h (inet_ntop a) = 1000" by (simp add: ledger_balance_def)
  have row: "row_inv ?h ?c"
    using none bal by (auto simp: row_inv_def new_client_def INITIAL_BALANCE_whole)
  have get: "account s1 ip = (if ip = inet_ntop a then Some ?c else account s ip)" for ip
    using vec_table.get_add [OF server_wf_table [OF wf], of ?c ip] fresh
    by (simp add: s1 account_def new_client_def)
  have "client_count s < 16777" using inv by (simp add: ledger_inv_def CLIENT_LIMIT_def)
  then have "add_balance (total_balance s) INITIAL_BALANCE = 1000 * int (client_count s) + 1000"
    using inv by (simp add: add_balance_def INITIAL_BALANCE_whole ledger_inv_def in_i32_def)
  then have tb: "total_balance s1 = 1000 * int (client_count s1)"
    by (simp add: s1 client_count_def)
  have "ledger_sum s1 = ledger_sum s + 1000"
    using bal by (simp add: ledger_sum_def s1 new_client_def)
  moreover have "client_count s1 = Suc (client_count s)" by (simp add: client_count_def s1)
  moreover have "server_wf s1" using server_wf_addClient [OF wf, of "inet_ntop a"] s' by simp
  moreover have "\<forall>r\<in>set (elems (clients s1)). row_inv (transaction_history s1) r"
    using inv row by (auto simp: s1 ledger_inv_def)
  moreover have "\<forall>t\<in>set (transaction_history s1).
      account s1 (c_string (tx_source_ip t)) \<noteq> None \<and> account s1 (c_string (tx_dest_ip t)) \<noteq> None"
    using inv unfolding get by (auto simp: ledger_inv_def s1)
  ultimately show ?thesis
    using inv tb unfolding s' ledger_inv_def by simp
qed

end
