(* ===== verification/BankRuns.thy ===== *)
theory BankRuns
  imports Ledger
begin

text \<open>
  Runs of the bank: sequences of registrations and requests in the order the writer lock lets
  them through, which is every interleaving of the request threads. The steps are the code's
  \<open>addClient\<close> and \<open>processTransaction\<close>; the theorems speak of every state such a run reaches.
\<close>

datatype bank_op =
    AddClient u32
  | Transact (op_source: u32) (op_dest: u32) (op_value: int) (op_seqn: int)

fun bank_emit :: "server \<Rightarrow> bank_op \<Rightarrow> (server \<times> effect list) option" where
  "bank_emit s (AddClient a) = Some (addClient s (inet_ntop a))"
| "bank_emit s (Transact a b v q) =
     map_option (\<lambda>(s', effs, r). (s', effs)) (processTransaction s (inet_ntop a) b v q)"

definition bank_step :: "server \<Rightarrow> bank_op \<Rightarrow> server option" where
  "bank_step s x = map_option fst (bank_emit s x)"

lemma bank_step_simps [simp]:
  "bank_step s (AddClient a) = Some (fst (addClient s (inet_ntop a)))"
  "bank_step s (Transact a b v q) = map_option fst (processTransaction s (inet_ntop a) b v q)"
  by (simp_all add: bank_step_def option.map_comp comp_def case_prod_beta)

abbreviation bank_run :: "server \<Rightarrow> bank_op list \<Rightarrow> server option" where
  "bank_run \<equiv> run_steps bank_step"

text \<open>The values an operation's \<open>int\<close>s can have; an honest request is not negative.\<close>

fun op_typed :: "bank_op \<Rightarrow> bool" where
  "op_typed (AddClient a) \<longleftrightarrow> True"
| "op_typed (Transact a b v q) \<longleftrightarrow> in_i32 v \<and> in_i32 q"

fun op_honest :: "bank_op \<Rightarrow> bool" where
  "op_honest (AddClient a) \<longleftrightarrow> True"
| "op_honest (Transact a b v q) \<longleftrightarrow> 0 \<le> v \<and> in_i32 v \<and> in_i32 q"

fun registrations :: "bank_op \<Rightarrow> nat" where
  "registrations (AddClient a) = 1"
| "registrations (Transact a b v q) = 0"

lemma op_honest_typed: "op_honest x \<Longrightarrow> op_typed x"
  by (cases x) simp_all

lemma bank_step_Transact:
  assumes "server_wf s" "in_i32 q"
  shows "bank_step s (Transact a b v q) = Some (outcome s (inet_ntop a) (inet_ntop b) v q)"
  using assms by (simp add: processTransaction_eq Let_def)

interpretation typed_runs: budgeted_run bank_step op_typed "\<lambda>_. 0" "\<lambda>_. server_wf"
proof
  fix b s x assume "server_wf s" "op_typed x"
  then show "\<exists>s'. bank_step s x = Some s' \<and> server_wf s'"
    by (cases x) (auto simp: server_wf_addClient bank_step_Transact server_wf_outcome
        simp del: bank_step_simps(2))
qed

interpretation honest_runs: budgeted_run bank_step op_honest registrations ledger_inv
proof
  fix b s x assume inv: "ledger_inv b s" and "op_honest x" "registrations x \<le> b"
  show "\<exists>s'. bank_step s x = Some s' \<and> ledger_inv (b - registrations x) s'"
  proof (cases x)
    case (AddClient a)
    with \<open>registrations x \<le> b\<close> obtain b' where "b = Suc b'" by (cases b) auto
    with inv AddClient show ?thesis by (simp add: addClient_ledger)
  next
    case (Transact a c v q)
    with inv \<open>op_honest x\<close> show ?thesis
      by (auto simp: bank_step_Transact [OF ledger_inv_wf [OF inv]] outcome_ledger
          simp del: bank_step_simps(2))
  qed
qed

definition honest_run :: "server \<Rightarrow> bank_op list \<Rightarrow> server \<Rightarrow> bool" where
  "honest_run s0 ops s \<longleftrightarrow>
     (\<forall>x\<in>set ops. op_honest x) \<and> sum_list (map registrations ops) \<le> CLIENT_LIMIT \<and>
     bank_run s0 ops = Some s"

lemma honest_run_ledger:
  assumes "honest_run (server_new port ip r al ad) ops s"
  obtains b where "ledger_inv b s"
  using assms honest_runs.run_inv [OF ledger_inv_new, of ops port ip r al ad]
  by (auto simp: honest_run_def)

section \<open>Monotonicity of the sequence numbers\<close>

lemma addClient_new:
  assumes "server_wf s" "account s ip = None"
  shows "account (fst (addClient s ip)) a = (if a = ip then Some (new_client ip) else account s a)"
    "transaction_history (fst (addClient s ip)) = transaction_history s"
proof -
  obtain s1 sends where w: "wasClientAdded s ip = (s1, sends, True)"
    and s1: "s1 = s\<lparr>clients := push_back (clients s) (new_client ip),
      total_balance := add_balance (total_balance s) INITIAL_BALANCE\<rparr>"
    using assms(2) by (auto intro: wasClientAdded_cases [of s ip])
  show "account (fst (addClient s ip)) a = (if a = ip then Some (new_client ip) else account s a)"
    using vec_table.get_add [OF server_wf_table [OF assms(1)], of "new_client ip" a] assms(2) w
    by (simp add: s1 addClient_def account_def new_client_def)
  show "transaction_history (fst (addClient s ip)) = transaction_history s"
    using w by (simp add: s1 addClient_def)
qed

lemma account_addClient:
  assumes "account s ip = Some c" shows "account (fst (addClient s a)) ip = Some c"
proof (rule wasClientAdded_cases [of s a])
  fix s1 sends
  assume w: "wasClientAdded s a = (s1, sends, True)" and n: "account s a = None"
    and s1: "s1 = s\<lparr>clients := push_back (clients s) (new_client a),
      total_balance := add_balance (total_balance s) INITIAL_BALANCE\<rparr>"
  let ?P = "\<lambda>c. cl_address c = ip"
  have "takeWhile (\<lambda>c. \<not> ?P c) (elems (clients s) @ [new_client a]) =
      takeWhile (\<lambda>c. \<not> ?P c) (elems (clients s))"
    using vec_get_SomeD [of cl_address "clients s" ip c] assms
    by (intro takeWhile_append1) (auto simp: account_def)
  then have "account s1 ip = account s ip"
    using assms by (auto simp: s1 account_def vec_get_def deref_def find_if_def vec_size_def
        nth_append push_back_def split: if_splits)
  with assms show ?thesis by (simp add: addClient_def w)
qed (use assms in \<open>simp add: addClient_def\<close>)

lemma bank_step_mono:
  assumes "server_wf s" "op_typed x" "bank_step s x = Some s'" "account s ip = Some c"
  obtains c' where "account s' ip = Some c'" "cl_last_req c \<le> cl_last_req c'"
proof (cases x)
  case (AddClient a)
  with assms account_addClient [OF assms(4)] show ?thesis by (intro that) auto
next
  case (Transact a b v q)
  with assms have s': "s' = outcome s (inet_ntop a) (inet_ntop b) v q"
    using bank_step_Transact [OF assms(1)] by (simp del: bank_step_simps)
  show ?thesis
  proof (cases "verdict s (inet_ntop a) (inet_ntop b) v q = SUCCESS")
    case True
    then obtain d where "account s (inet_ntop a) = Some d" "q = cl_last_req d + 1"
      by (rule verdict_SUCCESSE)
    with assms(4) account_address [OF assms(4)] True show ?thesis
      by (intro that) (auto simp: s' account_outcome last_req_settle_row)
  next
    case False
    with assms(4) show ?thesis by (intro that) (auto simp: s' account_outcome)
  qed
qed

lemma bank_run_mono:
  assumes "server_wf s" "\<forall>x\<in>set ops. op_typed x" "bank_run s ops = Some s'" "account s ip = Some c"
  obtains c' where "account s' ip = Some c'" "cl_last_req c \<le> cl_last_req c'" "server_wf s'"
  using assms
proof (induction ops arbitrary: s c thesis)
  case (Cons x ops)
  then obtain s1 where s1: "bank_step s x = Some s1" "bank_run s1 ops = Some s'"
    by (auto split: option.splits)
  have wf1: "server_wf s1"
    using typed_runs.step_inv [of s x 0] Cons.prems s1(1) by auto
  obtain c1 where c1: "account s1 ip = Some c1" "cl_last_req c \<le> cl_last_req c1"
    using bank_step_mono [OF Cons.prems(2) _ s1(1) Cons.prems(5)] Cons.prems(3) by auto
  show ?case
  proof (rule Cons.IH [OF _ wf1 _ s1(2) c1(1)])
    fix c' assume c': "account s' ip = Some c'" "cl_last_req c1 \<le> cl_last_req c'" "server_wf s'"
    have "cl_last_req c \<le> cl_last_req c'" using c1(2) c'(2) by simp
    then show ?case using c' by (metis Cons.prems(1))
  qed (use Cons.prems(3) in simp)
qed auto

end
