(* ===== verification/Demo.thy ===== *)
theory Demo
  imports BankRuns
begin

text \<open>
  The concrete states at which the hypotheses of the theorems are shown to hold: a primary with
  the two clients \<open>1.0.0.0\<close> and \<open>2.0.0.0\<close> of 1000 each, as two registrations leave it, and its
  state after one transfer.
\<close>

definition demo_vec :: "client_dto list \<Rightarrow> client_dto vec" where
  "demo_vec cs = \<lparr>elems = cs, capacity = 2, epoch = 2\<rparr>"

definition demo_row :: "u32 \<Rightarrow> int \<Rightarrow> int \<Rightarrow> client_dto" where
  "demo_row a n q = \<lparr>cl_address = inet_ntop a, cl_last_req = q, cl_balance = whole n\<rparr>"

definition blank :: server where
  "blank = server_new 4000 7 PRIMARY False zero_sockaddr"

definition demo :: server where
  "demo = blank\<lparr>total_balance := 2000, clients := demo_vec [demo_row 1 1000 0, demo_row 2 1000 0]\<rparr>"

named_theorems demo_simps \<open>evaluation of the concrete states\<close>

lemmas [demo_simps] =
  demo_def demo_vec_def demo_row_def blank_def server_new_def account_def vec_get_def deref_def
  find_if_def vec_size_def

lemma demo_account [simp]:
  "account demo (inet_ntop 1) = Some (demo_row 1 1000 0)"
  "account demo (inet_ntop 2) = Some (demo_row 2 1000 0)"
  by (simp_all add: demo_simps)

lemma demo_row_simps [simp]:
  "cl_address (demo_row a n q) = inet_ntop a" "cl_last_req (demo_row a n q) = q"
  "cl_balance (demo_row a n q) = whole n"
  by (simp_all add: demo_row_def)

lemma demo_reached: "bank_run blank [AddClient 1, AddClient 2] = Some demo"
  by (simp add: demo_simps addClient_def wasClientAdded_def findClient_def vec_end_def vec_empty_def
      push_back_def new_client_def INITIAL_BALANCE_whole add_balance_def in_i32_def Let_def
      propagateClientAddition_def send_all_def)

lemma demo_wf [simp]: "server_wf demo"
proof -
  have "server_wf blank" by (simp add: blank_def)
  then show ?thesis
    using typed_runs.run_inv [of blank "[AddClient 1, AddClient 2]" 0] demo_reached by simp
qed

lemma demo_honest: "honest_run blank [AddClient 1, AddClient 2] demo"
  using demo_reached by (simp add: honest_run_def CLIENT_LIMIT_def)

lemma demo_verdict: "verdict demo (inet_ntop 1) (inet_ntop 2) 100 1 = SUCCESS"
  by (simp add: verdict_def)

lemma demo_transfer:
  obtains s effs r where "processTransaction demo (inet_ntop 1) 2 100 1 = Some (s, effs, r)"
    "rp_status r = SUCCESS" 
  using processTransaction_eq [of demo 1 "inet_ntop 1" 2 100] demo_verdict
  by (simp add: in_i32_def Let_def)

end
