(* ===== verification/BankTheorems.thy ===== *)
theory BankTheorems
  imports Demo
begin

text \<open>
  The properties of the bank: what a request does on every branch, that no branch is undefined,
  that a request is executed at most once however often it is sent, and that the accounts are
  those of the ledger. The last ones show what the missing check of the sign of a value lets a
  client do, and what the rounding of the balances does beyond the ledger's bounds.
\<close>

section \<open>One request\<close>

lemma processTransactionD:
  assumes "server_wf s" "in_i32 q" "processTransaction s a dest v q = Some (s', effs, r)"
  shows "s' = outcome s a (inet_ntop dest) v q" "rp_status r = verdict s a (inet_ntop dest) v q"
    "rp_balance r = balance_of s' a" "rp_last_req r = last_req_of s' a"
    "effs = [WriterLock] @ propagated s' a (inet_ntop dest) (rp_status r) @ [WriterUnlock] @
       (if should_notify (rp_status r) then [Notify] else [])"
  using assms by (auto simp: processTransaction_eq Let_def)

text \<open>C1. A request is always answered: no branch dereferences an invalid iterator, and the data
  invariant (distinct addresses, values in range, counters in step with the history) holds
  afterwards, whatever the amount and the sequence number.\<close>

theorem processTransaction_total:
  assumes "server_wf s" "in_i32 v" "in_i32 q"
  shows "\<exists>s' effs r. processTransaction s a dest v q = Some (s', effs, r) \<and> server_wf s'"
  using assms by (simp add: processTransaction_eq server_wf_outcome Let_def)

theorem processTransaction_total_witness:
  "\<exists>s' effs r. processTransaction demo (inet_ntop 1) 2 100 1 = Some (s', effs, r) \<and> server_wf s'"
  using processTransaction_total [of demo 100 1 "inet_ntop 1" 2] by (simp add: in_i32_def)

text \<open>A rejected request changes no account, no counter and no history entry, and sends
  nothing to the backups.\<close>

lemma processTransaction_rejected:
  assumes "server_wf s" "in_i32 q" "processTransaction s a dest v q = Some (s', effs, r)"
    and "rp_status r \<noteq> SUCCESS"
  shows "clients s' = clients s \<and> transaction_history s' = transaction_history s \<and>
    num_transactions s' = num_transactions s \<and> total_transferred s' = total_transferred s \<and>
    (\<forall>p addr. Send p addr \<notin> set effs)"
proof -
  note D = processTransactionD [OF assms(1-3)]
  have "propagated s' a (inet_ntop dest) (rp_status r) = []"
    using assms(4) by (simp add: propagated_def)
  moreover have "clients s' = clients s \<and> transaction_history s' = transaction_history s \<and>
      num_transactions s' = num_transactions s \<and> total_transferred s' = total_transferred s"
    using D(1,2) assms(4)
    by (rule_tac outcome_cases [of s a "inet_ntop dest" v q])
      (simp_all add: setupDuplicateRequestLog_def)
  ultimately show ?thesis using D(5) by simp
qed

text \<open>C16. The status is the first check that fails, in the order of the code; a request succeeds
  exactly when both clients are known, its number is the next one and the balance is not less
  than the value as \<open>float\<close>s. A rejected request changes no account, no counter and no history
  entry, and sends nothing to the backups.\<close>

theorem processTransaction_status:
  assumes "server_wf s" "in_i32 q" "processTransaction s a dest v q = Some (s', effs, r)"
  shows "rp_status r =
    (case (account s a, account s (inet_ntop dest)) of
       (Some c, Some d) \<Rightarrow>
         if q \<le> cl_last_req c then ERROR_DUPLICATE_REQUEST
         else if cl_last_req c + 1 < q then ERROR_OUT_OF_SEQUENCE
         else if f32_less (cl_balance c) (f32_of_int v) then ERROR_INSUFFICIENT_FUNDS
         else SUCCESS
     | _ \<Rightarrow> ERROR_CLIENT_NOT_FOUND) \<and>
    (rp_status r \<noteq> SUCCESS \<longrightarrow>
       clients s' = clients s \<and> transaction_history s' = transaction_history s \<and>
       num_transactions s' = num_transactions s \<and> total_transferred s' = total_transferred s \<and>
       (\<forall>p addr. Send p addr \<notin> set effs))"
proof
  show "rp_status r =
    (case (account s a, account s (inet_ntop dest)) of
       (Some c, Some d) \<Rightarrow>
         if q \<le> cl_last_req c then ERROR_DUPLICATE_REQUEST
         else if cl_last_req c + 1 < q then ERROR_OUT_OF_SEQUENCE
         else if f32_less (cl_balance c) (f32_of_int v) then ERROR_INSUFFICIENT_FUNDS
         else SUCCESS
     | _ \<Rightarrow> ERROR_CLIENT_NOT_FOUND)"
    using processTransactionD(2) [OF assms]
    by (auto simp: verdict_def split: option.splits if_splits)
qed (blast dest: processTransaction_rejected [OF assms])

theorem processTransaction_status_witness:
  "\<exists>s1 effs1 r1 s2 effs2 r2.
     processTransaction demo (inet_ntop 1) 2 100 1 = Some (s1, effs1, r1) \<and> rp_status r1 = SUCCESS \<and>
     processTransaction demo (inet_ntop 1) 2 100 7 = Some (s2, effs2, r2) \<and>
     rp_status r2 = ERROR_OUT_OF_SEQUENCE \<and> clients s2 = clients demo"
proof -
  have i: "in_i32 1" "in_i32 7" by (simp_all add: in_i32_def)
  obtain s1 effs1 r1 where p1: "processTransaction demo (inet_ntop 1) 2 100 1 = Some (s1, effs1, r1)"
    by (rule demo_transfer)
  obtain s2 effs2 r2 where p2: "processTransaction demo (inet_ntop 1) 2 100 7 = Some (s2, effs2, r2)"
    using processTransaction_eq [OF demo_wf i(2)] by (simp add: Let_def)
  have "rp_status r1 = SUCCESS" using processTransaction_status [OF demo_wf i(1) p1] by simp
  moreover have "rp_status r2 = ERROR_OUT_OF_SEQUENCE" "clients s2 = clients demo"
    using processTransaction_status [OF demo_wf i(2) p2] by simp_all
  ultimately show ?thesis using p1 p2 by blast
qed

text \<open>C17. A successful transfer between two clients moves the value, records the number, appends
  one history entry with the next identifier, changes no third account, and replies with the new
  balance and number of the source.\<close>

theorem processTransaction_success:
  assumes "server_wf s" "in_i32 q" "processTransaction s a dest v q = Some (s', effs, r)"
    and "rp_status r = SUCCESS" "a \<noteq> inet_ntop dest"
  shows "\<exists>c d. account s a = Some c \<and> account s (inet_ntop dest) = Some d \<and> q = cl_last_req c + 1 \<and>
    account s' a = Some (c\<lparr>cl_balance := f32_sub (cl_balance c) (f32_of_int v), cl_last_req := q\<rparr>) \<and>
    account s' (inet_ntop dest) = Some (d\<lparr>cl_balance := f32_add (cl_balance d) (f32_of_int v)\<rparr>) \<and>
    (\<forall>ip. ip \<noteq> a \<and> ip \<noteq> inet_ntop dest \<longrightarrow> account s' ip = account s ip) \<and>
    transaction_history s' = transaction_history s @
      [\<lparr>tx_id = num_transactions s', tx_source_ip = ip_array a,
        tx_dest_ip = ip_array (inet_ntop dest), tx_value = v, tx_client_seqn = q\<rparr>] \<and>
    rp_balance r = f32_sub (cl_balance c) (f32_of_int v) \<and> rp_last_req r = q"
proof -
  let ?b = "inet_ntop dest"
  note D = processTransactionD [OF assms(1-3)]
  have ok: "verdict s a ?b v q = SUCCESS" using D(2) assms(4) by simp
  then obtain c d where cd: "account s a = Some c" "account s ?b = Some d" "q = cl_last_req c + 1"
    by (rule verdict_SUCCESSE)
  have s': "s' = committed s a ?b v q" using D(1) ok by (simp add: outcome_def)
  have rows: "settle_row a ?b v q c = c\<lparr>cl_balance := f32_sub (cl_balance c) (f32_of_int v), cl_last_req := q\<rparr>"
    "settle_row a ?b v q d = d\<lparr>cl_balance := f32_add (cl_balance d) (f32_of_int v)\<rparr>"
    using account_address [OF cd(1)] account_address [OF cd(2)] assms(5)
    by (simp_all add: settle_row_def Let_def)
  have others: "account s' ip = account s ip" if "ip \<noteq> a" "ip \<noteq> ?b" for ip
    using that account_address [of s ip]
    by (cases "account s ip") (simp_all add: s' settle_row_def Let_def)
  have "num_transactions s' = wrap32 (num_transactions s + 1)"
    by (simp add: s' committed_def updateAndLogTransaction_def settled_def Let_def)
  then have "transaction_history s' = transaction_history s @
      [\<lparr>tx_id = num_transactions s', tx_source_ip = ip_array a, tx_dest_ip = ip_array ?b,
        tx_value = v, tx_client_seqn = q\<rparr>]"
    by (simp add: s')
  moreover have "account s' a = Some (settle_row a ?b v q c)"
    "account s' ?b = Some (settle_row a ?b v q d)" using cd by (simp_all add: s')
  ultimately show ?thesis
    using cd others D(3,4) rows by (simp add: balance_of_def last_req_of_def)
qed

theorem processTransaction_success_witness:
  "\<exists>s' effs r. processTransaction demo (inet_ntop 1) 2 100 1 = Some (s', effs, r) \<and>
     account s' (inet_ntop 1) = Some (demo_row 1 900 1) \<and>
     account s' (inet_ntop 2) = Some (demo_row 2 1100 0)"
proof -
  obtain s' effs r where p: "processTransaction demo (inet_ntop 1) 2 100 1 = Some (s', effs, r)"
    and ok: "rp_status r = SUCCESS" by (rule demo_transfer)
  have "account s' (inet_ntop 1) = Some (demo_row 1 900 1) \<and>
      account s' (inet_ntop 2) = Some (demo_row 2 1100 0)"
    using processTransaction_success [OF demo_wf _ p ok]
    by (simp add: in_i32_def demo_row_def)
  with p show ?thesis by blast
qed

text \<open>Every operation of the primary takes the writer lock once, releases it once, sends to
  the backups only while it holds it, and notifies the console after it let it go.\<close>

lemma primary_lock_discipline:
  assumes "server_wf s" "in_i32 q" "processTransaction s a dest v q = Some (s', effs, r)"
  shows "discipline Free effs \<and> discipline Free (snd (addClient s ip))"
proof
  show "discipline Free effs"
    unfolding processTransactionD(5) [OF assms] by (simp add: discipline_propagated)
  show "discipline Free (snd (addClient s ip))"
    by (cases rule: wasClientAdded_cases [of s ip])
      (auto simp: addClient_def propagateClientAddition_def)
qed

section \<open>Repeated requests\<close>

text \<open>C2. A request is executed at most once: after it succeeded, whatever registrations and requests
  follow, the same source with the same number is refused, as a duplicate when its destination
  is known.\<close>

theorem at_most_once:
  assumes "server_wf s" "in_i32 v" "in_i32 q"
    and first: "processTransaction s a dest v q = Some (s1, effs, r)" "rp_status r = SUCCESS"
    and between: "\<forall>x\<in>set ops. op_typed x" "bank_run s1 ops = Some s2"
    and again: "processTransaction s2 a dest' v' q = Some (s3, effs', r')"
  shows "rp_status r' =
    (if account s2 (inet_ntop dest') = None then ERROR_CLIENT_NOT_FOUND else ERROR_DUPLICATE_REQUEST)"
proof -
  note D = processTransactionD [OF assms(1,3) first(1)]
  have "verdict s a (inet_ntop dest) v q = SUCCESS" using D(2) first(2) by simp
  then obtain c1 where c1: "account s1 a = Some c1" "cl_last_req c1 = q"
    using D(1) account_address by (elim verdict_SUCCESSE) (auto simp: account_outcome last_req_settle_row
        verdict_SUCCESS_iff)
  have wf1: "server_wf s1" unfolding D(1) by (rule server_wf_outcome [OF assms(1-3)])
  obtain c2 where c2: "account s2 a = Some c2" "cl_last_req c1 \<le> cl_last_req c2" "server_wf s2"
    using wf1 between c1(1) by (rule bank_run_mono)
  show ?thesis
    using processTransactionD(2) [OF c2(3) assms(3) again] c1(2) c2(1,2)
    by (auto simp: verdict_def split: option.split)
qed

theorem at_most_once_witness:
  "\<exists>s1 effs r s3 effs' r'.
     processTransaction demo (inet_ntop 1) 2 100 1 = Some (s1, effs, r) \<and>
     processTransaction s1 (inet_ntop 1) 2 100 1 = Some (s3, effs', r') \<and>
     rp_status r' = ERROR_DUPLICATE_REQUEST"
proof -
  obtain s1 effs r where p: "processTransaction demo (inet_ntop 1) 2 100 1 = Some (s1, effs, r)"
    and ok: "rp_status r = SUCCESS" by (rule demo_transfer)
  have i: "in_i32 100" "in_i32 1" by (simp_all add: in_i32_def)
  have "server_wf s1"
    using processTransactionD(1) [OF demo_wf i(2) p] server_wf_outcome [OF demo_wf i] by simp
  then obtain s3 effs' r' where again:
    "processTransaction s1 (inet_ntop 1) 2 100 1 = Some (s3, effs', r')"
    using i(2) processTransaction_eq by (simp add: Let_def)
  have "account s1 (inet_ntop 2) \<noteq> None"
    using processTransactionD(1) [OF demo_wf i(2) p] by (simp add: account_outcome)
  then have "rp_status r' = ERROR_DUPLICATE_REQUEST"
    using at_most_once [OF demo_wf i p ok _ _ again, of "[]"] by simp
  with p again show ?thesis by blast
qed

section \<open>The ledger\<close>

text \<open>C6. In every state an honest run reaches, each balance is exactly 1000 plus what the history
  says the client received minus what it sent, and is never negative; and the history holds, for
  each client, exactly one transaction per sequence number, in the order 1, 2, 3, ... up to the
  number of its last accepted request.\<close>

theorem balances_follow_history:
  assumes "honest_run (server_new port ip r al ad) ops s" "account s who = Some c"
  shows "cl_balance c = whole (ledger_balance (transaction_history s) who) \<and>
    0 \<le> ledger_balance (transaction_history s) who \<and>
    map tx_client_seqn (sent_by who (transaction_history s)) = [1..cl_last_req c]"
  using ledger_account [OF _ assms(2)] assms(1) by (elim honest_run_ledger) blast

theorem balances_follow_history_witness:
  "account demo (inet_ntop 1) = Some (demo_row 1 1000 0) \<and>
     whole 1000 = whole (ledger_balance (transaction_history demo) (inet_ntop 1)) \<and>
     map tx_client_seqn (sent_by (inet_ntop 1) (transaction_history demo)) = [1..0]"
  using balances_follow_history [OF demo_honest [unfolded blank_def], of "inet_ntop 1"] by simp

text \<open>C5. Money is conserved: after every honest run the balances add up to 1000 for each registered
  client, and \<open>total_balance\<close> is that sum.\<close>

theorem money_conserved:
  assumes "honest_run (server_new port ip r al ad) ops s"
  shows "sum_list (map (\<lambda>c. f32_to_int (cl_balance c)) (elems (clients s))) =
      1000 * int (client_count s) \<and> total_balance s = 1000 * int (client_count s)"
  using ledger_money assms by (elim honest_run_ledger) blast

theorem money_conserved_witness:
  "sum_list (map (\<lambda>c. f32_to_int (cl_balance c)) (elems (clients demo))) = 2000"
  using money_conserved [OF demo_honest [unfolded blank_def]]
  by (simp add: client_count_def demo_def demo_vec_def)

section \<open>A negative value\<close>

text \<open>C34. The code never checks the sign of a value: a client that knows its next number takes an amount
  \<open>k\<close> from another client, also one that does not have it and one that is overdrawn, with a request
  for \<open>- k\<close>. The balances before and after are whole numbers up to \<open>2 ^ 24\<close>, which a \<open>float\<close> holds
  exactly, and the client itself is overdrawn by at most \<open>k\<close>.\<close>

theorem negative_value_takes_money:
  assumes "server_wf s" "in_i32 q" "processTransaction s a dest (- k) q = Some (s', effs, r)"
    and "account s a = Some c" "cl_balance c = whole m" "q = cl_last_req c + 1"
    and "account s (inet_ntop dest) = Some d" "cl_balance d = whole n" "a \<noteq> inet_ntop dest"
    and "0 < k" "k \<le> 2 ^ 24" "- k \<le> m" "m + k \<le> 2 ^ 24" "- (2 ^ 24) \<le> n - k" "n \<le> 2 ^ 24"
  shows "rp_status r = SUCCESS \<and>
    map_option cl_balance (account s' a) = Some (whole (m + k)) \<and>
    map_option cl_balance (account s' (inet_ntop dest)) = Some (whole (n - k))"
proof -
  note D = processTransactionD [OF assms(1-3)]
  have k: "f32_of_int (- k) = whole (- k)" using assms(10,11) by simp
  have st: "verdict s a (inet_ntop dest) (- k) q = SUCCESS"
    using assms(4-8,10-15) k by (simp add: verdict_def)
  moreover have "f32_sub (whole m) (whole (- k)) = whole (m + k)"
    "f32_add (whole n) (whole (- k)) = whole (n - k)" using assms(10-15) by simp_all
  ultimately show ?thesis
    using assms(4-9) k account_address [OF assms(4)] account_address [OF assms(7)]
    by (simp add: D(1,2) account_outcome settle_row_def Let_def)
qed

theorem negative_value_takes_money_witness:
  "\<exists>s' effs r. processTransaction demo (inet_ntop 1) 2 (-5000) 1 = Some (s', effs, r) \<and>
     map_option cl_balance (account s' (inet_ntop 2)) = Some (whole (-4000))"
proof -
  obtain s' effs r where p: "processTransaction demo (inet_ntop 1) 2 (- 5000) 1 = Some (s', effs, r)"
    using processTransaction_eq [of demo 1 "inet_ntop 1" 2 "-5000"] by (simp add: in_i32_def Let_def)
  then show ?thesis
    using negative_value_takes_money [OF demo_wf _ p, of "demo_row 1 1000 0" 1000 "demo_row 2 1000 0" 1000]
    by (simp add: in_i32_def)
qed

section \<open>Rounding\<close>

text \<open>C35. Balances are \<open>float\<close>s, which do not hold the number \<open>2 ^ 24 + 1\<close>: a transfer of 1 to a client
  that has exactly \<open>2 ^ 24\<close>, which more than 16777 clients can bring together, leaves the source and
  does not arrive. The request is a success, the source is debited, and the destination's balance
  is what it was.\<close>

theorem rounding_loses_money:
  assumes "server_wf s" "in_i32 q" "processTransaction s a dest 1 q = Some (s', effs, r)"
    and "account s a = Some c" "cl_balance c = whole m" "q = cl_last_req c + 1" "1 \<le> m" "m \<le> 2 ^ 24"
    and "account s (inet_ntop dest) = Some d" "cl_balance d = whole (2 ^ 24)" "a \<noteq> inet_ntop dest"
  shows "rp_status r = SUCCESS \<and>
    map_option cl_balance (account s' a) = Some (whole (m - 1)) \<and>
    map_option cl_balance (account s' (inet_ntop dest)) = Some (whole (2 ^ 24))"
proof -
  note D = processTransactionD [OF assms(1-3)]
  have st: "verdict s a (inet_ntop dest) 1 q = SUCCESS"
    using assms(4-9) by (simp add: verdict_def)
  moreover have "f32_sub (whole m) (whole 1) = whole (m - 1)" using assms(7,8) by simp
  ultimately show ?thesis
    using assms(4-11) account_address [OF assms(4)] account_address [OF assms(9)] f32_add_one_lost
    by (simp add: D(1,2) account_outcome settle_row_def Let_def)
qed

text \<open>The two clients, the second with the largest exact balance.\<close>

definition rich_demo :: server where
  "rich_demo = demo\<lparr>clients := demo_vec [demo_row 1 1000 0, demo_row 2 (2 ^ 24) 0]\<rparr>"

lemma rich_demo_facts:
  "server_wf rich_demo" "account rich_demo (inet_ntop 1) = Some (demo_row 1 1000 0)"
  "account rich_demo (inet_ntop 2) = Some (demo_row 2 (2 ^ 24) 0)"
proof -
  have "\<forall>c\<in>{demo_row 1 1000 0, demo_row 2 (2 ^ 24) 0}. valid_client c"
    by (auto simp: valid_client_def in_i32_def)
  then show "server_wf rich_demo"
    using demo_wf by (simp add: rich_demo_def server_wf_def table_wf_def vec_wf_def demo_simps)
qed (simp_all add: rich_demo_def demo_simps)

theorem rounding_loses_money_witness:
  "\<exists>s' effs r. processTransaction rich_demo (inet_ntop 1) 2 1 1 = Some (s', effs, r) \<and>
     map_option cl_balance (account s' (inet_ntop 1)) = Some (whole 999) \<and>
     map_option cl_balance (account s' (inet_ntop 2)) = Some (whole (2 ^ 24))"
proof -
  have i: "in_i32 1" by (simp add: in_i32_def)
  obtain s' effs r where p: "processTransaction rich_demo (inet_ntop 1) 2 1 1 = Some (s', effs, r)"
    using processTransaction_eq [OF rich_demo_facts(1) i] by (simp add: Let_def)
  show ?thesis
    using rounding_loses_money [OF rich_demo_facts(1) i p rich_demo_facts(2) _ _ _ _ rich_demo_facts(3)] p
    by simp
qed

section \<open>The acknowledgement\<close>

text \<open>The request thread decodes the request it was handed, processes it, and its last effect
  sends to the client an acknowledgement from which the client reads back its own sequence
  number, the status, the balance and the last accepted number.\<close>

lemma acknowledgement_readable:
  assumes "server_wf s" "request_thread s p addr = Some (s', effs)"
  defines "v \<equiv> int_of_u32 (ntohl (rq_value (data_req p)))"
    and "q \<equiv> int_of_u32 (ntohl (rq_seqn (data_req p)))"
  shows "\<exists>effs' r ack. processTransaction s (inet_ntop (sin_addr addr)) (rq_dest_addr (data_req p)) v q =
      Some (s', effs', r) \<and> effs = effs' @ [Send ack addr] \<and> length ack = PACKET_SIZE \<and>
      packet_label ack = Some TRANSACTION_ACK \<and>
      ntohl (ak_seqn (data_ack ack)) = ntohl (rq_seqn (data_req p)) \<and>
      status_of_code (ntohl (ak_status (data_ack ack))) = Some (rp_status r) \<and>
      ak_new_balance (data_ack ack) = rp_balance r \<and>
      int_of_u32 (ntohl (ak_last_req (data_ack ack))) = rp_last_req r"
proof -
  let ?a = "inet_ntop (sin_addr addr)" and ?d = "rq_dest_addr (data_req p)"
  have i: "in_i32 v" "in_i32 q" by (simp_all add: v_def q_def)
  obtain effs' r where p: "processTransaction s ?a ?d v q = Some (s', effs', r)"
    and e: "effs = effs' @ [Send (ack_packet q r) addr]"
    using assms(2) by (auto simp: request_thread_def v_def q_def Let_def bind_eq_Some_conv)
  note D = processTransactionD [OF assms(1) i(2) p]
  have wf': "server_wf s'" unfolding D(1) by (rule server_wf_outcome [OF assms(1) i])
  have bal: "canonical (rp_balance r)" and last: "in_i32 (rp_last_req r)"
    using D(3,4) account_valid [OF wf', of ?a]
    by (auto simp: balance_of_def last_req_of_def valid_client_def in_i32_def split: option.splits)
  define ack where "ack = ack_packet q r"
  have "valid_ack \<lparr>ak_seqn = htonl (u32_of_int q), ak_new_balance = rp_balance r,
      ak_status = htonl (status_code (rp_status r)), ak_last_req = htonl (u32_of_int (rp_last_req r))\<rparr>"
    using bal by (simp add: valid_ack_def)
  then have "data_ack ack = \<lparr>ak_seqn = htonl (u32_of_int q), ak_new_balance = rp_balance r,
      ak_status = htonl (status_code (rp_status r)), ak_last_req = htonl (u32_of_int (rp_last_req r))\<rparr>"
    "length ack = PACKET_SIZE" "packet_label ack = Some TRANSACTION_ACK"
    unfolding ack_def ack_packet_def by (simp_all add: c_ack.enc_width)
  then show ?thesis
    using p e last by (intro exI [of _ effs'] exI [of _ r] exI [of _ ack]) (simp add: ack_def q_def)
qed

end
