(* ===== verification/Replication.thy ===== *)
theory Replication
  imports Bank
begin

text \<open>
  Replication in server/Server.cpp: what a backup does with the updates it receives
  (\<open>handleStateUpdate\<close>, \<open>handleClientUpdate\<close>, \<open>handleHistoryEntry\<close>) and how the primary brings
  a new backup up to date (\<open>registerBackup\<close>).
\<close>

definition locked :: "effect list" where
  "locked = [WriterLock, WriterUnlock]"

section \<open>A backup applies an update\<close>

text \<open>\<open>find\<close>, and \<open>emplace_back\<close> and \<open>find\<close> again when the client is new.\<close>

definition find_or_emplace :: "client_dto vec \<Rightarrow> string \<Rightarrow> client_dto vec \<times> iter" where
  "find_or_emplace v ip =
     (let it = find_if (\<lambda>c. cl_address c = ip) v in
      if it = vec_end v then
        (let v' = push_back v (new_client ip) in (v', find_if (\<lambda>c. cl_address c = ip) v'))
      else (v, it))"

text \<open>
  The iterator of the source is taken before the second \<open>emplace_back\<close>, and used after it: the
  model's iterator remembers the block it points into.
\<close>

definition handleStateUpdate :: "server \<Rightarrow> packet \<Rightarrow> (server \<times> effect list) option" where
  "handleStateUpdate s p = (
     let d = data_state_update p;
         tx = su_transaction d;
         source_ip = c_string (su_source_ip d);
         dest_ip = c_string (su_dest_ip d);
         (v1, source_it) = find_or_emplace (clients s) source_ip;
         (v2, dest_it) = find_or_emplace v1 dest_ip
     in do {
       v3 \<leftarrow> write_at v2 source_it (\<lambda>c. c\<lparr>cl_balance := su_source_balance d\<rparr>);
       v4 \<leftarrow> write_at v3 dest_it (\<lambda>c. c\<lparr>cl_balance := su_dest_balance d\<rparr>);
       v5 \<leftarrow> write_at v4 source_it (\<lambda>c. c\<lparr>cl_last_req := tx_client_seqn tx\<rparr>);
       Some (s\<lparr>clients := v5,
               transaction_history := transaction_history s @ [tx],
               num_transactions := wrap32 (num_transactions s + 1),
               total_transferred := wrap32 (total_transferred s + tx_value tx),
               last_log_info :=
                 \<lparr>li_type = LOG_SUCCESS, li_transaction_id = tx_id tx, li_value = tx_value tx,
                  li_source_ip = source_ip, li_dest_ip = dest_ip\<rparr>\<rparr>,
             locked @ [Notify])
     })"

definition handleClientUpdate :: "server \<Rightarrow> packet \<Rightarrow> server \<times> effect list" where
  "handleClientUpdate s p =
     (let d = data_client_update p; ip = c_string (cu_ip d) in
      if findClient s ip = vec_end (clients s) then
        (s\<lparr>clients := push_back (clients s)
             \<lparr>cl_address = ip, cl_last_req = cu_last_request d, cl_balance = cu_balance d\<rparr>,
           total_balance := add_balance (total_balance s) (cu_balance d)\<rparr>,
         locked @ [Notify])
      else (s, locked))"

definition handleHistoryEntry :: "server \<Rightarrow> packet \<Rightarrow> server \<times> effect list" where
  "handleHistoryEntry s p =
     (let tx = data_history_entry p in
      (s\<lparr>transaction_history := transaction_history s @ [tx],
         num_transactions := wrap32 (num_transactions s + 1),
         total_transferred := wrap32 (total_transferred s + tx_value tx)\<rparr>,
       locked @ [Notify]))"

section \<open>The primary registers a backup\<close>

definition history_packet :: "transaction \<Rightarrow> packet" where
  "history_packet tx = mk_packet ADD_HISTORY_ENTRY (enc_transaction tx)"

text \<open>
  The snapshots are taken and the address is added under the writer lock; the packets are sent
  from the snapshots after it.
\<close>

definition snapshot_packets :: "server \<Rightarrow> packet list" where
  "snapshot_packets s =
     map client_update_packet (elems (clients s)) @ map history_packet (transaction_history s)"

definition registerBackup :: "server \<Rightarrow> sockaddr \<Rightarrow> server \<times> effect list" where
  "registerBackup s addr =
     (s\<lparr>backup_servers := backup_servers s @ [addr]\<rparr>,
      locked @ map (\<lambda>p. Send p addr) (snapshot_packets s))"

end
