(* ===== verification/Election.thy ===== *)
theory Election
  imports Replication
begin

text \<open>
  Failure detection and election in server/Server.cpp: the heartbeat threads, the election
  thread, the promotion, the handlers of the election packets, and how a server comes up as
  primary candidate or backup. A thread of the code is the sequence of the steps between its
  sleeps and waits; each step is a definition here.
\<close>

section \<open>Addresses and packets\<close>

definition broadcast_sockaddr :: "int \<Rightarrow> sockaddr" where
  "broadcast_sockaddr port =
     \<lparr>sin_family = AF_INET, sin_port = htons (word_of_int port),
      sin_addr = inet_pton_into BROADCAST_ADDR 0\<rparr>"

definition id_packet :: "packet_type \<Rightarrow> u32 \<Rightarrow> packet" where
  "id_packet t ident =
     mk_packet t (enc_req \<lparr>rq_dest_addr = 0, rq_value = htonl ident, rq_seqn = 0\<rparr>)"

definition bare_packet :: "packet_type \<Rightarrow> packet" where
  "bare_packet t = mk_packet t []"

definition packet_id :: "packet \<Rightarrow> u32" where
  "packet_id p = ntohl (rq_value (data_req p))"

lemma packet_id_id_packet [simp, codec_simps]: "packet_id (id_packet t ident) = ident"
  by (simp add: packet_id_def id_packet_def)

lemma packet_label_id_packet [simp, codec_simps]: "packet_label (id_packet t ident) = Some t"
  by (simp add: id_packet_def)

lemma packet_label_bare [simp, codec_simps]: "packet_label (bare_packet t) = Some t"
  by (simp add: bare_packet_def)

section \<open>The server's identifier\<close>

text \<open>
  \<open>getifaddrs\<close> returns the interfaces, or fails; an interface may have no address. The
  identifier is the first IPv4 address that is not a loopback address, in host order, or 0.
\<close>

record ifaddr =
  ifa_family :: u16
  ifa_s_addr :: u32

fun first_ip :: "ifaddr option list \<Rightarrow> u32" where
  "first_ip [] = 0"
| "first_ip (None # rest) = first_ip rest"
| "first_ip (Some i # rest) =
     (if ifa_family i = AF_INET \<and> drop_bit 24 (ntohl (ifa_s_addr i)) \<noteq> 127
      then ntohl (ifa_s_addr i) else first_ip rest)"

definition getIp :: "ifaddr option list option \<Rightarrow> u32" where
  "getIp interfaces = (case interfaces of None \<Rightarrow> 0 | Some l \<Rightarrow> first_ip l)"

section \<open>Heartbeats\<close>

text \<open>One round of the sender thread: \<open>None\<close> when the thread ends.\<close>

definition heartbeat_round :: "server \<Rightarrow> effect list option" where
  "heartbeat_round s =
     (if current_role s = PRIMARY
      then Some ([ReaderLock] @ send_all (bare_packet HEARTBEAT) (backup_servers s) @ [ReaderUnlock])
      else None)"

text \<open>
  The monitor thread. \<open>monitor_arm\<close> is the loop head up to the wait (\<open>None\<close>: the thread ends);
  \<open>monitor_wake\<close> is what follows the wait, which returns when \<open>primary_alive\<close> is set or after
  three seconds: \<open>True\<close> when the thread goes round its loop, \<open>False\<close> when it starts an election
  and ends.
\<close>

definition monitor_arm :: "server \<Rightarrow> server option" where
  "monitor_arm s = (if current_role s = BACKUP then Some (s\<lparr>primary_alive := False\<rparr>) else None)"

definition monitor_wake :: "server \<Rightarrow> bool" where
  "monitor_wake s = primary_alive s"

definition handleHeartbeatPacket :: "server \<Rightarrow> server" where
  "handleHeartbeatPacket s = (if current_role s = BACKUP then s\<lparr>primary_alive := True\<rparr> else s)"

section \<open>Promotion and election\<close>

definition announceNewPrimary :: "server \<Rightarrow> effect list" where
  "announceNewPrimary s =
     [Send (id_packet NEW_PRIMARY_ANNOUNCEMENT (server_id s)) (broadcast_sockaddr (socket_port s))]"

definition promoteToPrimary :: "server \<Rightarrow> server \<times> effect list" where
  "promoteToPrimary s =
     (if current_role s = BACKUP then
        (let s1 = s\<lparr>current_role := PRIMARY, backup_servers := []\<rparr>
         in (s1, locked @ [SpawnHeartbeatSender] @ announceNewPrimary s1))
      else (s, locked))"

text \<open>\<open>startElection\<close> before and after its sleep of 1500 ms.\<close>

definition election_begin :: "server \<Rightarrow> server \<times> effect list" where
  "election_begin s =
     (s\<lparr>election_in_progress := True, election_lost := False\<rparr>,
      [Send (id_packet ELECTION (server_id s)) (broadcast_sockaddr (socket_port s))])"

definition election_end :: "server \<Rightarrow> server \<times> effect list" where
  "election_end s =
     (let s1 = s\<lparr>election_in_progress := False\<rparr> in
      if \<not> election_lost s1 then promoteToPrimary s1 else (s1, [SpawnHeartbeatMonitor]))"

section \<open>The handlers of the election packets\<close>

definition handleElectionPacket :: "server \<Rightarrow> packet \<Rightarrow> sockaddr \<Rightarrow> server \<times> effect list" where
  "handleElectionPacket s p sender =
     (let sender_id = packet_id p in
      if sender_id > server_id s then
        (if election_in_progress s then s\<lparr>election_lost := True\<rparr> else s, [])
      else (s, [Send (id_packet ELECTION_ANSWER (server_id s)) sender]))"

definition handleElectionAnswerPacket :: "server \<Rightarrow> packet \<Rightarrow> server" where
  "handleElectionAnswerPacket s p =
     (if election_in_progress s \<and> packet_id p > server_id s then s\<lparr>election_lost := True\<rparr> else s)"

text \<open>\<open>handleElectionMsg\<close> is declared and defined, and no code calls it.\<close>

definition handleElectionMsg :: "server \<Rightarrow> packet \<Rightarrow> sockaddr \<Rightarrow> server \<times> effect list" where
  "handleElectionMsg s p sender =
     (if server_id s > packet_id p then
        (if \<not> election_in_progress s
         then (s\<lparr>election_in_progress := True\<rparr>,
               [Send (id_packet ELECTION_ANSWER (server_id s)) sender, SpawnElection])
         else (s, [Send (id_packet ELECTION_ANSWER (server_id s)) sender]))
      else (s, []))"

definition handleNewPrimaryAnnouncementPacket ::
    "server \<Rightarrow> packet \<Rightarrow> sockaddr \<Rightarrow> server \<times> effect list" where
  "handleNewPrimaryAnnouncementPacket s p sender =
     (let new_leader_id = packet_id p;
          s1 = (if election_in_progress s then s\<lparr>election_lost := True\<rparr> else s);
          s2 = (if current_role s1 = BACKUP then s1\<lparr>primary_alive := True\<rparr> else s1)
      in if new_leader_id \<noteq> server_id s2 then
           (s2\<lparr>current_role := BACKUP, backup_servers := [], primary_server_addr := sender\<rparr>,
            [Send (bare_packet REGISTER_BACKUP) sender])
         else (s2, []))"

definition sendDiscoveryAck :: "server \<Rightarrow> sockaddr \<Rightarrow> effect list" where
  "sendDiscoveryAck s addr =
     (if current_role s = PRIMARY then [Send (bare_packet DISCOVERY_ACK) addr] else [])"

section \<open>Coming up\<close>

definition initBackup :: "server \<Rightarrow> string \<Rightarrow> int \<Rightarrow> server \<times> effect list" where
  "initBackup s primary_ip port =
     (let addr = \<lparr>sin_family = AF_INET, sin_port = htons (word_of_int port),
                  sin_addr = inet_pton_into primary_ip 0\<rparr>
      in (s\<lparr>current_role := BACKUP, primary_server_addr := addr\<rparr>,
          [Send (bare_packet REGISTER_BACKUP) addr, SpawnHeartbeatMonitor]))"

definition initPrimary :: "server \<Rightarrow> server \<times> effect list" where
  "initPrimary s = (s\<lparr>current_role := BACKUP\<rparr>, [SpawnElection])"

end
