(* ===== verification/Udp.thy ===== *)
theory Udp
  imports ServerState
begin

text \<open>
  The socket classes of udp/ServerUDP.cpp and udp/ClientUDP.cpp as far as they manage their
  descriptor: the process's table of open descriptors, \<open>socket\<close>, \<open>close\<close>, and the methods, with
  the success of each system call as an argument. Datagrams themselves are the effect \<open>Send\<close>
  and \<open>recv_into\<close>.
\<close>

section \<open>Descriptors\<close>

type_synonym fd_table = "nat list"

text \<open>\<open>socket\<close> returns the lowest descriptor that is not open, or -1.\<close>

definition fresh_fd :: "fd_table \<Rightarrow> nat" where
  "fresh_fd fds = hd (filter (\<lambda>n. n \<notin> set fds) [0..<Suc (length fds)])"

definition sys_socket :: "bool \<Rightarrow> fd_table \<Rightarrow> int \<times> fd_table" where
  "sys_socket ok fds = (if ok then (int (fresh_fd fds), fresh_fd fds # fds) else (-1, fds))"

definition fd_open :: "int \<Rightarrow> fd_table \<Rightarrow> bool" where
  "fd_open fd fds \<longleftrightarrow> 0 \<le> fd \<and> nat fd \<in> set fds"

text \<open>Closing a descriptor that is not open fails with \<open>EBADF\<close>, which the code ignores.\<close>

definition sys_close :: "int \<Rightarrow> fd_table \<Rightarrow> fd_table" where
  "sys_close fd fds = (if fd_open fd fds then removeAll (nat fd) fds else fds)"

lemma fresh_fd_candidates: "filter (\<lambda>n. n \<notin> set fds) [0..<Suc (length fds)] \<noteq> []"
proof
  assume "filter (\<lambda>n. n \<notin> set fds) [0..<Suc (length fds)] = []"
  then have "{..<Suc (length fds)} \<subseteq> set fds" by (auto simp: filter_empty_conv simp del: upt_Suc)
  then have "card {..<Suc (length fds)} \<le> card (set fds)" by (intro card_mono) simp_all
  also have "\<dots> \<le> length fds" by (rule card_length)
  finally show False by simp
qed

lemma fresh_fd_not_open [simp]: "fresh_fd fds \<notin> set fds"
proof -
  have "fresh_fd fds \<in> set (filter (\<lambda>n. n \<notin> set fds) [0..<Suc (length fds)])"
    unfolding fresh_fd_def using fresh_fd_candidates by (rule hd_in_set)
  then show ?thesis by (simp del: upt_Suc)
qed

lemma fresh_fd_lowest:
  assumes "n \<notin> set fds" shows "fresh_fd fds \<le> n"
proof (cases "n < Suc (length fds)")
  case True
  let ?l = "filter (\<lambda>n. n \<notin> set fds) [0..<Suc (length fds)]"
  have "n \<in> set ?l" using True assms by (simp del: upt_Suc)
  moreover have "sorted ?l" by (intro sorted_wrt_filter) (simp del: upt_Suc)
  moreover obtain x xs where "?l = x # xs" using fresh_fd_candidates by (cases ?l) auto
  ultimately show ?thesis by (auto simp: fresh_fd_def simp del: upt_Suc)
next
  case False
  have "fresh_fd fds \<in> set (filter (\<lambda>n. n \<notin> set fds) [0..<Suc (length fds)])"
    unfolding fresh_fd_def using fresh_fd_candidates by (rule hd_in_set)
  with False show ?thesis by (auto simp del: upt_Suc)
qed

text \<open>A descriptor below every other free one is the next that \<open>socket\<close> returns.\<close>

lemma fresh_fd_eq:
  assumes "n \<notin> set fds" "\<And>m. m < n \<Longrightarrow> m \<in> set fds" shows "fresh_fd fds = n"
  using assms fresh_fd_lowest [of n fds] fresh_fd_not_open [of fds]
  by (meson le_antisym not_le)

section \<open>ServerUDP\<close>

type_synonym udp = "int \<times> fd_table"  \<comment> \<open>\<open>sockfd\<close> and the process's table\<close>

definition ServerUDP_createSocket :: "bool \<Rightarrow> udp \<Rightarrow> bool \<times> udp" where
  "ServerUDP_createSocket ok u = (let (fd, fds) = sys_socket ok (snd u) in (0 \<le> fd, (fd, fds)))"

definition ServerUDP_configureBroadcast :: "bool \<Rightarrow> udp \<Rightarrow> udp" where
  "ServerUDP_configureBroadcast ok u =
     (if fd_open (fst u) (snd u) \<and> ok then u else (fst u, sys_close (fst u) (snd u)))"

definition ServerUDP_bindSocket :: "bool \<Rightarrow> udp \<Rightarrow> bool \<times> udp" where
  "ServerUDP_bindSocket ok u =
     (if fd_open (fst u) (snd u) \<and> ok then (True, u) else (False, (fst u, sys_close (fst u) (snd u))))"

text \<open>\<open>INADDR_ANY\<close> is 0: the address that the server binds.\<close>

definition ServerUDP_setUpServerAddress :: "int \<Rightarrow> sockaddr" where
  "ServerUDP_setUpServerAddress port =
     zero_sockaddr\<lparr>sin_family := AF_INET, sin_addr := 0, sin_port := htons (word_of_int port)\<rparr>"

text \<open>\<open>setsockopt(SO_RCVTIMEO)\<close> on an open socket succeeds; otherwise the method throws.\<close>

definition ServerUDP_setReceiveTimeout :: "udp \<Rightarrow> string + udp" where
  "ServerUDP_setReceiveTimeout u =
     (if fd_open (fst u) (snd u) then Inr u else Inl ''Erro ao configurar timeout de rececao.'')"

text \<open>
  \<open>closeSocket\<close>, which is also the destructor: the descriptors that it hands to \<open>close\<close>, and the
  object after it. The object keeps the number of a descriptor that is not its own any more.
\<close>

definition closeSocket_calls :: "udp \<Rightarrow> int list" where
  "closeSocket_calls u = (if 0 \<le> fst u then [fst u] else [])"

definition udp_closeSocket :: "udp \<Rightarrow> udp" where
  "udp_closeSocket u = (fst u, foldl (\<lambda>t fd. sys_close fd t) (snd u) (closeSocket_calls u))"

text \<open>
  The calls of \<open>Server::init\<close>: only the result of \<open>createSocket\<close> is looked at. Whether a \<open>bind\<close>
  succeeds is up to the operating system, as a function of the address.
\<close>

definition server_socket_up ::
    "bool \<Rightarrow> bool \<Rightarrow> (sockaddr \<Rightarrow> bool) \<Rightarrow> int \<Rightarrow> fd_table \<Rightarrow> string + udp" where
  "server_socket_up create_ok broadcast_ok bind_ok port fds =
     (case ServerUDP_createSocket create_ok (-1, fds) of (created, u1) \<Rightarrow>
        if \<not> created then Inl ''Erro ao criar o socket do servidor.''
        else (case ServerUDP_bindSocket (bind_ok (ServerUDP_setUpServerAddress port))
                     (ServerUDP_configureBroadcast broadcast_ok u1) of (bound, u2) \<Rightarrow> Inr u2))"

section \<open>ClientUDP\<close>

definition ClientUDP_createSocket :: "bool \<Rightarrow> udp \<Rightarrow> bool \<times> udp" where
  "ClientUDP_createSocket ok u = (let (fd, fds) = sys_socket ok (snd u) in (0 \<le> fd, (fd, fds)))"

definition ClientUDP_setupBroadcast :: "bool \<Rightarrow> bool \<Rightarrow> udp \<Rightarrow> bool \<times> udp" where
  "ClientUDP_setupBroadcast create_ok option_ok u =
     (case ClientUDP_createSocket create_ok u of (created, u1) \<Rightarrow>
        if \<not> created then (False, u1)
        else if option_ok then (True, u1)
        else (False, (fst u1, sys_close (fst u1) (snd u1))))"

lemma sys_socket_open:
  assumes "sys_socket True fds = (fd, fds')" shows "fd_open fd fds'" "\<not> fd_open fd fds"
    "sys_close fd fds' = fds" "0 \<le> fd"
  using assms by (auto simp: sys_socket_def fd_open_def sys_close_def)

text \<open>\<open>sendPacket\<close> of either class, given whether \<open>sendto\<close> succeeds.\<close>

definition sendPacket :: "bool \<Rightarrow> packet \<Rightarrow> sockaddr \<Rightarrow> bool \<times> effect list" where
  "sendPacket ok p dest = (ok, if ok then [Send p dest] else [])"

text \<open>
  \<open>sendMessage\<close>, which nothing calls: the datagram, the bytes of the text without a terminator, and
  the line printed. The server's version reports a failure only, and the client's sends to its
  member \<open>server_addr\<close>, which no method of the class sets.
\<close>

definition ServerUDP_sendMessage ::
    "bool \<Rightarrow> string \<Rightarrow> sockaddr \<Rightarrow> bool \<times> (string \<times> sockaddr) list \<times> string list" where
  "ServerUDP_sendMessage ok message dest_addr =
     (if ok then (True, [(message, dest_addr)], [])
      else (False, [], [''Erro ao enviar mensagem de texto'']))"

definition ClientUDP_sendMessage ::
    "bool \<Rightarrow> sockaddr \<Rightarrow> string \<Rightarrow> bool \<times> (string \<times> sockaddr) list \<times> string list" where
  "ClientUDP_sendMessage ok server_addr message =
     (if ok then (True, [(message, server_addr)], [''Mensagem enviada: '' @ message])
      else (False, [], [''Erro ao enviar mensagem'']))"

lemma server_socket_up_cases:
  obtains "\<not> c" "server_socket_up c b d port fds = Inl ''Erro ao criar o socket do servidor.''"
  | u where "c" "server_socket_up c b d port fds = Inr u" "0 \<le> fst u"
      "fd_open (fst u) (snd u) \<longleftrightarrow> b \<and> d (ServerUDP_setUpServerAddress port)"
proof (cases c)
  case False
  then show ?thesis
    by (intro that(1)) (simp_all add: server_socket_up_def ServerUDP_createSocket_def sys_socket_def)
next
  case True
  obtain fd fds' where f: "sys_socket True fds = (fd, fds')" by (cases "sys_socket True fds")
  note o = sys_socket_open [OF f]
  show ?thesis
    using True f o that(2) by (cases b; cases "d (ServerUDP_setUpServerAddress port)")
      (simp_all add: server_socket_up_def ServerUDP_createSocket_def ServerUDP_configureBroadcast_def
        ServerUDP_bindSocket_def sys_close_def)
qed

end
