(* ===== verification/ServerLoop.thy ===== *)
theory ServerLoop
  imports Election Udp
begin

text \<open>
  The server process: the search for a primary at start-up
  (\<open>run_discovery_service_server\<close>), the answer to a client's discovery
  (\<open>handleDiscoveryPacket\<close>), both of discovery/discoveryServer.cpp, and \<open>Server::init\<close> with its
  receive loop and the \<open>switch\<close> over the packet type.
\<close>

section \<open>Discovery\<close>

definition printClients :: "effect list" where
  "printClients = [ReaderLock, ReaderUnlock]"

definition handleDiscoveryPacket :: "server \<Rightarrow> sockaddr \<Rightarrow> server \<times> effect list" where
  "handleDiscoveryPacket s client_addr =
     (if current_role s \<noteq> PRIMARY then (s, [])
      else (case addClient s (inet_ntop (sin_addr client_addr)) of (s1, effs) \<Rightarrow>
              (s1, effs @ [Send (bare_packet DISCOVERY_ACK) client_addr] @ printClients)))"

text \<open>
  The search loop. Each iteration reads the clock (seconds since the start) and then receives,
  with a timeout: the environment supplies, per iteration, the elapsed seconds and the datagram
  with its sender, or \<open>None\<close> for a failed or timed-out receive. \<open>None\<close> as result: the
  environment ended while the loop was still running.
\<close>

type_synonym datagram = "byte list \<times> sockaddr"

fun discovery_loop :: "packet \<Rightarrow> (nat \<times> datagram option) list \<Rightarrow> string option" where
  "discovery_loop buf [] = None"
| "discovery_loop buf ((elapsed, received) # env) =
     (if elapsed > 2 then Some []
      else case received of
        None \<Rightarrow> Some []
      | Some (bytes, sender) \<Rightarrow>
          (case recv_into buf bytes of (buf', n) \<Rightarrow>
             if n > 0 then
               (if packet_label buf' = Some DISCOVERY_ACK then Some (inet_ntop (sin_addr sender))
                else discovery_loop buf' env)
             else Some []))"

definition run_discovery_service_server ::
    "int \<Rightarrow> packet \<Rightarrow> (nat \<times> datagram option) list \<Rightarrow> (string \<times> effect list) option" where
  "run_discovery_service_server port buf env =
     map_option
       (\<lambda>ip. (ip, replicate 3 (Send (bare_packet SERVER_DISCOVERY) (broadcast_sockaddr port))))
       (discovery_loop buf env)"

section \<open>The switch over the packet type\<close>

definition server_receive :: "server \<Rightarrow> packet \<Rightarrow> sockaddr \<Rightarrow> (server \<times> effect list) option" where
  "server_receive s p client_addr =
     (case packet_label p of
        Some TRANSACTION_REQ \<Rightarrow>
          Some (s, if current_role s = PRIMARY then handleTransactionRequest p client_addr else [])
      | Some DISCOVERY \<Rightarrow> Some (handleDiscoveryPacket s client_addr)
      | Some DISCOVERY_ACK \<Rightarrow> Some (s, [])
      | Some REGISTER_BACKUP \<Rightarrow>
          Some (if current_role s = PRIMARY then registerBackup s client_addr else (s, []))
      | Some ADD_CLIENT_UPDATE \<Rightarrow>
          Some (if current_role s = BACKUP then handleClientUpdate s p else (s, []))
      | Some STATE_UPDATE \<Rightarrow>
          (if current_role s = BACKUP then handleStateUpdate s p else Some (s, []))
      | Some ADD_HISTORY_ENTRY \<Rightarrow>
          Some (if current_role s = BACKUP then handleHistoryEntry s p else (s, []))
      | Some HEARTBEAT \<Rightarrow> Some (handleHeartbeatPacket s, [])
      | Some SERVER_DISCOVERY \<Rightarrow> Some (s, sendDiscoveryAck s client_addr)
      | Some NEW_PRIMARY_ANNOUNCEMENT \<Rightarrow>
          Some (handleNewPrimaryAnnouncementPacket s p client_addr)
      | Some ELECTION \<Rightarrow> Some (handleElectionPacket s p client_addr)
      | Some ELECTION_ANSWER \<Rightarrow> Some (handleElectionAnswerPacket s p, [])
      | _ \<Rightarrow> Some (s, []))"

text \<open>
  One iteration of the loop of \<open>init\<close>: the received datagram overwrites the front of the buffer
  that the loop keeps, so a short one leaves the rest of the packet before it in place.
\<close>

definition serve ::
    "server \<times> packet \<Rightarrow> datagram option \<Rightarrow> ((server \<times> packet) \<times> effect list) option" where
  "serve sb received =
     (case received of
        None \<Rightarrow> Some (sb, [])
      | Some (bytes, sender) \<Rightarrow>
          (case recv_into (snd sb) bytes of (buf, n) \<Rightarrow>
             if n = 0 then Some ((fst sb, buf), [])
             else map_option (\<lambda>(s, effs). ((s, buf), effs)) (server_receive (fst sb) buf sender)))"

text \<open>
  \<open>init\<close> up to its loop. The operating system decides whether the socket is created, whether
  broadcasting is configured and whether the \<open>bind\<close> succeeds. A \<open>runtime_error\<close> is on the left;
  \<open>setReceiveTimeout\<close> throws one inside the search when the socket has been closed.
\<close>

definition server_start ::
    "server \<Rightarrow> bool \<Rightarrow> bool \<Rightarrow> (sockaddr \<Rightarrow> bool) \<Rightarrow> fd_table \<Rightarrow> int \<Rightarrow> packet \<Rightarrow> (nat \<times> datagram option) list \<Rightarrow>
     (string + server \<times> effect list) option" where
  "server_start s create_ok broadcast_ok bind_ok fds port buf env =
     (case server_socket_up create_ok broadcast_ok bind_ok port fds of
        Inl err \<Rightarrow> Some (Inl err)
      | Inr u \<Rightarrow>
          (case ServerUDP_setReceiveTimeout u of
             Inl err \<Rightarrow> Some (Inl err)
           | Inr _ \<Rightarrow> do {
               (primary_ip, sends) \<leftarrow> run_discovery_service_server port buf env;
               let (s1, effs) =
                 (if primary_ip \<noteq> [] then initBackup s primary_ip port else initPrimary s);
               Some (Inr (s1, sends @ effs))
             }))"

end
