(* ===== verification/ReplicaLemmas.thy ===== *)
theory ReplicaLemmas
  imports BankRuns ServerLoop
begin

text \<open>
  What the handlers of a backup compute, in terms of the rows of its client table, and what
  becomes of a stream of update packets. The relation \<open>replica_of\<close> is the contract of the
  replication: the backup holds the primary's clients, history and counters.
\<close>

section \<open>Streams of packets\<close>

definition receive_all :: "server \<Rightarrow> sockaddr \<Rightarrow> packet list \<Rightarrow> server option" where
  "receive_all s sender ps = run_steps (\<lambda>s p. map_option fst (server_receive s p sender)) s ps"

lemma receive_all_Nil [simp]: "receive_all s sender [] = Some s"
  by (simp add: receive_all_def)

lemma receive_all_Cons [simp]:
  "receive_all s sender (p # ps) =
     Option.bind (server_receive s p sender) (\<lambda>(s', effs). receive_all s' sender ps)"
  by (auto simp: receive_all_def split: option.splits)

lemma receive_all_append:
  "receive_all s sender (ps @ qs) =
     Option.bind (receive_all s sender ps) (\<lambda>s'. receive_all s' sender qs)"
  by (simp add: receive_all_def run_steps_append)

fun sends_to :: "sockaddr \<Rightarrow> effect list \<Rightarrow> packet list" where
  "sends_to addr [] = []"
| "sends_to addr (Send p a # es) = (if a = addr then p # sends_to addr es else sends_to addr es)"
| "sends_to addr (_ # es) = sends_to addr es"

lemma sends_to_append [simp]: "sends_to addr (xs @ ys) = sends_to addr xs @ sends_to addr ys"
  by (induction addr xs rule: sends_to.induct) auto

lemma sends_to_send_all [simp]: "sends_to addr (send_all p as) = replicate (count_list as addr) p"
  by (induction as) (auto simp: send_all_def)

lemma sends_to_Notify [simp]: "sends_to addr (if b then [Notify] else []) = []"
  by simp

section \<open>handleStateUpdate\<close>

definition update_row :: "state_update_data \<Rightarrow> client_dto \<Rightarrow> client_dto" where
  "update_row d r =
     (let source = c_string (su_source_ip d); dest = c_string (su_dest_ip d);
          r1 = (if cl_address r = source then r\<lparr>cl_balance := su_source_balance d\<rparr> else r);
          r2 = (if cl_address r = dest then r1\<lparr>cl_balance := su_dest_balance d\<rparr> else r1)
      in if cl_address r = source then r2\<lparr>cl_last_req := tx_client_seqn (su_transaction d)\<rparr> else r2)"

definition recorded :: "server \<Rightarrow> state_update_data \<Rightarrow> server" where
  "recorded s d =
     s\<lparr>transaction_history := transaction_history s @ [su_transaction d],
       num_transactions := wrap32 (num_transactions s + 1),
       total_transferred := wrap32 (total_transferred s + tx_value (su_transaction d)),
       last_log_info :=
         \<lparr>li_type = LOG_SUCCESS, li_transaction_id = tx_id (su_transaction d),
          li_value = tx_value (su_transaction d), li_source_ip = c_string (su_source_ip d),
          li_dest_ip = c_string (su_dest_ip d)\<rparr>\<rparr>"

lemma update_row_address [simp]: "cl_address (update_row d r) = cl_address r"
  by (simp add: update_row_def Let_def)

lemma find_or_emplace_known:
  assumes "vec_get cl_address v ip = Some c"
  shows "find_or_emplace v ip = (v, find_if (\<lambda>c. cl_address c = ip) v)"
  using assms by (simp add: find_or_emplace_def)

text \<open>Both clients known: balances and number are overwritten in place.\<close>

lemma handleStateUpdate_known:
  fixes p :: packet
  defines "d \<equiv> data_state_update p"
  assumes wf: "table_wf cl_address (clients s)"
    and a: "account s (c_string (su_source_ip d)) = Some x"
    and b: "account s (c_string (su_dest_ip d)) = Some y"
  shows "handleStateUpdate s p =
    Some (recorded (s\<lparr>clients := (clients s)\<lparr>elems := map (update_row d) (elems (clients s))\<rparr>\<rparr>) d,
          locked @ [Notify])"
proof -
  let ?a = "c_string (su_source_ip d)" and ?b = "c_string (su_dest_ip d)"
  let ?f = "\<lambda>c. c\<lparr>cl_balance := su_source_balance d\<rparr>"
  let ?g = "\<lambda>c. c\<lparr>cl_balance := su_dest_balance d\<rparr>"
  let ?h = "\<lambda>c. c\<lparr>cl_last_req := tx_client_seqn (su_transaction d)\<rparr>"
  have w: "Option.bind (write_at (clients s) (findClient s ?a) ?f) (\<lambda>v1.
      Option.bind (write_at v1 (findClient s ?b) ?g) (\<lambda>v2. write_at v2 (findClient s ?a) ?h)) =
    Some ((clients s)\<lparr>elems := map (update_row d) (elems (clients s))\<rparr>)"
    using write_three [OF wf a [unfolded account_def] b [unfolded account_def], of ?f ?g ?h]
    by (simp add: findClient_def update_row_def Let_def)
  have "handleStateUpdate s p =
      Option.bind (Option.bind (write_at (clients s) (findClient s ?a) ?f) (\<lambda>v1.
      Option.bind (write_at v1 (findClient s ?b) ?g) (\<lambda>v2. write_at v2 (findClient s ?a) ?h)))
      (\<lambda>v5. Some (recorded (s\<lparr>clients := v5\<rparr>) d, locked @ [Notify]))"
    using a b unfolding handleStateUpdate_def d_def [symmetric] account_def
    by (simp add: find_or_emplace_known findClient_def recorded_def bind_assoc Let_def)
  then show ?thesis unfolding w by simp
qed

section \<open>handleClientUpdate\<close>

lemma handleClientUpdate_known:
  assumes "account s (c_string (cu_ip (data_client_update p))) = Some c"
  shows "handleClientUpdate s p = (s, locked)"
  using assms by (simp add: handleClientUpdate_def Let_def)

lemma handleClientUpdate_new:
  assumes "account s (c_string (cu_ip (data_client_update p))) = None"
  shows "handleClientUpdate s p =
    (s\<lparr>clients := push_back (clients s)
         \<lparr>cl_address = c_string (cu_ip (data_client_update p)),
          cl_last_req = cu_last_request (data_client_update p),
          cl_balance = cu_balance (data_client_update p)\<rparr>,
       total_balance := add_balance (total_balance s) (cu_balance (data_client_update p))\<rparr>,
     locked @ [Notify])"
  using assms by (simp add: handleClientUpdate_def Let_def)

section \<open>The packets of the primary, as the backup reads them\<close>

definition dotted :: "string \<Rightarrow> bool" where
  "dotted ip \<longleftrightarrow> (\<exists>a. ip = inet_ntop a)"

lemma c_string_ip_array_dotted [simp]: "dotted ip \<Longrightarrow> c_string (ip_array ip) = ip"
  by (auto simp: dotted_def)

lemma dotted_inet_ntop [simp]: "dotted (inet_ntop a)"
  by (auto simp: dotted_def)

lemma data_client_update_packet:
  assumes "valid_client c"
  shows "data_client_update (client_update_packet c) =
    \<lparr>cu_ip = ip_array (cl_address c), cu_balance = cl_balance c, cu_last_request = cl_last_req c\<rparr>"
  unfolding client_update_packet_def
  using assms by (intro data_client_update_mk) (simp add: valid_client_update_def valid_client_def)

lemma data_state_update_packet:
  assumes "valid_transaction tx" "valid_client c" "valid_client d"
  shows "data_state_update (state_update_packet tx c d) =
    \<lparr>su_transaction = tx, su_source_ip = ip_array (cl_address c), su_source_balance = cl_balance c,
     su_dest_ip = ip_array (cl_address d), su_dest_balance = cl_balance d\<rparr>"
  unfolding state_update_packet_def
  using assms by (intro data_state_update_mk) (simp add: valid_state_update_def valid_client_def)

lemma data_history_packet:
  "valid_transaction tx \<Longrightarrow> data_history_entry (history_packet tx) = tx"
  by (simp add: history_packet_def)

lemma packet_labels [simp, codec_simps]:
  "packet_label (client_update_packet c) = Some ADD_CLIENT_UPDATE"
  "packet_label (state_update_packet tx c d) = Some STATE_UPDATE"
  "packet_label (history_packet tx) = Some ADD_HISTORY_ENTRY"
  by (simp_all add: client_update_packet_def state_update_packet_def history_packet_def)

section \<open>The contract\<close>

definition replica_of :: "server \<Rightarrow> server \<Rightarrow> bool" where
  "replica_of p b \<longleftrightarrow>
     elems (clients b) = elems (clients p) \<and>
     transaction_history b = transaction_history p \<and>
     num_transactions b = num_transactions p \<and>
     total_transferred b = total_transferred p \<and>
     total_balance b = total_balance p"

lemma account_same_elems:
  assumes "elems (clients b) = elems (clients p)" shows "account b ip = account p ip"
  using assms by (simp add: account_def vec_get_def deref_def find_if_def vec_size_def)

definition dotted_clients :: "server \<Rightarrow> bool" where
  "dotted_clients s \<longleftrightarrow> (\<forall>c\<in>set (elems (clients s)). dotted (cl_address c))"

text \<open>Primary and backup of a live replication, the backup registered once under \<open>addr\<close>.\<close>

definition replicating :: "sockaddr \<Rightarrow> server \<times> server \<Rightarrow> bool" where
  "replicating addr pb \<longleftrightarrow>
     (case pb of (p, b) \<Rightarrow>
        server_wf p \<and> dotted_clients p \<and> current_role p = PRIMARY \<and>
        count_list (backup_servers p) addr = 1 \<and>
        table_wf cl_address (clients b) \<and> current_role b = BACKUP \<and> replica_of p b)"

definition pair_step ::
    "sockaddr \<Rightarrow> sockaddr \<Rightarrow> server \<times> server \<Rightarrow> bank_op \<Rightarrow> (server \<times> server) option" where
  "pair_step addr sender pb x = do {
     (p', effs) \<leftarrow> bank_emit (fst pb) x;
     b' \<leftarrow> receive_all (snd pb) sender (sends_to addr effs);
     Some (p', b')
   }"

end
