(* ===== verification/Snapshot.thy ===== *)
theory Snapshot
  imports ReplicaLemmas Ledger
begin

text \<open>
  What the packets of \<open>registerBackup\<close> do to the backup that receives them: the client packets
  add the rows that are missing, the history packets append entry by entry, whatever the backup
  already has.
\<close>

section \<open>Client packets\<close>

definition with_rows :: "server \<Rightarrow> client_dto list \<Rightarrow> server" where
  "with_rows s cs =
     s\<lparr>clients := foldl push_back (clients s) cs,
       total_balance := foldl (\<lambda>t c. add_balance t (cl_balance c)) (total_balance s) cs\<rparr>"

lemma with_rows_Nil [simp]: "with_rows s [] = s"
  by (simp add: with_rows_def)

lemma with_rows_Cons:
  "with_rows (s\<lparr>clients := push_back (clients s) c,
                total_balance := add_balance (total_balance s) (cl_balance c)\<rparr>) cs =
   with_rows s (c # cs)"
  by (simp add: with_rows_def)

lemma elems_foldl_push_back [simp]: "elems (foldl push_back v cs) = elems v @ cs"
  by (induction cs arbitrary: v) simp_all

lemma vec_wf_foldl [simp]: "vec_wf v \<Longrightarrow> vec_wf (foldl push_back v cs)"
  by (induction cs arbitrary: v) simp_all

definition sendable :: "client_dto list \<Rightarrow> bool" where
  "sendable cs \<longleftrightarrow> (\<forall>c\<in>set cs. valid_client c \<and> dotted (cl_address c))"

lemma sendable_Cons [simp]:
  "sendable (c # cs) \<longleftrightarrow> valid_client c \<and> dotted (cl_address c) \<and> sendable cs"
  by (simp add: sendable_def)

lemma receive_client:
  assumes "valid_client c" "dotted (cl_address c)" "current_role s = BACKUP"
  shows "server_receive s (client_update_packet c) sender =
    Some (if account s (cl_address c) = None
          then (s\<lparr>clients := push_back (clients s) c,
                  total_balance := add_balance (total_balance s) (cl_balance c)\<rparr>, locked @ [Notify])
          else (s, locked))"
proof -
  have d: "data_client_update (client_update_packet c) =
      \<lparr>cu_ip = ip_array (cl_address c), cu_balance = cl_balance c, cu_last_request = cl_last_req c\<rparr>"
    by (rule data_client_update_packet [OF assms(1)])
  show ?thesis
  proof (cases "account s (cl_address c)")
    case None
    then show ?thesis
      using handleClientUpdate_new [of s "client_update_packet c"] assms(2,3) unfolding d
      by (cases c) (simp add: server_receive_def)
  next
    case (Some x)
    then show ?thesis
      using handleClientUpdate_known [of s "client_update_packet c" x] assms(2,3) unfolding d
      by (simp add: server_receive_def)
  qed
qed

lemma account_None_iff:
  "account s ip = None \<longleftrightarrow> ip \<notin> cl_address ` set (elems (clients s))"
  unfolding account_def vec_get_None_iff find_if_end_iff by auto

lemma receive_new_clients:
  assumes "sendable cs" "distinct (map cl_address cs)" "current_role s = BACKUP"
    and "\<forall>c\<in>set cs. account s (cl_address c) = None"
  shows "receive_all s sender (map client_update_packet cs) = Some (with_rows s cs)"
  using assms
proof (induction cs arbitrary: s)
  case (Cons c cs)
  let ?s = "s\<lparr>clients := push_back (clients s) c,
              total_balance := add_balance (total_balance s) (cl_balance c)\<rparr>"
  have "\<forall>d\<in>set cs. account ?s (cl_address d) = None"
    using Cons.prems by (auto simp: account_None_iff image_iff)
  then have "receive_all ?s sender (map client_update_packet cs) = Some (with_rows ?s cs)"
    using Cons.prems by (intro Cons.IH) auto
  then show ?case using Cons.prems receive_client [of c s sender] by (simp add: with_rows_Cons)
qed simp

lemma receive_known_clients:
  assumes "sendable cs" "current_role s = BACKUP" "\<forall>c\<in>set cs. account s (cl_address c) \<noteq> None"
  shows "receive_all s sender (map client_update_packet cs) = Some s"
  using assms
proof (induction cs)
  case (Cons c cs)
  then show ?case using receive_client [of c s sender] by auto
qed simp

section \<open>History packets\<close>

definition with_history :: "server \<Rightarrow> transaction list \<Rightarrow> server" where
  "with_history s h =
     s\<lparr>transaction_history := transaction_history s @ h,
       num_transactions := foldl (\<lambda>n t. wrap32 (n + 1)) (num_transactions s) h,
       total_transferred := foldl (\<lambda>n t. wrap32 (n + tx_value t)) (total_transferred s) h\<rparr>"

lemma receive_history:
  assumes "\<forall>t\<in>set h. valid_transaction t" "current_role s = BACKUP"
  shows "receive_all s sender (map history_packet h) = Some (with_history s h)"
  using assms
proof (induction h arbitrary: s)
  case (Cons t h)
  then show ?case
    by (simp add: server_receive_def handleHistoryEntry_def data_history_packet with_history_def)
qed (simp add: with_history_def)

lemma counters_wrap:
  "foldl (\<lambda>n t. wrap32 (n + 1)) (wrap32 k) h = wrap32 (k + int (length h))"
  "foldl (\<lambda>n t. wrap32 (n + tx_value t)) (wrap32 k) h = wrap32 (k + sum_list (map tx_value h))"
  by (induction h arbitrary: k) (simp_all add: ac_simps)

section \<open>The snapshot\<close>

lemma snapshot_receive:
  assumes "server_wf p" "dotted_clients p" "current_role b = BACKUP"
    and "receive_all b sender (map client_update_packet (elems (clients p))) = Some b1"
    and "current_role b1 = BACKUP"
  shows "receive_all b sender (snapshot_packets p) = Some (with_history b1 (transaction_history p))"
  using assms receive_history [of "transaction_history p" b1 sender]
  by (simp add: snapshot_packets_def receive_all_append server_wf_def)

lemma sendable_clients: "server_wf p \<Longrightarrow> dotted_clients p \<Longrightarrow> sendable (elems (clients p))"
  by (auto simp: sendable_def server_wf_def dotted_clients_def)

text \<open>A backup that has none of the clients and no history.\<close>

definition fresh_backup :: "server \<Rightarrow> bool" where
  "fresh_backup b \<longleftrightarrow>
     elems (clients b) = [] \<and> vec_wf (clients b) \<and> transaction_history b = [] \<and>
     num_transactions b = 0 \<and> total_transferred b = 0 \<and> total_balance b = 0 \<and>
     current_role b = BACKUP"

lemma snapshot_fresh:
  assumes "server_wf p" "dotted_clients p" "fresh_backup b"
  shows "receive_all b sender (snapshot_packets p) =
    Some (with_history (with_rows b (elems (clients p))) (transaction_history p))"
proof (rule snapshot_receive [OF assms(1,2)])
  show "receive_all b sender (map client_update_packet (elems (clients p))) =
      Some (with_rows b (elems (clients p)))"
    using assms sendable_clients [OF assms(1,2)]
    by (intro receive_new_clients)
      (auto simp: server_wf_def table_wf_def fresh_backup_def account_None_iff)
qed (use assms in \<open>simp_all add: fresh_backup_def with_rows_def\<close>)

lemma snapshot_known:
  assumes "server_wf p" "dotted_clients p" "current_role b = BACKUP"
    and "\<forall>c\<in>set (elems (clients p)). account b (cl_address c) \<noteq> None"
  shows "receive_all b sender (snapshot_packets p) = Some (with_history b (transaction_history p))"
  by (rule snapshot_receive [OF assms(1-3) receive_known_clients [OF sendable_clients [OF assms(1,2)]
          assms(3,4)] assms(3)])

section \<open>The total of the balances\<close>

text \<open>Within the bound of the ledger the backup's sum over the snapshot is exact.\<close>

lemma fold_add_balance:
  assumes "\<forall>c\<in>set cs. \<exists>n\<ge>0. cl_balance c = whole n" "0 \<le> t"
    and "t + sum_list (map (\<lambda>c. f32_to_int (cl_balance c)) cs) < 2 ^ 24"
    and "\<forall>c\<in>set cs. \<forall>n. cl_balance c = whole n \<longrightarrow> n < 2 ^ 24"
  shows "foldl (\<lambda>t c. add_balance t (cl_balance c)) t cs =
    t + sum_list (map (\<lambda>c. f32_to_int (cl_balance c)) cs)"
  using assms
proof (induction cs arbitrary: t)
  case (Cons c cs)
  obtain n where n: "cl_balance c = whole n" "0 \<le> n" using Cons.prems(1) by auto
  with Cons.prems(4) have n24: "n < 2 ^ 24" by simp
  have nn: "f32_to_int (cl_balance c) = n" using n n24 by (simp add: in_i32_def)
  have "0 \<le> sum_list (map (\<lambda>c. f32_to_int (cl_balance c)) cs)"
  proof (rule sum_list_nonneg)
    fix x assume "x \<in> set (map (\<lambda>c. f32_to_int (cl_balance c)) cs)"
    then obtain d where d: "d \<in> set cs" "x = f32_to_int (cl_balance d)" by auto
    with Cons.prems(1) obtain m where m: "0 \<le> m" "cl_balance d = whole m" by auto
    moreover from this(2) d(1) Cons.prems(4) have "m < 2 ^ 24" by simp
    ultimately show "0 \<le> x" using d by (simp add: in_i32_def)
  qed
  then have "t + n < 2 ^ 24" using Cons.prems(3) nn by simp
  then have "add_balance t (cl_balance c) = t + n"
    using n Cons.prems(2) by (simp add: add_balance_def in_i32_def)
  moreover have "foldl (\<lambda>t c. add_balance t (cl_balance c)) (t + n) cs =
      t + n + sum_list (map (\<lambda>c. f32_to_int (cl_balance c)) cs)"
    using Cons.prems n nn by (intro Cons.IH) (auto simp: add.assoc)
  ultimately show ?case using nn by simp
qed simp

lemma ledger_row_balance:
  assumes "ledger_inv n p" "c \<in> set (elems (clients p))"
  shows "cl_balance c = whole (ledger_balance (transaction_history p) (cl_address c))"
    "f32_to_int (cl_balance c) = ledger_balance (transaction_history p) (cl_address c)"
proof -
  show "cl_balance c = whole (ledger_balance (transaction_history p) (cl_address c))"
    using assms by (simp add: ledger_inv_def row_inv_def)
  then show "f32_to_int (cl_balance c) = ledger_balance (transaction_history p) (cl_address c)"
    using ledger_balance_bounds [OF assms] by (simp add: in_i32_def)
qed

lemma ledger_total:
  assumes "ledger_inv n p"
  shows "foldl (\<lambda>t c. add_balance t (cl_balance c)) 0 (elems (clients p)) = total_balance p"
proof -
  have map_eq: "sum_list (map (\<lambda>c. f32_to_int (cl_balance c)) (elems (clients p))) = ledger_sum p"
    unfolding ledger_sum_def using ledger_row_balance(2) [OF assms]
    by (intro arg_cong [of _ _ sum_list]) simp
  have lim: "1000 * int (client_count p) < 2 ^ 24"
    using assms by (simp add: ledger_inv_def CLIENT_LIMIT_def)
  have tot: "ledger_sum p = 1000 * int (client_count p)" "total_balance p = 1000 * int (client_count p)"
    using assms by (simp_all add: ledger_inv_def)
  have "foldl (\<lambda>t c. add_balance t (cl_balance c)) 0 (elems (clients p)) =
      0 + sum_list (map (\<lambda>c. f32_to_int (cl_balance c)) (elems (clients p)))"
  proof (rule fold_add_balance)
    show "\<forall>c\<in>set (elems (clients p)). \<exists>n\<ge>0. cl_balance c = whole n"
      using ledger_row_balance(1) [OF assms] ledger_balance_bounds(1) [OF assms] by blast
    show "\<forall>c\<in>set (elems (clients p)). \<forall>n. cl_balance c = whole n \<longrightarrow> n < 2 ^ 24"
      using ledger_row_balance(1) [OF assms] ledger_balance_bounds(2) [OF assms] by simp
  qed (use map_eq tot lim in simp_all)
  then show ?thesis using map_eq tot by simp
qed

lemma ledger_dotted: "ledger_inv n p \<Longrightarrow> dotted_clients p"
  by (fastforce simp: ledger_inv_def row_inv_def dotted_clients_def dotted_def)

end
