(* ===== verification/ReplicaTheorems.thy ===== *)
theory ReplicaTheorems
  imports Snapshot Demo
begin

text \<open>
  The properties of the replication: a registered backup follows the primary through every run of
  the bank, the snapshot brings a fresh backup up to date, and what the code does where the
  protocol has gaps (a second registration, a client that the backup has not heard of).
\<close>

section \<open>Live replication\<close>

lemma update_row_settle_row:
  assumes r: "r \<in> set (elems (clients s))" and wf: "server_wf s"
    and c: "account s a = Some c" and e: "account s b = Some e"
    and d: "d = \<lparr>su_transaction = tx, su_source_ip = ip_array a,
        su_source_balance = cl_balance (settle_row a b v q c), su_dest_ip = ip_array b,
        su_dest_balance = cl_balance (settle_row a b v q e)\<rparr>"
    and "tx_client_seqn tx = q" "dotted a" "dotted b"
  shows "update_row d r = settle_row a b v q r"
proof -
  have "cl_address r = a \<Longrightarrow> r = c" "cl_address r = b \<Longrightarrow> r = e"
    using account_iff [OF wf] r c e by (metis option.inject)+
  then show ?thesis
    using assms(6-8) account_address [OF c] account_address [OF e]
    by (auto simp: update_row_def settle_row_def d Let_def)
qed

lemma dotted_account:
  assumes "dotted_clients s" "account s ip = Some c" shows "dotted ip"
  using assms vec_get_SomeD [of cl_address "clients s" ip c]
  by (auto simp: dotted_clients_def account_def)

lemma committed_frame:
  "current_role (committed p x y v q) = current_role p"
  "backup_servers (committed p x y v q) = backup_servers p"
  "total_balance (committed p x y v q) = total_balance p"
  "num_transactions (committed p x y v q) = wrap32 (num_transactions p + 1)"
  "total_transferred (committed p x y v q) = wrap32 (total_transferred p + v)"
  "elems (clients (committed p x y v q)) = map (settle_row x y v q) (elems (clients p))"
  by (simp_all add: committed_def updateAndLogTransaction_def settled_def Let_def)

text \<open>What a backup that holds the primary's table makes of a state update: the rows of the sender
  and of the receiver become the primary's.\<close>

lemma backup_settles:
  assumes wf: "server_wf p" and ro: "replica_of p b" and tb: "table_wf cl_address (clients b)"
    and c: "account p x = Some c" and e: "account p y = Some e" and dot: "dotted x" "dotted y"
    and valid: "valid_client (settle_row x y v q c)" "valid_client (settle_row x y v q e)"
      "valid_transaction tx"
    and q: "tx_client_seqn tx = q"
  obtains d where "su_transaction d = tx"
    "handleStateUpdate b (state_update_packet tx (settle_row x y v q c) (settle_row x y v q e)) =
      Some (recorded (b\<lparr>clients := (clients b)\<lparr>elems := map (update_row d) (elems (clients b))\<rparr>\<rparr>) d,
            locked @ [Notify])"
    "map (update_row d) (elems (clients b)) = map (settle_row x y v q) (elems (clients p))"
proof -
  let ?c = "settle_row x y v q c" and ?e = "settle_row x y v q e"
  define d where "d = data_state_update (state_update_packet tx ?c ?e)"
  have d: "d = \<lparr>su_transaction = tx, su_source_ip = ip_array x, su_source_balance = cl_balance ?c,
      su_dest_ip = ip_array y, su_dest_balance = cl_balance ?e\<rparr>"
    unfolding d_def using account_address [OF c] account_address [OF e]
    by (simp add: data_state_update_packet [OF valid(3,1,2)])
  have acc: "account b ip = account p ip" for ip
    using ro by (intro account_same_elems) (simp add: replica_of_def)
  have "handleStateUpdate b (state_update_packet tx ?c ?e) =
    Some (recorded (b\<lparr>clients := (clients b)\<lparr>elems := map (update_row d) (elems (clients b))\<rparr>\<rparr>) d,
          locked @ [Notify])"
    unfolding d_def
  proof (rule handleStateUpdate_known [OF tb])
    show "account b (c_string (su_source_ip (data_state_update (state_update_packet tx ?c ?e)))) = Some c"
      unfolding d_def [symmetric] using c dot by (simp add: d acc)
    show "account b (c_string (su_dest_ip (data_state_update (state_update_packet tx ?c ?e)))) = Some e"
      unfolding d_def [symmetric] using e dot by (simp add: d acc)
  qed
  moreover have "map (update_row d) (elems (clients b)) = map (settle_row x y v q) (elems (clients p))"
    using ro update_row_settle_row [OF _ wf c e d q dot] by (simp add: replica_of_def)
  ultimately show ?thesis by (intro that [of d]) (simp_all add: d)
qed

text \<open>The one packet that a backup is sent for a committed transfer.\<close>

lemma commit_packet:
  assumes wf: "server_wf p" and role: "current_role p = PRIMARY"
    and one: "count_list (backup_servers p) addr = 1"
    and ok: "verdict p x y v q = SUCCESS" and v: "in_i32 v" and q: "in_i32 q"
  obtains c e tx where "account p x = Some c" "account p y = Some e"
    "transaction_history (committed p x y v q) = transaction_history p @ [tx]"
    "tx_client_seqn tx = q" "tx_value tx = v" "tx_source_ip tx = ip_array x"
    "valid_client (settle_row x y v q c)" "valid_client (settle_row x y v q e)" "valid_transaction tx"
    "sends_to addr (propagated (committed p x y v q) x y SUCCESS) =
       [state_update_packet tx (settle_row x y v q c) (settle_row x y v q e)]"
proof -
  let ?p' = "committed p x y v q"
  define tx where "tx = last (transaction_history ?p')"
  have tx: "tx = \<lparr>tx_id = wrap32 (num_transactions p + 1), tx_source_ip = ip_array x,
      tx_dest_ip = ip_array y, tx_value = v, tx_client_seqn = q\<rparr>" by (simp add: tx_def)
  obtain c e where c: "account p x = Some c" and e: "account p y = Some e"
    using ok by (rule verdict_SUCCESSE)
  have valid: "valid_client (settle_row x y v q c)" "valid_client (settle_row x y v q e)" "valid_transaction tx"
    using account_valid [OF wf] c e q v by (auto simp: tx valid_transaction_def)
  have "sends_to addr (propagated ?p' x y SUCCESS) =
      [state_update_packet tx (settle_row x y v q c) (settle_row x y v q e)]"
    using c e one role by (simp add: propagated_def propagateTransaction_def tx_def committed_frame)
  with c e valid show ?thesis by (intro that) (simp_all add: tx)
qed

lemma replicating_commit:
  assumes rep: "replicating addr (p, b)" and ok: "verdict p x y v q = SUCCESS"
    and v: "in_i32 v" and q: "in_i32 q"
  shows "\<exists>b'. receive_all b sender (sends_to addr (propagated (committed p x y v q) x y SUCCESS)) = Some b' \<and>
    replicating addr (committed p x y v q, b')"
proof -
  let ?p' = "committed p x y v q"
  have wf: "server_wf p" and role: "current_role p = PRIMARY" "current_role b = BACKUP"
    and one: "count_list (backup_servers p) addr = 1"
    and tb: "table_wf cl_address (clients b)" and ro: "replica_of p b" and dc: "dotted_clients p"
    using rep by (simp_all add: replicating_def)
  obtain c e tx where c: "account p x = Some c" and e: "account p y = Some e"
    and tx: "transaction_history ?p' = transaction_history p @ [tx]" "tx_client_seqn tx = q" "tx_value tx = v"
    and valid: "valid_client (settle_row x y v q c)" "valid_client (settle_row x y v q e)" "valid_transaction tx"
    and s: "sends_to addr (propagated ?p' x y SUCCESS) =
       [state_update_packet tx (settle_row x y v q c) (settle_row x y v q e)]"
    using wf role(1) one ok v q by (rule commit_packet)
  have dot: "dotted x" "dotted y" using dotted_account [OF dc] c e by auto
  let ?c = "settle_row x y v q c" and ?e = "settle_row x y v q e"
  note frame = committed_frame [of p x y v q]
  obtain d where d: "su_transaction d = tx"
    and h: "handleStateUpdate b (state_update_packet tx ?c ?e) =
      Some (recorded (b\<lparr>clients := (clients b)\<lparr>elems := map (update_row d) (elems (clients b))\<rparr>\<rparr>) d,
            locked @ [Notify])"
    and rows: "map (update_row d) (elems (clients b)) = map (settle_row x y v q) (elems (clients p))"
    using wf ro tb c e dot valid tx(2) by (rule backup_settles)
  let ?b' = "recorded (b\<lparr>clients := (clients b)\<lparr>elems := map (update_row d) (elems (clients b))\<rparr>\<rparr>) d"
  have "replica_of ?p' ?b'"
    using ro rows tx(1) by (simp add: replica_of_def recorded_def frame d tx(3) settled_def)
  moreover have "table_wf cl_address (clients ?b')"
    using tb by (auto simp: recorded_def intro: table_wf_update)
  moreover have "dotted_clients ?p'" using dc by (simp add: dotted_clients_def frame settled_def)
  ultimately show ?thesis
    using h s server_wf_committed [OF wf v q] role one frame
    by (auto simp: server_receive_def replicating_def recorded_def)
qed

lemma replicating_add:
  assumes rep: "replicating addr (p, b)"
  shows "\<exists>b'. receive_all b sender (sends_to addr (snd (addClient p (inet_ntop a)))) = Some b' \<and>
    replicating addr (fst (addClient p (inet_ntop a)), b')"
proof (rule wasClientAdded_cases [of p "inet_ntop a"])
  fix c assume "wasClientAdded p (inet_ntop a) = (p, [], False)"
  with rep show ?thesis by (simp add: addClient_def)
next
  fix p' sends
  let ?ip = "inet_ntop a" and ?c = "new_client (inet_ntop a)"
  assume n: "account p ?ip = None" and w: "wasClientAdded p ?ip = (p', sends, True)"
    and p': "p' = p\<lparr>clients := push_back (clients p) ?c,
             total_balance := add_balance (total_balance p) INITIAL_BALANCE\<rparr>"
    and sends: "sends = (if current_role p = PRIMARY then propagateClientAddition p' ?c else [])"
  have ro: "replica_of p b" and tb: "table_wf cl_address (clients b)" using rep by (simp_all add: replicating_def)
  have "valid_client ?c" by (simp add: valid_client_def new_client_def in_i32_def)
  then have d: "data_client_update (client_update_packet ?c) =
      \<lparr>cu_ip = ip_array ?ip, cu_balance = INITIAL_BALANCE, cu_last_request = 0\<rparr>"
    by (simp add: data_client_update_packet) (simp add: new_client_def)
  have "account b ?ip = None"
    using n ro account_same_elems [of b p] by (simp add: replica_of_def)
  then have h: "handleClientUpdate b (client_update_packet ?c) =
      (b\<lparr>clients := push_back (clients b) ?c,
         total_balance := add_balance (total_balance b) INITIAL_BALANCE\<rparr>, locked @ [Notify])"
    and tb': "table_wf cl_address (push_back (clients b) ?c)"
    using handleClientUpdate_new [of b "client_update_packet ?c"] vec_table.add_wf [OF tb, of ?c]
    unfolding d by (simp_all add: new_client_def account_def)
  have "server_wf p'" using server_wf_addClient [of p ?ip] rep w
    by (simp add: replicating_def addClient_def)
  moreover have "dotted_clients p'"
    using rep by (auto simp: p' replicating_def dotted_clients_def new_client_def)
  ultimately show ?thesis
    using rep ro h tb' sends
    by (simp add: addClient_def w replicating_def p' propagateClientAddition_def
        server_receive_def replica_of_def)
qed

interpretation replicated_runs: budgeted_run "pair_step addr sender" op_typed "\<lambda>_. 0" "\<lambda>_. replicating addr"
  for addr sender
proof
  fix n pb x assume rep: "replicating addr pb" and x: "op_typed x"
  obtain p b where pb: "pb = (p, b)" by (cases pb)
  show "\<exists>pb'. pair_step addr sender pb x = Some pb' \<and> replicating addr pb'"
  proof (cases x)
    case (AddClient a)
    with replicating_add [of addr p b sender a] rep show ?thesis
      by (auto simp: pair_step_def pb split: prod.split)
  next
    case (Transact a c v q)
    have wf: "server_wf p" using rep by (simp add: pb replicating_def)
    have vq: "in_i32 v" "in_i32 q" using x Transact by simp_all
    let ?y = "inet_ntop c" and ?x = "inet_ntop a"
    show ?thesis
    proof (cases "verdict p ?x ?y v q = SUCCESS")
      case True
      then show ?thesis
        using replicating_commit [OF rep [unfolded pb] True vq, of sender]
        by (auto simp: Transact pb pair_step_def processTransaction_eq [OF wf vq(2)] outcome_def
            should_notify_def Let_def)
    next
      case False
      then have "replicating addr (outcome p ?x ?y v q, b)"
        using rep server_wf_outcome [OF wf vq, of ?x ?y]
        by (rule_tac outcome_cases [of p ?x ?y v q])
          (auto simp: pb replicating_def replica_of_def setupDuplicateRequestLog_def dotted_clients_def)
      with False show ?thesis
        by (auto simp: Transact pb pair_step_def processTransaction_eq [OF wf vq(2)]
            propagated_def Let_def)
    qed
  qed
qed

lemma pair_run_fst:
  "run_steps (pair_step addr sender) (p, b) ops = Some (p', b') \<Longrightarrow> bank_run p ops = Some p'"
proof (induction ops arbitrary: p b)
  case (Cons x ops)
  then obtain p1 b1 where "pair_step addr sender (p, b) x = Some (p1, b1)"
    "run_steps (pair_step addr sender) (p1, b1) ops = Some (p', b')"
    by (auto split: option.splits)
  moreover from this(1) have "bank_step p x = Some p1"
    by (auto simp: pair_step_def bank_step_def bind_eq_Some_conv simp del: bank_step_simps)
  ultimately show ?case using Cons.IH [of p1 b1] by (simp del: bank_step_simps)
qed simp

text \<open>Live replication: when a backup is registered once and holds the primary's state, then
  whatever registrations and requests the primary serves, the packets it sends bring the backup
  to the primary's new state: same clients, balances, numbers, history and counters.\<close>

lemma live_replication:
  assumes "replicating addr (p, b)" "\<forall>x\<in>set ops. op_typed x"
  shows "\<exists>p' b'. run_steps (pair_step addr sender) (p, b) ops = Some (p', b') \<and>
    bank_run p ops = Some p' \<and> replica_of p' b' \<and> current_role b' = BACKUP"
  using replicated_runs.run_inv [of addr "(p, b)" ops 0 sender] assms pair_run_fst
  by (fastforce simp: replicating_def)

definition demo_backup :: server where
  "demo_backup = demo\<lparr>current_role := BACKUP\<rparr>"

definition demo_addr :: sockaddr where
  "demo_addr = \<lparr>sin_family = AF_INET, sin_port = 0, sin_addr = 9\<rparr>"

lemma replicating_demo: "replicating demo_addr (demo\<lparr>backup_servers := [demo_addr]\<rparr>, demo_backup)"
proof -
  have "server_wf (demo\<lparr>backup_servers := [demo_addr]\<rparr>)"
    using demo_wf by (simp add: server_wf_def)
  moreover have "table_wf cl_address (clients demo_backup)"
    using server_wf_table [OF demo_wf] by (simp add: demo_backup_def)
  moreover have "current_role demo = PRIMARY" "dotted_clients demo"
    by (simp_all add: demo_simps dotted_clients_def)
  ultimately show ?thesis
    by (simp add: replicating_def replica_of_def demo_backup_def dotted_clients_def)
qed

lemma live_replication_witness:
  "\<exists>p' b'. run_steps (pair_step demo_addr zero_sockaddr)
      (demo\<lparr>backup_servers := [demo_addr]\<rparr>, demo_backup) [AddClient 3, Transact 1 2 100 1] =
      Some (p', b') \<and> replica_of p' b'"
  using live_replication [OF replicating_demo, of "[AddClient 3, Transact 1 2 100 1]" zero_sockaddr]
  by (auto simp: in_i32_def)

section \<open>Registration\<close>

lemma sends_to_snapshot [simp]: "sends_to addr (map (\<lambda>p. Send p addr) ps) = ps"
  by (induction ps) simp_all

lemma sends_to_locked [simp]: "sends_to addr locked = []"
  by (simp add: locked_def)

lemma sends_to_registerBackup [simp]:
  "sends_to addr (snd (registerBackup p addr)) = snapshot_packets p"
  by (simp add: registerBackup_def)

lemma registered_replica:
  assumes inv: "ledger_inv n p" and "current_role p = PRIMARY"
    and "addr \<notin> set (backup_servers p)" "fresh_backup b"
  shows "\<exists>b'. receive_all b sender (snapshot_packets p) = Some b' \<and>
    replicating addr (fst (registerBackup p addr), b')"
proof -
  note wf = ledger_inv_wf [OF inv] and dot = ledger_dotted [OF inv]
  let ?b = "with_history (with_rows b (elems (clients p))) (transaction_history p)"
  have "replica_of (fst (registerBackup p addr)) ?b"
    using assms(4) wf ledger_total [OF inv]
      counters_wrap [of 0 "transaction_history p"]
    by (simp add: replica_of_def registerBackup_def with_history_def with_rows_def fresh_backup_def
        server_wf_def in_i32_def)
  moreover have "server_wf (fst (registerBackup p addr))"
    using wf by (simp add: registerBackup_def server_wf_def)
  moreover have "table_wf cl_address (clients ?b)"
    using assms(4) wf
    by (simp add: with_history_def with_rows_def table_wf_def fresh_backup_def server_wf_def)
  ultimately show ?thesis
    using snapshot_fresh [OF wf dot assms(4)] assms(2,3,4) dot
    by (simp add: replicating_def registerBackup_def dotted_clients_def with_history_def
        with_rows_def fresh_backup_def count_list_0_iff)
qed

text \<open>A backup that starts empty and registers with the primary receives a snapshot that makes
  it hold the primary's state, and from then on the two are in the relation that live
  replication maintains.\<close>

lemma registration_synchronises:
  assumes "honest_run (server_new port ip r al ad) ops p" "current_role p = PRIMARY"
    and "addr \<notin> set (backup_servers p)" "fresh_backup b"
  shows "\<exists>b'. receive_all b sender (sends_to addr (snd (registerBackup p addr))) = Some b' \<and>
    replicating addr (fst (registerBackup p addr), b')"
  using registered_replica [OF _ assms(2-4)] assms(1)
  by (auto elim: honest_run_ledger)

lemma fresh_new: "fresh_backup (server_new port ip BACKUP al ad)"
  by (simp add: fresh_backup_def server_new_def vec_empty_def vec_wf_def vec_size_def)

lemma registration_synchronises_witness:
  "\<exists>b'. receive_all (server_new 4000 9 BACKUP False zero_sockaddr) zero_sockaddr
      (sends_to demo_addr (snd (registerBackup demo demo_addr))) = Some b' \<and>
    replicating demo_addr (fst (registerBackup demo demo_addr), b')"
  using registration_synchronises [OF demo_honest [unfolded blank_def] _ _ fresh_new]
  by (simp add: demo_simps)

text \<open>A registration appends the whole history again: a backup that already holds the primary's
  state keeps its clients as they are, but has every transaction twice afterwards, and its
  counters say so.\<close>

lemma resync_doubles_history:
  assumes "server_wf p" "dotted_clients p" "replica_of p b" "current_role b = BACKUP"
  shows "\<exists>b'. receive_all b sender (sends_to addr (snd (registerBackup p addr))) = Some b' \<and>
    clients b' = clients b \<and> total_balance b' = total_balance b \<and>
    transaction_history b' = transaction_history p @ transaction_history p \<and>
    num_transactions b' = wrap32 (2 * int (length (transaction_history p))) \<and>
    total_transferred b' = wrap32 (2 * sum_list (map tx_value (transaction_history p)))"
proof -
  have "\<forall>c\<in>set (elems (clients p)). account b (cl_address c) \<noteq> None"
    using assms(3) by (simp add: account_None_iff replica_of_def)
  note r = snapshot_known [OF assms(1,2,4) this, of sender]
  show ?thesis
    using r assms(1,3)
    by (simp add: with_history_def replica_of_def server_wf_def counters_wrap)
qed

end
