(* ===== verification/Handlers.thy ===== *)
theory Handlers
  imports ReplicaTheorems
begin

text \<open>
  What every handler of the receive loop keeps: the data invariant and the lock discipline, for
  any packet of full size whatever bytes it holds, in either role; when the one handler that can
  go wrong (\<open>handleStateUpdate\<close>) does; which packets a server ignores in which role; and what a
  short datagram does to the buffer that the loop reuses.
\<close>

section \<open>Writes through iterators\<close>

lemma write_atE:
  assumes "write_at v it f = Some v'"
  obtains x where "deref v it = Some x" "v' = v\<lparr>elems := (elems v)[it_pos it := f x]\<rparr>"
    "it_pos it < length (elems v)" "x = elems v ! it_pos it"
  using assms by (auto simp: write_at_def deref_def vec_size_def split: option.splits if_splits)

lemma deref_write_None:
  assumes "write_at v it f = Some v'" shows "deref v' it' = None \<longleftrightarrow> deref v it' = None"
  using assms by (rule write_atE) (simp add: deref_def vec_size_def)

lemma write_at_None_iff: "write_at v it f = None \<longleftrightarrow> deref v it = None"
  by (simp add: write_at_def split: option.split)

lemma write_at_defined:
  assumes "deref v it \<noteq> None" obtains v' where "write_at v it f = Some v'"
  using assms write_at_None_iff [of v it f] by (cases "write_at v it f") auto

lemma write_at_rows:
  assumes "write_at v it f = Some v'" and key: "\<And>r. key (f r) = key r"
  shows "map key (elems v') = map key (elems v)" "vec_wf v \<Longrightarrow> vec_wf v'"
    "\<lbrakk>\<forall>r\<in>set (elems v). P r; \<And>r. P r \<Longrightarrow> P (f r)\<rbrakk> \<Longrightarrow> \<forall>r\<in>set (elems v'). P r"
proof -
  obtain x where v': "v' = v\<lparr>elems := (elems v)[it_pos it := f x]\<rparr>"
    and i: "it_pos it < length (elems v)" "x = elems v ! it_pos it"
    using assms(1) by (rule write_atE)
  show "map key (elems v') = map key (elems v)"
    unfolding v' using key i by (simp add: map_update_same)
  show "vec_wf v'" if "vec_wf v" using that by (simp add: v' vec_wf_def vec_size_def)
  show "\<forall>r\<in>set (elems v'). P r" if P: "\<forall>r\<in>set (elems v). P r" "\<And>r. P r \<Longrightarrow> P (f r)"
  proof
    fix r assume "r \<in> set (elems v')"
    then have "r \<in> insert (f x) (set (elems v))"
      unfolding v' using set_update_subset_insert by fastforce
    with P i nth_mem [OF i(1)] show "P r" by auto
  qed
qed

text \<open>Well-formed client tables with valid rows.\<close>

definition client_table :: "client_dto vec \<Rightarrow> bool" where
  "client_table v \<longleftrightarrow> table_wf cl_address v \<and> (\<forall>c\<in>set (elems v). valid_client c)"

lemma client_table_write:
  assumes "client_table v" "write_at v it f = Some v'"
    and "\<And>r. cl_address (f r) = cl_address r" "\<And>r. valid_client r \<Longrightarrow> valid_client (f r)"
  shows "client_table v'"
proof -
  note w = write_at_rows [where key = cl_address, OF assms(2,3)]
  have "\<forall>c\<in>set (elems v'). valid_client c"
    using assms(1,4) by (intro w(3)) (simp_all add: client_table_def)
  then show ?thesis using w(1,2) assms(1) by (simp add: client_table_def table_wf_def)
qed

lemma client_table_push:
  assumes "client_table v" "vec_get cl_address v (cl_address c) = None" "valid_client c"
  shows "client_table (push_back v c)"
  using assms vec_table.add_wf [of cl_address v c] by (simp add: client_table_def)

lemma valid_new_client [simp]: "valid_client (new_client ip)"
  by (simp add: valid_client_def new_client_def in_i32_def)

lemma address_new_client [simp]: "cl_address (new_client ip) = ip"
  by (simp add: new_client_def)

section \<open>handleStateUpdate\<close>

lemma find_or_emplace_cases:
  obtains (known) c where "vec_get cl_address v ip = Some c"
    "find_or_emplace v ip = (v, find_if (\<lambda>c. cl_address c = ip) v)"
  | (new) "vec_get cl_address v ip = None"
    "find_or_emplace v ip =
       (push_back v (new_client ip), find_if (\<lambda>c. cl_address c = ip) (push_back v (new_client ip)))"
  by (cases "vec_get cl_address v ip") (auto simp: find_or_emplace_def Let_def)

lemma find_or_emplace_table:
  "client_table v \<Longrightarrow> client_table (fst (find_or_emplace v ip))"
  by (rule find_or_emplace_cases [of v ip])
    (simp_all add: client_table_push)

lemma find_or_emplace_deref:
  "deref (fst (find_or_emplace v ip)) (snd (find_or_emplace v ip)) \<noteq> None"
proof (rule find_or_emplace_cases [of v ip])
  fix c assume "vec_get cl_address v ip = Some c"
    "find_or_emplace v ip = (v, find_if (\<lambda>c. cl_address c = ip) v)"
  then show ?thesis by (simp add: vec_get_def)
next
  let ?v = "push_back v (new_client ip)"
  assume e: "find_or_emplace v ip = (?v, find_if (\<lambda>c. cl_address c = ip) ?v)"
  have "vec_get cl_address ?v ip \<noteq> None"
    unfolding vec_get_None_iff find_if_end_iff by (simp add: new_client_def)
  then show ?thesis by (simp add: e vec_get_def)
qed

lemma it_epoch_find_or_emplace:
  "it_epoch (snd (find_or_emplace v ip)) = epoch (fst (find_or_emplace v ip))"
  by (simp add: find_or_emplace_def find_if_def Let_def)

text \<open>The table that the first search leaves.\<close>

definition after_source :: "server \<Rightarrow> packet \<Rightarrow> client_dto vec" where
  "after_source s p = fst (find_or_emplace (clients s) (c_string (su_source_ip (data_state_update p))))"

text \<open>The second search invalidates the first iterator exactly when it has to make room; the writes
  through both iterators are defined when the first iterator still is.\<close>

lemma second_search_invalidates:
  assumes "deref v1 i1 \<noteq> None" "it_epoch i1 = epoch v1"
  shows "deref (fst (find_or_emplace v1 ip)) i1 = None \<longleftrightarrow>
    vec_get cl_address v1 ip = None \<and> \<not> vec_size v1 < capacity v1"
  using assms deref_push_back_full [OF assms(2)] deref_push_back [of v1 i1]
  by (rule_tac find_or_emplace_cases [of v1 ip]) auto

lemma writes_defined:
  assumes "deref v i \<noteq> None" "deref v j \<noteq> None"
  obtains v1 v2 v3 where "write_at v i f = Some v1" "write_at v1 j g = Some v2" "write_at v2 i h = Some v3"
proof -
  obtain v1 where w1: "write_at v i f = Some v1" using assms(1) by (rule write_at_defined)
  have "deref v1 j \<noteq> None" using assms(2) deref_write_None [OF w1] by simp
  then obtain v2 where w2: "write_at v1 j g = Some v2" by (rule write_at_defined)
  have "deref v2 i \<noteq> None" using assms(1) deref_write_None [OF w1] deref_write_None [OF w2] by simp
  then obtain v3 where "write_at v2 i h = Some v3" by (rule write_at_defined)
  with w1 w2 show ?thesis by (rule that)
qed

lemma handleStateUpdate_None:
  "handleStateUpdate s p = None \<longleftrightarrow>
     vec_get cl_address (after_source s p) (c_string (su_dest_ip (data_state_update p))) = None \<and>
     \<not> vec_size (after_source s p) < capacity (after_source s p)"
  (is "_ \<longleftrightarrow> ?room")
proof -
  define d where "d = data_state_update p"
  obtain v1 i1 where e1: "find_or_emplace (clients s) (c_string (su_source_ip d)) = (v1, i1)"
    by (cases "find_or_emplace (clients s) (c_string (su_source_ip d))")
  obtain v2 i2 where e2: "find_or_emplace v1 (c_string (su_dest_ip d)) = (v2, i2)"
    by (cases "find_or_emplace v1 (c_string (su_dest_ip d))")
  have v1: "after_source s p = v1" by (simp add: after_source_def e1 d_def [symmetric])
  have ok: "deref v1 i1 \<noteq> None" "it_epoch i1 = epoch v1" and ok2: "deref v2 i2 \<noteq> None"
    using find_or_emplace_deref [of "clients s" "c_string (su_source_ip d)"]
      find_or_emplace_deref [of v1 "c_string (su_dest_ip d)"]
      it_epoch_find_or_emplace [of "clients s" "c_string (su_source_ip d)"]
    by (simp_all add: e1 e2)
  have "handleStateUpdate s p = None \<longleftrightarrow> deref v2 i1 = None"
  proof (cases "deref v2 i1 = None")
    case True
    then show ?thesis
      by (simp add: handleStateUpdate_def d_def [symmetric] e1 e2 write_at_None Let_def)
  next
    case False
    then obtain v3 v4 v5 where "write_at v2 i1 (\<lambda>c. c\<lparr>cl_balance := su_source_balance d\<rparr>) = Some v3"
      "write_at v3 i2 (\<lambda>c. c\<lparr>cl_balance := su_dest_balance d\<rparr>) = Some v4"
      "write_at v4 i1 (\<lambda>c. c\<lparr>cl_last_req := tx_client_seqn (su_transaction d)\<rparr>) = Some v5"
      using ok2 by (rule writes_defined)
    with False show ?thesis by (simp add: handleStateUpdate_def d_def [symmetric] e1 e2 Let_def)
  qed
  then show ?thesis
    using second_search_invalidates [OF ok, of "c_string (su_dest_ip d)"] by (simp add: e2 v1 d_def [symmetric])
qed

lemma handleStateUpdate_SomeE:
  assumes "handleStateUpdate s p = Some (s', effs)"
  obtains v where "s' = recorded (s\<lparr>clients := v\<rparr>) (data_state_update p)" "effs = locked @ [Notify]"
  using assms
  by (auto simp: handleStateUpdate_def recorded_def bind_eq_Some_conv Let_def split: prod.splits)

lemma server_wf_recorded:
  assumes "server_wf s" "client_table v" "valid_transaction (su_transaction d)"
  shows "server_wf (recorded (s\<lparr>clients := v\<rparr>) d)"
  using assms by (auto simp: server_wf_def recorded_def client_table_def ac_simps)

lemma server_wf_handleStateUpdate:
  assumes wf: "server_wf s" and len: "length p = PACKET_SIZE" and h: "handleStateUpdate s p = Some (s', effs)"
  shows "server_wf s'" "effs = locked @ [Notify]"
    "current_role s' = current_role s \<and> backup_servers s' = backup_servers s"
proof -
  define d where "d = data_state_update p"
  have vd: "valid_state_update d" unfolding d_def using len by (rule valid_members)
  obtain v1 i1 where e1: "find_or_emplace (clients s) (c_string (su_source_ip d)) = (v1, i1)"
    by (cases "find_or_emplace (clients s) (c_string (su_source_ip d))")
  obtain v2 i2 where e2: "find_or_emplace v1 (c_string (su_dest_ip d)) = (v2, i2)"
    by (cases "find_or_emplace v1 (c_string (su_dest_ip d))")
  obtain v3 v4 v5 where w: "write_at v2 i1 (\<lambda>c. c\<lparr>cl_balance := su_source_balance d\<rparr>) = Some v3"
      "write_at v3 i2 (\<lambda>c. c\<lparr>cl_balance := su_dest_balance d\<rparr>) = Some v4"
      "write_at v4 i1 (\<lambda>c. c\<lparr>cl_last_req := tx_client_seqn (su_transaction d)\<rparr>) = Some v5"
    and s': "s' = recorded (s\<lparr>clients := v5\<rparr>) d" and effs: "effs = locked @ [Notify]"
    using h by (auto simp: handleStateUpdate_def d_def [symmetric] e1 e2 recorded_def Let_def
        bind_eq_Some_conv)
  have "client_table (clients s)" using wf by (simp add: client_table_def server_wf_def)
  then have "client_table v2"
    using find_or_emplace_table [of "clients s" "c_string (su_source_ip d)"]
      find_or_emplace_table [of v1 "c_string (su_dest_ip d)"] by (simp add: e1 e2)
  then have "client_table v3" by (rule client_table_write [OF _ w(1)])
      (use vd in \<open>simp_all add: valid_client_def valid_state_update_def\<close>)
  then have "client_table v4" by (rule client_table_write [OF _ w(2)])
      (use vd in \<open>simp_all add: valid_client_def valid_state_update_def\<close>)
  then have "client_table v5" by (rule client_table_write [OF _ w(3)])
      (use vd in \<open>simp_all add: valid_client_def valid_state_update_def valid_transaction_def\<close>)
  then show "server_wf s'" unfolding s' using wf vd
    by (intro server_wf_recorded) (simp_all add: valid_state_update_def)
  show "effs = locked @ [Notify]" by (rule effs)
  show "current_role s' = current_role s \<and> backup_servers s' = backup_servers s"
    by (simp add: s' recorded_def)
qed

section \<open>The receive loop\<close>

lemma discipline_locked [simp]: "discipline Free (locked @ es) \<longleftrightarrow> discipline Free es"
  by (simp add: locked_def)

lemma discipline_addClient [simp]: "discipline Free (snd (addClient s ip) @ es) \<longleftrightarrow> discipline Free es"
  by (rule wasClientAdded_cases [of s ip])
    (auto simp: addClient_def propagateClientAddition_def)

text \<open>What a discovery changes.\<close>

lemma addClient_frame:
  obtains v t where "fst (addClient s ip) = s\<lparr>clients := v, total_balance := t\<rparr>"
proof (rule wasClientAdded_cases [of s ip])
  fix c assume "wasClientAdded s ip = (s, [], False)"
  then show ?thesis
    by (intro that [where v = "clients s" and t = "total_balance s"]) (simp add: addClient_def)
next
  fix s1 sends
  assume "wasClientAdded s ip = (s1, sends, True)"
    "s1 = s\<lparr>clients := push_back (clients s) (new_client ip),
             total_balance := add_balance (total_balance s) INITIAL_BALANCE\<rparr>"
  then show ?thesis by (intro that) (simp add: addClient_def)
qed

lemma handleDiscoveryPacket_primary:
  assumes "current_role s = PRIMARY"
  shows "handleDiscoveryPacket s a =
    (fst (addClient s (inet_ntop (sin_addr a))),
     snd (addClient s (inet_ntop (sin_addr a))) @ [Send (bare_packet DISCOVERY_ACK) a] @ printClients)"
  using assms by (simp add: handleDiscoveryPacket_def split: prod.split)

lemma server_wf_frame:
  assumes "clients s' = clients s" "transaction_history s' = transaction_history s"
    "num_transactions s' = num_transactions s" "total_transferred s' = total_transferred s"
    "total_balance s' = total_balance s"
  shows "server_wf s' = server_wf s"
  using assms by (simp add: server_wf_def)

lemma server_wf_handleClientUpdate:
  assumes wf: "server_wf s" and len: "length p = PACKET_SIZE"
  shows "server_wf (fst (handleClientUpdate s p))"
proof (cases "account s (c_string (cu_ip (data_client_update p)))")
  case None
  let ?c = "\<lparr>cl_address = c_string (cu_ip (data_client_update p)),
      cl_last_req = cu_last_request (data_client_update p),
      cl_balance = cu_balance (data_client_update p)\<rparr>"
  have "valid_client ?c"
    using valid_members(2) [OF len] by (simp add: valid_client_update_def valid_client_def)
  then have "client_table (push_back (clients s) ?c)"
    using wf None by (intro client_table_push) (simp_all add: client_table_def server_wf_def account_def)
  with wf show ?thesis
    by (auto simp: handleClientUpdate_new [OF None] server_wf_def client_table_def add_balance_def)
next
  case (Some c)
  with wf show ?thesis by (simp add: handleClientUpdate_known)
qed

lemma server_wf_handleHistoryEntry:
  assumes "server_wf s" "length p = PACKET_SIZE"
  shows "server_wf (fst (handleHistoryEntry s p))"
  using assms valid_members(4) [OF assms(2)]
  by (auto simp: handleHistoryEntry_def server_wf_def Let_def ac_simps)

lemma server_wf_announcement:
  "server_wf (fst (handleNewPrimaryAnnouncementPacket s p a)) = server_wf s"
  by (rule server_wf_frame) (simp_all add: handleNewPrimaryAnnouncementPacket_def Let_def)

lemmas receive_defs =
  server_receive_def handleTransactionRequest_def handleDiscoveryPacket_def registerBackup_def
  handleHeartbeatPacket_def sendDiscoveryAck_def handleElectionPacket_def
  handleElectionAnswerPacket_def handleNewPrimaryAnnouncementPacket_def printClients_def

lemma server_receive_cases:
  assumes "server_receive s p a = Some (s', effs)"
  obtains (state_update) "packet_label p = Some STATE_UPDATE" "current_role s = BACKUP"
      "handleStateUpdate s p = Some (s', effs)"
  | (client_update) "packet_label p = Some ADD_CLIENT_UPDATE" "current_role s = BACKUP"
      "(s', effs) = handleClientUpdate s p"
  | (history_entry) "packet_label p = Some ADD_HISTORY_ENTRY" "current_role s = BACKUP"
      "(s', effs) = handleHistoryEntry s p"
  | (discovery) "packet_label p = Some DISCOVERY" "current_role s = PRIMARY"
      "(s', effs) = handleDiscoveryPacket s a"
  | (register) "packet_label p = Some REGISTER_BACKUP" "current_role s = PRIMARY"
      "(s', effs) = registerBackup s a"
  | (announcement) "packet_label p = Some NEW_PRIMARY_ANNOUNCEMENT"
      "(s', effs) = handleNewPrimaryAnnouncementPacket s p a"
  | (election) "packet_label p = Some ELECTION" "(s', effs) = handleElectionPacket s p a"
  | (answer) "packet_label p = Some ELECTION_ANSWER" "s' = handleElectionAnswerPacket s p" "effs = []"
  | (heartbeat) "packet_label p = Some HEARTBEAT" "s' = handleHeartbeatPacket s" "effs = []"
  | (request) "packet_label p = Some TRANSACTION_REQ" "s' = s" "current_role s = PRIMARY"
      "effs = [SpawnRequest p a]"
  | (server_discovery) "packet_label p = Some SERVER_DISCOVERY" "s' = s" "effs = sendDiscoveryAck s a"
  | (ignored) "s' = s" "effs = []"
proof (cases "packet_label p")
  case None
  with assms ignored show ?thesis by (simp add: server_receive_def)
next
  case (Some t)
  with assms that show ?thesis
    by (cases t; cases "current_role s")
      (simp_all add: server_receive_def handleTransactionRequest_def handleDiscoveryPacket_def)
qed

text \<open>The cases in which the handler takes the lock, one lemma each.\<close>

lemma handleClientUpdate_effs:
  "snd (handleClientUpdate s p) = locked \<or> snd (handleClientUpdate s p) = locked @ [Notify]"
  by (simp add: handleClientUpdate_def Let_def)

lemma handleHistoryEntry_effs: "snd (handleHistoryEntry s p) = locked @ [Notify]"
  by (simp add: handleHistoryEntry_def Let_def)

lemma discipline_registerBackup: "discipline Free (snd (registerBackup s a))"
proof -
  have "discipline Free (locked @ map (\<lambda>p. Send p a) (snapshot_packets s) @ [])"
    by (subst discipline_locked, subst discipline_send_list) auto
  then show ?thesis by (simp add: registerBackup_def)
qed

lemma discipline_discovery:
  "current_role s = PRIMARY \<Longrightarrow> discipline Free (snd (handleDiscoveryPacket s a))"
  by (simp add: handleDiscoveryPacket_primary printClients_def)

lemma discipline_announcement:
  "discipline Free (snd (handleNewPrimaryAnnouncementPacket s p a))"
  by (simp add: handleNewPrimaryAnnouncementPacket_def Let_def)

lemma server_receive_wf:
  assumes wf: "server_wf s" and len: "length p = PACKET_SIZE"
    and r: "server_receive s p a = Some (s', effs)"
  shows "server_wf s'"
  using r
proof (cases rule: server_receive_cases)
  case state_update
  then show ?thesis using server_wf_handleStateUpdate(1) [OF wf len] by simp
next
  case client_update
  then show ?thesis using server_wf_handleClientUpdate [OF wf len] by (metis fst_conv)
next
  case history_entry
  then show ?thesis using server_wf_handleHistoryEntry [OF wf len] by (metis fst_conv)
next
  case discovery
  then show ?thesis using server_wf_addClient [OF wf] by (simp add: handleDiscoveryPacket_primary)
next
  case announcement
  then show ?thesis using wf server_wf_announcement [of s p a] by (metis fst_conv)
qed (use wf in \<open>simp_all add: registerBackup_def handleElectionPacket_def handleElectionAnswerPacket_def
    handleHeartbeatPacket_def server_wf_def Let_def split: if_splits\<close>)

lemma server_receive_discipline:
  assumes "server_wf s" "length p = PACKET_SIZE" "server_receive s p a = Some (s', effs)"
  shows "discipline Free effs"
  using assms(3)
proof (cases rule: server_receive_cases)
  case state_update
  then show ?thesis using server_wf_handleStateUpdate(2) [OF assms(1,2)] by simp
next
  case client_update
  then have "effs = locked \<or> effs = locked @ [Notify]" using handleClientUpdate_effs [of s p] by (metis snd_conv)
  then show ?thesis by (auto simp: locked_def)
next
  case history_entry
  then have "effs = locked @ [Notify]" using handleHistoryEntry_effs [of s p] by (metis snd_conv)
  then show ?thesis by simp
next
  case discovery
  then show ?thesis using discipline_discovery [of s a] by (metis snd_conv)
next
  case register
  then show ?thesis using discipline_registerBackup [of s a] by (metis snd_conv)
next
  case announcement
  then show ?thesis using discipline_announcement [of s p a] by (metis snd_conv)
qed (simp_all add: handleElectionPacket_def sendDiscoveryAck_def Let_def split: if_splits)

lemmas server_receive_safe = server_receive_wf server_receive_discipline

section \<open>Who changes what\<close>

lemma server_receive_separation:
  assumes "server_receive s p a = Some (s', effs)"
  shows "(clients s' \<noteq> clients s \<or> transaction_history s' \<noteq> transaction_history s \<longrightarrow>
      (current_role s = PRIMARY \<and> packet_label p = Some DISCOVERY) \<or>
      (current_role s = BACKUP \<and>
         packet_label p \<in> {Some STATE_UPDATE, Some ADD_CLIENT_UPDATE, Some ADD_HISTORY_ENTRY})) \<and>
    (current_role s' \<noteq> current_role s \<longrightarrow>
      packet_label p = Some NEW_PRIMARY_ANNOUNCEMENT \<and> packet_id p \<noteq> server_id s \<and>
      current_role s' = BACKUP)"
  using assms
proof (cases rule: server_receive_cases)
  case state_update
  then have "current_role s' = current_role s"
    by (auto elim: handleStateUpdate_SomeE simp: recorded_def)
  with state_update show ?thesis by simp
next
  case client_update
  then show ?thesis by (auto simp: handleClientUpdate_def Let_def split: if_splits)
next
  case discovery
  then have s': "s' = fst (addClient s (inet_ntop (sin_addr a)))"
    by (simp add: handleDiscoveryPacket_primary)
  have "current_role s' = current_role s"
    unfolding s' by (rule addClient_frame [of s "inet_ntop (sin_addr a)"]) simp
  with discovery show ?thesis by simp
qed (auto simp: handleHistoryEntry_def registerBackup_def handleNewPrimaryAnnouncementPacket_def
    handleElectionPacket_def handleElectionAnswerPacket_def handleHeartbeatPacket_def Let_def
    split: if_splits)

lemma server_receive_role:
  assumes "server_receive s p a = Some (s', effs)"
  shows "current_role s' = current_role s \<or> current_role s' = BACKUP"
  using server_receive_separation [OF assms] by blast

end
