(* ===== verification/HandlerTheorems.thy ===== *)
theory HandlerTheorems
  imports Handlers
begin

text \<open>
  The properties of the receive loop: which packet can make it undefined, what it keeps, who may
  change the accounts and the role, and what a short datagram does.
\<close>

lemma receive_None_iff:
  "server_receive s p a = None \<longleftrightarrow>
     packet_label p = Some STATE_UPDATE \<and> current_role s = BACKUP \<and>
     (let source = c_string (su_source_ip (data_state_update p));
          dest = c_string (su_dest_ip (data_state_update p));
          v = (if account s source = None then push_back (clients s) (new_client source) else clients s)
      in dest \<notin> cl_address ` set (elems v) \<and> \<not> vec_size v < capacity v)"
proof -
  have "after_source s p =
      (if account s (c_string (su_source_ip (data_state_update p))) = None
       then push_back (clients s) (new_client (c_string (su_source_ip (data_state_update p))))
       else clients s)"
    by (rule find_or_emplace_cases [of "clients s" "c_string (su_source_ip (data_state_update p))"])
      (simp_all add: after_source_def account_def)
  moreover have "vec_get cl_address v ip = None \<longleftrightarrow> ip \<notin> cl_address ` set (elems v)" for v :: "client_dto vec" and ip
    unfolding vec_get_None_iff find_if_end_iff by auto
  moreover have "server_receive s p a = None \<longleftrightarrow>
      packet_label p = Some STATE_UPDATE \<and> current_role s = BACKUP \<and> handleStateUpdate s p = None"
    by (simp add: server_receive_def split: option.split packet_type.split)
  ultimately show ?thesis by (simp add: handleStateUpdate_None Let_def)
qed

text \<open>A \<open>STATE_UPDATE\<close> between two clients that reaches a backup before the snapshot of its
  registration is undefined behaviour: the first of the two clients fills the empty vector. The
  primary adds the backup to its list before it sends the snapshot, so a request thread can be
  first.\<close>

lemma update_before_snapshot_undefined:
  assumes "clients b = vec_empty" "current_role b = BACKUP"
    and "valid_transaction tx" "valid_client c" "valid_client d"
    and "cl_address c = inet_ntop x" "cl_address d = inet_ntop y" "x \<noteq> y"
  shows "server_receive b (state_update_packet tx c d) sender = None"
proof -
  have "account b (inet_ntop x) = None" using assms(1) by (simp add: account_None_iff vec_empty_def)
  then show ?thesis
    using assms unfolding receive_None_iff
    by (simp add: data_state_update_packet Let_def push_back_def vec_empty_def vec_size_def)
qed

text \<open>C20. The receive loop works with an invalidated iterator, which is what \<open>None\<close> stands for, exactly
  when a backup takes a \<open>STATE_UPDATE\<close> whose destination is still unknown once the source has been
  looked up or added, and the vector is full at that moment: adding the destination then moves the
  vector, and the iterator of the source is used after that. The two addresses in the packet are
  taken to end within their arrays. The property is about iterators; signed overflow, and reading
  past an array that has no NUL, are other ways in which a packet can be undefined in C++.\<close>

theorem receive_undefined_iff:
  assumes "NUL \<in> set (su_source_ip (data_state_update p))" "NUL \<in> set (su_dest_ip (data_state_update p))"
  shows "server_receive s p a = None \<longleftrightarrow>
     packet_label p = Some STATE_UPDATE \<and> current_role s = BACKUP \<and>
     (let source = c_string (su_source_ip (data_state_update p));
          dest = c_string (su_dest_ip (data_state_update p));
          v = (if account s source = None then push_back (clients s) (new_client source) else clients s)
      in dest \<notin> cl_address ` set (elems v) \<and> \<not> vec_size v < capacity v)"
  by (rule receive_None_iff)

text \<open>Both accounts of the update are new to a backup whose vector has room for neither.\<close>

theorem receive_undefined_iff_witness:
  "server_receive (server_new 4000 9 BACKUP False zero_sockaddr)
     (state_update_packet (\<lparr>tx_id = 1, tx_source_ip = ip_array (inet_ntop 1), tx_dest_ip = ip_array (inet_ntop 2),
        tx_value = 5, tx_client_seqn = 1\<rparr>) (demo_row 1 995 1) (demo_row 2 1005 0)) zero_sockaddr = None"
proof -
  let ?t = "\<lparr>tx_id = 1, tx_source_ip = ip_array (inet_ntop 1), tx_dest_ip = ip_array (inet_ntop 2),
    tx_value = 5, tx_client_seqn = 1\<rparr>"
  have "valid_transaction ?t" "valid_client (demo_row 1 995 1)" "valid_client (demo_row 2 1005 0)"
    by (simp_all add: valid_transaction_def valid_client_def in_i32_def)
  then have d: "data_state_update (state_update_packet ?t (demo_row 1 995 1) (demo_row 2 1005 0)) =
      \<lparr>su_transaction = ?t, su_source_ip = ip_array (inet_ntop 1), su_source_balance = whole 995,
       su_dest_ip = ip_array (inet_ntop 2), su_dest_balance = whole 1005\<rparr>"
    by (simp add: data_state_update_packet)
  let ?p = "state_update_packet ?t (demo_row 1 995 1) (demo_row 2 1005 0)"
  let ?s = "server_new 4000 9 BACKUP False zero_sockaddr"
  have nul: "NUL \<in> set (ip_array (inet_ntop x))" for x
    unfolding ip_array_def by (rule set_update_memI) (simp add: strncpy_def INET_ADDRSTRLEN_def)
  have e: "clients ?s = vec_empty" "current_role ?s = BACKUP" by (simp_all add: server_new_def)
  then have "account ?s ip = None" for ip by (simp add: account_None_iff vec_empty_def)
  moreover have "packet_label ?p = Some STATE_UPDATE" by (simp add: state_update_packet_def)
  ultimately show ?thesis
    using receive_undefined_iff [of ?p ?s zero_sockaddr] e
    by (simp add: d nul vec_empty_def push_back_def vec_size_def Let_def)
qed

text \<open>C21. A packet of full size, whatever bytes it holds, makes the receive loop work with an invalidated
  iterator, which only a \<open>STATE_UPDATE\<close> at a backup can, or it leaves the data invariant intact and
  respects the lock discipline: each lock it takes is released, none is taken twice, and the
  console is only notified outside of the locked sections. An address without a NUL is read up
  to the end of its array.\<close>

theorem receive_preserves:
  assumes "server_wf s" "length p = PACKET_SIZE"
  shows "case server_receive s p a of
      None \<Rightarrow> packet_label p = Some STATE_UPDATE \<and> current_role s = BACKUP
    | Some (s', effs) \<Rightarrow> server_wf s' \<and> discipline Free effs"
  using server_receive_safe [OF assms] receive_None_iff [of s p a] by (auto split: option.split)

lemma demo_receive_client:
  "server_receive demo_backup (client_update_packet (demo_row 3 500 2)) zero_sockaddr =
     Some (demo_backup\<lparr>clients := push_back (clients demo) (demo_row 3 500 2),
        total_balance := 2500\<rparr>, locked @ [Notify])"
proof -
  have "valid_client (demo_row 3 500 2)" by (simp add: valid_client_def in_i32_def)
  moreover have "account demo_backup (inet_ntop 3) = None"
    by (simp add: account_None_iff demo_backup_def demo_simps)
  ultimately show ?thesis
    using receive_client [of "demo_row 3 500 2" demo_backup zero_sockaddr]
    by (simp add: demo_backup_def add_balance_def in_i32_def) (simp add: demo_simps in_i32_def)
qed

lemma length_client_update_packet [simp]: "length (client_update_packet c) = PACKET_SIZE"
  by (simp add: client_update_packet_def enc_client_update_def)

theorem receive_preserves_witness:
  "server_wf (demo_backup\<lparr>clients := push_back (clients demo) (demo_row 3 500 2), total_balance := 2500\<rparr>)"
proof -
  have "server_wf demo_backup" using demo_wf by (simp add: demo_backup_def server_wf_def)
  from receive_preserves [OF this, of "client_update_packet (demo_row 3 500 2)" zero_sockaddr]
  show ?thesis by (simp add: demo_receive_client)
qed

text \<open>C22. The receive loop itself registers clients only at a primary and applies updates only at a
  backup: handling a packet changes the clients or the history only if it is a \<open>DISCOVERY\<close> at a
  primary, or one of the three update packets at a backup. A \<open>TRANSACTION_REQ\<close> changes nothing
  here: at a primary the loop starts a thread for it, which executes it later, and at a backup it
  is dropped. And a packet changes the role only if it is the announcement of a different server,
  and then to \<open>BACKUP\<close>.\<close>

theorem receive_role_separation:
  assumes "server_receive s p a = Some (s', effs)"
  shows "(clients s' \<noteq> clients s \<or> transaction_history s' \<noteq> transaction_history s \<longrightarrow>
      (current_role s = PRIMARY \<and> packet_label p = Some DISCOVERY) \<or>
      (current_role s = BACKUP \<and>
         packet_label p \<in> {Some STATE_UPDATE, Some ADD_CLIENT_UPDATE, Some ADD_HISTORY_ENTRY})) \<and>
    (packet_label p = Some TRANSACTION_REQ \<longrightarrow>
      s' = s \<and> effs = (if current_role s = PRIMARY then [SpawnRequest p a] else [])) \<and>
    (current_role s' \<noteq> current_role s \<longrightarrow>
      packet_label p = Some NEW_PRIMARY_ANNOUNCEMENT \<and> packet_id p \<noteq> server_id s \<and>
      current_role s' = BACKUP)"
  using server_receive_separation [OF assms] assms
  by (auto simp: server_receive_def handleTransactionRequest_def)

text \<open>At the backup an update changes the clients, and at the primary it does not.\<close>

theorem receive_role_separation_witness:
  "\<exists>s' effs t' effs2. server_receive demo_backup (client_update_packet (demo_row 3 500 2)) zero_sockaddr = Some (s', effs) \<and>
     clients s' \<noteq> clients demo_backup \<and> current_role s' = BACKUP \<and>
     server_receive demo (client_update_packet (demo_row 3 500 2)) zero_sockaddr = Some (t', effs2) \<and>
     clients t' = clients demo"
proof -
  let ?p = "client_update_packet (demo_row 3 500 2)"
  obtain s' effs where s: "server_receive demo_backup ?p zero_sockaddr = Some (s', effs)"
    "clients s' = push_back (clients demo) (demo_row 3 500 2)" by (simp add: demo_receive_client)
  have "current_role demo = PRIMARY" "packet_label ?p = Some ADD_CLIENT_UPDATE"
    by (simp_all add: demo_simps client_update_packet_def)
  then obtain t' effs2 where t: "server_receive demo ?p zero_sockaddr = Some (t', effs2)"
    using receive_None_iff [of demo ?p zero_sockaddr] by (cases "server_receive demo ?p zero_sockaddr") auto
  have "clients demo_backup = clients demo" "current_role demo_backup = BACKUP"
    by (simp_all add: demo_backup_def)
  then show ?thesis
    using receive_role_separation [OF s(1)] receive_role_separation [OF t] s t
      \<open>current_role demo = PRIMARY\<close> \<open>packet_label ?p = Some ADD_CLIENT_UPDATE\<close>
    by (auto simp: push_back_def demo_simps)
qed

text \<open>C39. The loop does not compare the number of bytes received with the size of a packet, and it
  reuses its buffer: any shortened copy of the packet before it, down to its first byte, is
  handled as that whole packet again.\<close>

theorem short_datagram_replays:
  assumes "length buf = PACKET_SIZE" "0 < n"
  shows "serve (s, buf) (Some (take n buf, sender)) =
    map_option (\<lambda>(s', effs). ((s', buf), effs)) (server_receive s buf sender)"
proof -
  have "recv_into buf (take n buf) = (buf, min n PACKET_SIZE)"
    using assms by (simp add: recv_into_def Let_def min.commute flip: take_drop)
  then show ?thesis using assms by (simp add: serve_def PACKET_SIZE_def min_def)
qed

theorem short_datagram_replays_witness:
  "serve (demo_backup, client_update_packet (demo_row 3 500 2))
     (Some (take 1 (client_update_packet (demo_row 3 500 2)), zero_sockaddr)) =
   Some ((demo_backup\<lparr>clients := push_back (clients demo) (demo_row 3 500 2), total_balance := 2500\<rparr>,
     client_update_packet (demo_row 3 500 2)), locked @ [Notify])"
  using short_datagram_replays [of "client_update_packet (demo_row 3 500 2)" 1 demo_backup zero_sockaddr]
    demo_receive_client by simp

end
