(* ===== verification/Process.thy ===== *)
theory Process
  imports HandlerTheorems "HOL-Library.Multiset"
begin

text \<open>
  A server process: the receive loop and the threads that it starts, interleaved in any order.
  A thread of the code is cut at its sleeps and waits, and each piece is one step on the shared
  state: the pieces that touch the bank run under the writer lock; the role and the flags of the
  election, which the code accesses partly without one, are read and written in single steps. A
  wait for the primary's heartbeat that has not been answered may time out at any moment.
\<close>

section \<open>Threads\<close>

datatype thread =
    RequestThread packet sockaddr
  | MonitorTop
  | MonitorWaiting
  | ElectionTop
  | ElectionSleeping
  | HeartbeatSender

fun thread_of :: "effect \<Rightarrow> thread option" where
  "thread_of SpawnHeartbeatSender = Some HeartbeatSender"
| "thread_of SpawnHeartbeatMonitor = Some MonitorTop"
| "thread_of SpawnElection = Some ElectionTop"
| "thread_of (SpawnRequest p a) = Some (RequestThread p a)"
| "thread_of _ = None"

definition spawned :: "effect list \<Rightarrow> thread multiset" where
  "spawned effs = mset (List.map_filter thread_of effs)"

lemma spawned_Nil [simp]: "spawned [] = {#}"
  by (simp add: spawned_def List.map_filter_def)

lemma spawned_Cons [simp]:
  "spawned (e # es) = (case thread_of e of None \<Rightarrow> {#} | Some t \<Rightarrow> {#t#}) + spawned es"
  by (simp add: spawned_def List.map_filter_def split: option.split)

lemma spawned_append [simp]: "spawned (xs @ ys) = spawned xs + spawned ys"
  by (induction xs) simp_all

lemma spawned_none: "(\<And>e. e \<in> set es \<Longrightarrow> thread_of e = None) \<Longrightarrow> spawned es = {#}"
  by (induction es) simp_all

lemma spawned_send_all [simp]: "spawned (send_all p as) = {#}"
  by (rule spawned_none) (auto simp: send_all_def)

text \<open>
  One step of a thread: the new state, the effects, and what is left of the thread (\<open>{#}\<close> when it
  ends; the threads it starts are among its effects). Only a request can be undefined.
\<close>

fun thread_step :: "server \<Rightarrow> thread \<Rightarrow> (server \<times> effect list \<times> thread multiset) option" where
  "thread_step s (RequestThread p a) =
     map_option (\<lambda>(s', effs). (s', effs, {#})) (request_thread s p a)"
| "thread_step s MonitorTop =
     (case monitor_arm s of
        None \<Rightarrow> Some (s, [], {#})
      | Some s' \<Rightarrow> Some (s', [], {#MonitorWaiting#}))"
| "thread_step s MonitorWaiting =
     Some (s, [], if monitor_wake s then {#MonitorTop#} else {#ElectionTop#})"
| "thread_step s ElectionTop =
     (case election_begin s of (s', effs) \<Rightarrow> Some (s', effs, {#ElectionSleeping#}))"
| "thread_step s ElectionSleeping =
     (case election_end s of (s', effs) \<Rightarrow> Some (s', effs, {#}))"
| "thread_step s HeartbeatSender =
     (case heartbeat_round s of
        None \<Rightarrow> Some (s, [], {#})
      | Some effs \<Rightarrow> Some (s, effs, {#HeartbeatSender#}))"

section \<open>Steps of a process\<close>

record process =
  srv :: server
  rbuf :: packet
  pool :: "thread multiset"

inductive proc_step :: "process \<Rightarrow> effect list \<Rightarrow> process \<Rightarrow> bool" where
  receive: "serve (srv P, rbuf P) dg = Some ((s', buf'), effs) \<Longrightarrow>
     proc_step P effs \<lparr>srv = s', rbuf = buf', pool = pool P + spawned effs\<rparr>"
| run_thread: "t \<in># pool P \<Longrightarrow> thread_step (srv P) t = Some (s', effs, left) \<Longrightarrow>
     proc_step P effs \<lparr>srv = s', rbuf = rbuf P, pool = pool P - {#t#} + left + spawned effs\<rparr>"

inductive proc_reach :: "process \<Rightarrow> process \<Rightarrow> bool" for P0 where
  init: "proc_reach P0 P0"
| step: "proc_reach P0 P \<Longrightarrow> proc_step P effs P' \<Longrightarrow> proc_reach P0 P'"

inductive_cases proc_stepE: "proc_step P effs P'"

text \<open>The process as \<open>init\<close> leaves it when it enters its receive loop.\<close>

definition proc_started :: "process \<Rightarrow> bool" where
  "proc_started P \<longleftrightarrow>
     (\<exists>port ident role0 alive0 addr0 c b d fds buf env effs.
        server_start (server_new port ident role0 alive0 addr0) c b d fds port buf env =
          Some (Inr (srv P, effs)) \<and>
        pool P = spawned effs \<and> length (rbuf P) = PACKET_SIZE)"

section \<open>What each step spawns\<close>

lemma thread_of_Send [simp]: "map (\<lambda>p. Send p a) ps = es \<Longrightarrow> spawned es = {#}"
  by (rule spawned_none) auto

lemma spawned_locked [simp]: "spawned locked = {#}"
  by (simp add: locked_def)

lemma spawned_notify [simp]: "spawned (if b then [Notify] else []) = {#}"
  by simp

lemma spawned_propagated [simp]: "spawned (propagated s a b st) = {#}"
  using propagated_send_all [of s a b st] by auto

lemma spawned_addClient [simp]: "spawned (snd (addClient s ip)) = {#}"
  by (rule wasClientAdded_cases [of s ip]) (simp_all add: addClient_def propagateClientAddition_def)

definition is_request :: "thread \<Rightarrow> bool" where
  "is_request t \<longleftrightarrow> (\<exists>p a. t = RequestThread p a)"

lemma spawned_server_receive:
  assumes "server_receive s p a = Some (s', effs)" "t \<in># spawned effs"
  shows "is_request t"
  using assms(1)
proof (cases rule: server_receive_cases)
  case state_update
  from state_update(3) have "effs = locked @ [Notify]" by (rule handleStateUpdate_SomeE)
  with assms(2) show ?thesis by simp
next
  case discovery
  then have "effs = snd (addClient s (inet_ntop (sin_addr a))) @
      [Send (bare_packet DISCOVERY_ACK) a] @ printClients"
    by (simp add: handleDiscoveryPacket_primary)
  with assms(2) show ?thesis by (simp add: printClients_def)
next
  case client_update
  then show ?thesis using assms(2) by (simp add: handleClientUpdate_def Let_def split: if_splits)
next
  case announcement
  then show ?thesis
    using assms(2) by (simp add: handleNewPrimaryAnnouncementPacket_def Let_def split: if_splits)
qed (use assms(2) in \<open>simp_all add: handleHistoryEntry_def Let_def registerBackup_def
    handleElectionPacket_def sendDiscoveryAck_def is_request_def split: if_splits\<close>)

lemma server_receive_flags:
  assumes "server_receive s p a = Some (s', effs)"
  shows "election_in_progress s' = election_in_progress s" "server_id s' = server_id s"
proof -
  have "election_in_progress s' = election_in_progress s \<and> server_id s' = server_id s"
    using assms
  proof (cases rule: server_receive_cases)
    case state_update
    from state_update(3) show ?thesis
      by (rule handleStateUpdate_SomeE) (simp add: recorded_def)
  next
    case discovery
    then have s': "s' = fst (addClient s (inet_ntop (sin_addr a)))"
      by (simp add: handleDiscoveryPacket_primary)
    show ?thesis unfolding s' by (rule addClient_frame [of s "inet_ntop (sin_addr a)"]) simp
  next
    case client_update
    then show ?thesis by (simp add: handleClientUpdate_def Let_def split: if_splits)
  next
    case announcement
    then show ?thesis
      by (simp add: handleNewPrimaryAnnouncementPacket_def Let_def split: if_splits)
  next
    case history_entry
    then show ?thesis by (simp add: handleHistoryEntry_def Let_def)
  next
    case register
    then show ?thesis by (simp add: registerBackup_def)
  next
    case election
    then show ?thesis by (simp add: handleElectionPacket_def Let_def split: if_splits)
  next
    case answer
    then show ?thesis by (simp add: handleElectionAnswerPacket_def)
  next
    case heartbeat
    then show ?thesis by (simp add: handleHeartbeatPacket_def)
  qed simp_all
  then show "election_in_progress s' = election_in_progress s" "server_id s' = server_id s"
    by simp_all
qed

lemma request_thread_frame:
  assumes wf: "server_wf s" and r: "request_thread s p a = Some (s', effs)"
  shows "server_wf s'" "spawned effs = {#}" "current_role s' = current_role s"
    "election_in_progress s' = election_in_progress s" "discipline Free effs"
    "server_id s' = server_id s"
proof -
  let ?v = "int_of_u32 (ntohl (rq_value (data_req p)))" and ?q = "int_of_u32 (ntohl (rq_seqn (data_req p)))"
  let ?a = "inet_ntop (sin_addr a)" and ?b = "inet_ntop (rq_dest_addr (data_req p))"
  have i: "in_i32 ?v" "in_i32 ?q" by simp_all
  let ?st = "verdict s ?a ?b ?v ?q" and ?s = "outcome s ?a ?b ?v ?q"
  have "request_thread s p a = Some (?s, ([WriterLock] @ propagated ?s ?a ?b ?st @ [WriterUnlock] @
      (if should_notify ?st then [Notify] else [])) @
      [Send (ack_packet ?q \<lparr>rp_status = ?st, rp_balance = balance_of ?s ?a, rp_last_req = last_req_of ?s ?a\<rparr>) a])"
    unfolding request_thread_def processTransaction_eq [OF wf i(2)] Let_def by simp
  then have s': "s' = ?s" and e: "\<exists>m. effs = ([WriterLock] @ propagated ?s ?a ?b ?st @ [WriterUnlock] @
      (if should_notify ?st then [Notify] else [])) @ [Send m a]"
    using r by auto
  show "server_wf s'" unfolding s' by (rule server_wf_outcome [OF wf i])
  show "spawned effs = {#}" using e by auto
  show "discipline Free effs" using e by (auto simp: discipline_propagated)
  show "current_role s' = current_role s" "election_in_progress s' = election_in_progress s"
    "server_id s' = server_id s"
    unfolding s' by (rule outcome_frame)+
qed

end
