(* ===== verification/ProcessTheorems.thy ===== *)
theory ProcessTheorems
  imports Process
begin

text \<open>
  The life of a server process, over every interleaving of its threads and every sequence of
  datagrams: the invariant of its threads, and that its role only ever moves from standby to
  serving to demoted.
\<close>

section \<open>The invariant of the threads\<close>

text \<open>A detector is the one thread that watches for the primary or stands for election.\<close>

fun is_detector :: "thread \<Rightarrow> bool" where
  "is_detector MonitorTop = True"
| "is_detector MonitorWaiting = True"
| "is_detector ElectionTop = True"
| "is_detector ElectionSleeping = True"
| "is_detector _ = False"

definition detectors :: "thread multiset \<Rightarrow> nat" where
  "detectors T = size (filter_mset is_detector T)"

definition senders :: "thread multiset \<Rightarrow> nat" where
  "senders T = count T HeartbeatSender"

lemma detectors_simps [simp]:
  "detectors {#} = 0"
  "detectors (add_mset t T) = (if is_detector t then Suc (detectors T) else detectors T)"
  "detectors (T + U) = detectors T + detectors U"
  by (simp_all add: detectors_def)

lemma senders_simps [simp]:
  "senders {#} = 0"
  "senders (add_mset t T) = (if t = HeartbeatSender then Suc (senders T) else senders T)"
  "senders (T + U) = senders T + senders U"
  by (simp_all add: senders_def)

definition only_requests :: "thread multiset \<Rightarrow> bool" where
  "only_requests T \<longleftrightarrow> (\<forall>t\<in>#T. is_request t)"

lemma only_requests_counts:
  assumes "only_requests T"
  shows "detectors T = 0" "senders T = 0" "ElectionSleeping \<notin># T"
proof -
  have "detectors T = 0 \<and> senders T = 0 \<and> ElectionSleeping \<notin># T"
    using assms by (induction T) (auto simp: only_requests_def is_request_def)
  then show "detectors T = 0" "senders T = 0" "ElectionSleeping \<notin># T" by simp_all
qed

definition threads_ok :: "server_role \<Rightarrow> bool \<Rightarrow> thread multiset \<Rightarrow> bool" where
  "threads_ok role electing T \<longleftrightarrow>
     detectors T \<le> 1 \<and> senders T \<le> 1 \<and>
     (role = PRIMARY \<longrightarrow> detectors T = 0 \<and> senders T = 1) \<and>
     (detectors T = 1 \<longrightarrow> senders T = 0) \<and>
     (electing \<longleftrightarrow> ElectionSleeping \<in># T)"

definition proc_inv :: "process \<Rightarrow> bool" where
  "proc_inv P \<longleftrightarrow>
     server_wf (srv P) \<and> length (rbuf P) = PACKET_SIZE \<and>
     threads_ok (current_role (srv P)) (election_in_progress (srv P)) (pool P)"

lemma threads_ok_requests:
  assumes "threads_ok role e T" "only_requests U" "role' = role \<or> role' = BACKUP"
  shows "threads_ok role' e (T + U)"
  using assms only_requests_counts [OF assms(2)] by (auto simp: threads_ok_def)

lemma no_sleeper: "detectors T = 0 \<Longrightarrow> ElectionSleeping \<notin># T"
  by (auto dest!: multi_member_split)

lemma serve_inv:
  assumes "proc_inv P" "serve (srv P, rbuf P) dg = Some ((s', buf'), effs)"
  shows "proc_inv \<lparr>srv = s', rbuf = buf', pool = pool P + spawned effs\<rparr> \<and> discipline Free effs \<and>
    detectors (spawned effs) = 0 \<and> (current_role s' = PRIMARY \<longrightarrow> current_role (srv P) = PRIMARY)"
proof (cases "\<exists>bytes a. dg = Some (bytes, a) \<and> snd (recv_into (rbuf P) bytes) \<noteq> 0")
  case True
  then obtain bytes a where dg: "dg = Some (bytes, a)" "snd (recv_into (rbuf P) bytes) \<noteq> 0" by blast
  let ?buf = "fst (recv_into (rbuf P) bytes)"
  have r: "server_receive (srv P) ?buf a = Some (s', effs)" and buf': "buf' = ?buf"
    using assms(2) dg by (auto simp: serve_def split: prod.splits if_splits)
  have len: "length ?buf = PACKET_SIZE" using assms(1) by (simp add: proc_inv_def length_recv_into)
  have wf: "server_wf (srv P)" using assms(1) by (simp add: proc_inv_def)
  have reqs: "only_requests (spawned effs)"
    using spawned_server_receive [OF r] by (simp add: only_requests_def)
  have "threads_ok (current_role s') (election_in_progress s') (pool P + spawned effs)"
    using assms(1) server_receive_role [OF r] server_receive_flags(1) [OF r]
    by (intro threads_ok_requests [OF _ reqs]) (simp_all add: proc_inv_def)
  then show ?thesis
    using server_receive_safe [OF wf len r] len only_requests_counts(1) [OF reqs] server_receive_role [OF r]
    by (auto simp: proc_inv_def buf')
next
  case False
  then have "s' = srv P \<and> effs = [] \<and> length buf' = PACKET_SIZE"
    using assms length_recv_into [of "rbuf P"]
    by (auto simp: serve_def proc_inv_def split: option.splits prod.splits if_splits) (metis fst_conv)
  with assms(1) show ?thesis by (simp add: proc_inv_def)
qed

lemma spawned_announce [simp]: "spawned (announceNewPrimary s) = {#}"
  by (simp add: announceNewPrimary_def)

lemma discipline_announce [simp]: "discipline h (announceNewPrimary s) \<longleftrightarrow> h = Free"
  by (simp add: announceNewPrimary_def)

text \<open>What the step of a thread keeps, \<open>T'\<close> being the threads after it.\<close>

definition step_keeps :: "process \<Rightarrow> server \<Rightarrow> effect list \<Rightarrow> thread multiset \<Rightarrow> bool" where
  "step_keeps P s' effs T' \<longleftrightarrow>
     proc_inv \<lparr>srv = s', rbuf = rbuf P, pool = T'\<rparr> \<and> discipline Free effs \<and>
     detectors T' \<le> detectors (pool P) \<and>
     (current_role s' = PRIMARY \<longrightarrow> current_role (srv P) = PRIMARY \<or> detectors (pool P) = 1)"

lemma election_end_keeps:
  assumes inv: "proc_inv P" and T: "pool P = add_mset ElectionSleeping T"
  shows "step_keeps P (fst (election_end (srv P))) (snd (election_end (srv P)))
    (T + spawned (snd (election_end (srv P))))"
proof -
  note inv' = inv [unfolded proc_inv_def threads_ok_def T]
  have role: "current_role (srv P) = BACKUP" and z: "detectors T = 0" "senders T = 0"
    using inv' by (cases "current_role (srv P)"; simp)+
  show ?thesis
    using inv' z role no_sleeper [OF z(1)]
    by (cases "election_lost (srv P)")
      (simp_all add: step_keeps_def election_end_def promoteToPrimary_def proc_inv_def threads_ok_def
        T server_wf_def Let_def)
qed

lemma heartbeat_keeps:
  assumes inv: "proc_inv P" and T: "pool P = add_mset HeartbeatSender T"
    and st: "thread_step (srv P) HeartbeatSender = Some (s', effs, left)"
  shows "step_keeps P s' effs (T + left + spawned effs)"
proof (cases "current_role (srv P)")
  case PRIMARY
  then have "s' = srv P" "left = {#HeartbeatSender#}"
    "effs = [ReaderLock] @ send_all (bare_packet HEARTBEAT) (backup_servers (srv P)) @ [ReaderUnlock]"
    using st by (auto simp: heartbeat_round_def)
  then show ?thesis using inv by (simp add: step_keeps_def proc_inv_def threads_ok_def T)
next
  case BACKUP
  then have "s' = srv P" "left = {#}" "effs = []" using st by (simp_all add: heartbeat_round_def)
  then show ?thesis using inv BACKUP by (simp add: step_keeps_def proc_inv_def threads_ok_def T)
qed

lemma thread_step_inv:
  assumes inv: "proc_inv P" and t: "t \<in># pool P"
    and st: "thread_step (srv P) t = Some (s', effs, left)"
  shows "step_keeps P s' effs (pool P - {#t#} + left + spawned effs)"
proof -
  obtain T where T: "pool P = add_mset t T" using t by (blast dest: multi_member_split)
  note inv' = inv [unfolded proc_inv_def threads_ok_def T]
  note goal_defs = step_keeps_def proc_inv_def threads_ok_def T
  show ?thesis
  proof (cases t)
    case (RequestThread p a)
    then have r: "server_wf (srv P)" "request_thread (srv P) p a = Some (s', effs)" "left = {#}"
      using inv st by (auto simp: proc_inv_def)
    show ?thesis
      using inv' r(3) request_thread_frame [OF r(1,2)] by (simp add: goal_defs RequestThread)
  next
    case MonitorTop
    then have "current_role (srv P) = BACKUP" using inv' by (cases "current_role (srv P)") auto
    then have "s' = (srv P)\<lparr>primary_alive := False\<rparr>" "effs = []" "left = {#MonitorWaiting#}"
      using st MonitorTop by (auto simp: monitor_arm_def)
    then show ?thesis using inv' by (simp add: goal_defs MonitorTop server_wf_def)
  next
    case MonitorWaiting
    then show ?thesis using inv' st by (auto simp: goal_defs split: if_splits)
  next
    case ElectionTop
    then have "s' = fst (election_begin (srv P))" "effs = snd (election_begin (srv P))"
        "left = {#ElectionSleeping#}"
      using st by (auto split: prod.splits)
    then show ?thesis using inv' by (auto simp: goal_defs ElectionTop election_begin_def server_wf_def)
  next
    case ElectionSleeping
    then have "s' = fst (election_end (srv P))" "effs = snd (election_end (srv P))" "left = {#}"
      using st by (auto split: prod.splits)
    then show ?thesis using election_end_keeps [OF inv, of T] T ElectionSleeping by simp
  next
    case HeartbeatSender
    then show ?thesis using heartbeat_keeps [OF inv, of T s' effs left] st T by simp
  qed
qed

lemma proc_step_inv:
  assumes "proc_inv P" "proc_step P effs P'"
  shows "proc_inv P'" "discipline Free effs" "detectors (pool P') \<le> detectors (pool P)"
    "current_role (srv P') = PRIMARY \<Longrightarrow> current_role (srv P) = PRIMARY \<or> detectors (pool P) = 1"
proof -
  have "proc_inv P' \<and> discipline Free effs \<and> detectors (pool P') \<le> detectors (pool P) \<and>
    (current_role (srv P') = PRIMARY \<longrightarrow> current_role (srv P) = PRIMARY \<or> detectors (pool P) = 1)"
    using assms(2,1)
  proof cases
    case (receive dg s' buf')
    then show ?thesis using serve_inv [OF assms(1) receive(2)] by auto
  next
    case (run_thread t s' left)
    then show ?thesis
      using thread_step_inv [OF assms(1) run_thread(2,3)] by (simp add: step_keeps_def)
  qed
  then show "proc_inv P'" "discipline Free effs" "detectors (pool P') \<le> detectors (pool P)"
    "current_role (srv P') = PRIMARY \<Longrightarrow> current_role (srv P) = PRIMARY \<or> detectors (pool P) = 1"
    by blast+
qed

lemma server_start_cases:
  assumes "server_start s c b d fds port buf env = Some (Inr (s', effs))"
  obtains (primary) sends where "run_discovery_service_server port buf env = Some ([], sends)"
      "s' = fst (initPrimary s)" "effs = sends @ snd (initPrimary s)"
  | (backup) ip sends where "run_discovery_service_server port buf env = Some (ip, sends)" "ip \<noteq> []"
      "s' = fst (initBackup s ip port)" "effs = sends @ snd (initBackup s ip port)"
proof -
  obtain u v where u: "server_socket_up c b d port fds = Inr u" "ServerUDP_setReceiveTimeout u = Inr v"
    using assms by (auto simp: server_start_def split: sum.splits)
  obtain ip sends where r: "run_discovery_service_server port buf env = Some (ip, sends)"
    using assms u by (cases "run_discovery_service_server port buf env") (auto simp: server_start_def)
  show ?thesis
    using assms u r primary backup
    by (cases "ip = []") (auto simp: server_start_def case_prod_beta)
qed

lemma proc_started_inv:
  assumes "proc_started P" shows "proc_inv P"
proof -
  obtain port ident role0 alive0 addr0 c b d fds buf env effs where
    st: "server_start (server_new port ident role0 alive0 addr0) c b d fds port buf env =
      Some (Inr (srv P, effs))" and p: "pool P = spawned effs" "length (rbuf P) = PACKET_SIZE"
    using assms by (auto simp: proc_started_def)
  let ?s = "server_new port ident role0 alive0 addr0"
  have wf: "server_wf ?s" by simp
  have e0: "election_in_progress ?s = False" by (simp add: server_new_def)
  have sends: "spawned sends = {#}"
    if "run_discovery_service_server port buf env = Some (ip, sends)" for ip sends
    using that by (auto simp: run_discovery_service_server_def intro: spawned_none)
  from st show ?thesis
  proof (cases rule: server_start_cases)
    case (primary sends1)
    then show ?thesis
      using wf e0 p sends [OF primary(1)]
      by (simp add: initPrimary_def proc_inv_def threads_ok_def server_wf_def)
  next
    case (backup ip sends1)
    then have "pool P = {#MonitorTop#}" "server_wf (srv P) = server_wf ?s"
      "current_role (srv P) = BACKUP" "election_in_progress (srv P) = election_in_progress ?s"
      using p sends [OF backup(1)] by (simp_all add: initBackup_def server_wf_def Let_def)
    then show ?thesis using wf e0 p by (simp add: proc_inv_def threads_ok_def)
  qed
qed

lemma proc_reach_inv: "proc_reach P0 P \<Longrightarrow> proc_inv P0 \<Longrightarrow> proc_inv P"
  by (induction rule: proc_reach.induct) (auto dest: proc_step_inv(1))

lemma detectors_decrease:
  "proc_reach P0 P \<Longrightarrow> proc_inv P0 \<Longrightarrow> detectors (pool P) \<le> detectors (pool P0)"
proof (induction rule: proc_reach.induct)
  case (step P effs P')
  then show ?case using proc_step_inv(3) [OF proc_reach_inv [OF step(1,4)] step(2)] by simp
qed simp

lemma demoted_stays:
  assumes "proc_reach P0 P" "proc_inv P0" "detectors (pool P0) = 0" "current_role (srv P0) = BACKUP"
  shows "detectors (pool P) = 0 \<and> current_role (srv P) = BACKUP"
  using assms
proof (induction rule: proc_reach.induct)
  case (step P effs P')
  note i = proc_step_inv [OF proc_reach_inv [OF step(1,4)] step(2)]
  have "detectors (pool P) = 0" "current_role (srv P) = BACKUP" using step by auto
  with i(3,4) show ?case by (cases "current_role (srv P')") auto
qed simp

section \<open>The properties\<close>

text \<open>C9. In every state that a process can reach, whatever datagrams arrive and however its threads
  interleave: the data invariant holds; at most one thread watches for the primary or stands for
  election; a primary has no such thread and exactly one heartbeat sender; the flag
  \<open>election_in_progress\<close> is set exactly while an election thread sleeps; and every step respects
  the lock discipline.\<close>

theorem process_invariant:
  assumes "proc_started P0" "proc_reach P0 P" "proc_step P effs P'"
  shows "server_wf (srv P) \<and> detectors (pool P) \<le> 1 \<and>
    (current_role (srv P) = PRIMARY \<longrightarrow> detectors (pool P) = 0 \<and> senders (pool P) = 1) \<and>
    (election_in_progress (srv P) \<longleftrightarrow> ElectionSleeping \<in># pool P) \<and> discipline Free effs"
proof -
  have "proc_inv P" using proc_reach_inv [OF assms(2) proc_started_inv [OF assms(1)]] .
  then show ?thesis
    using proc_step_inv(2) [OF _ assms(3)] by (auto simp: proc_inv_def threads_ok_def)
qed

definition cold_start :: process where
  "cold_start = \<lparr>srv = server_new 4000 5 BACKUP False zero_sockaddr, rbuf = replicate PACKET_SIZE 0,
     pool = {#ElectionTop#}\<rparr>"

lemma cold_start_started: "proc_started cold_start"
proof -
  have "server_start (server_new 4000 5 BACKUP False zero_sockaddr) True True (\<lambda>_. True) [] 4000
      (replicate PACKET_SIZE 0) [(0, None)] =
    Some (Inr (srv cold_start, replicate 3 (Send (bare_packet SERVER_DISCOVERY) (broadcast_sockaddr 4000)) @ [SpawnElection]))"
    by (simp add: server_start_def run_discovery_service_server_def initPrimary_def cold_start_def
        server_new_def server_socket_up_def ServerUDP_createSocket_def ServerUDP_configureBroadcast_def
        ServerUDP_bindSocket_def ServerUDP_setReceiveTimeout_def sys_socket_def fd_open_def)
  moreover have "pool cold_start =
      spawned (replicate 3 (Send (bare_packet SERVER_DISCOVERY) (broadcast_sockaddr 4000)) @ [SpawnElection])"
    by (simp add: cold_start_def numeral_eq_Suc)
  ultimately show ?thesis
    unfolding proc_started_def by (intro exI conjI) (assumption+, simp add: cold_start_def)
qed

definition won :: server where
  "won = server_new 4000 5 PRIMARY False zero_sockaddr"

text \<open>Its election, with nobody answering.\<close>

lemma cold_start_wins:
  "\<exists>P. proc_reach cold_start P \<and> srv P = won \<and> pool P = {#HeartbeatSender#} \<and>
     rbuf P = replicate PACKET_SIZE 0"
proof -
  let ?s = "(srv cold_start)\<lparr>election_in_progress := True\<rparr>"
  let ?P1 = "\<lparr>srv = ?s, rbuf = replicate PACKET_SIZE 0, pool = {#ElectionSleeping#}\<rparr>"
  let ?P2 = "\<lparr>srv = won, rbuf = replicate PACKET_SIZE 0, pool = {#HeartbeatSender#}\<rparr>"
  obtain e1 where "proc_step cold_start e1 ?P1"
    using proc_step.run_thread [of ElectionTop cold_start]
    by (auto simp: cold_start_def election_begin_def server_new_def)
  moreover obtain e2 where "proc_step ?P1 e2 ?P2"
    using proc_step.run_thread [of ElectionSleeping ?P1]
    by (auto simp: cold_start_def election_end_def promoteToPrimary_def won_def server_new_def Let_def)
  ultimately have "proc_reach cold_start ?P2" by (meson proc_reach.intros)
  then show ?thesis by fastforce
qed

theorem process_invariant_witness:
  "server_wf (srv cold_start) \<and> detectors (pool cold_start) \<le> 1"
proof -
  have "proc_step cold_start [] \<lparr>srv = srv cold_start, rbuf = rbuf cold_start, pool = pool cold_start\<rparr>"
    using proc_step.receive [of cold_start None] by (simp add: serve_def)
  then show ?thesis using process_invariant [OF cold_start_started proc_reach.init] by blast
qed

text \<open>A server that has stopped being primary never becomes primary again, and no thread of it
  ever watches for a primary or stands for election: the announcement that demotes it starts no
  monitor, and its old one ended when it was elected.\<close>

lemma demoted_primary_never_returns:
  assumes "proc_started P0" "proc_reach P0 P" "current_role (srv P) = PRIMARY"
    and "proc_reach P P1" "current_role (srv P1) = BACKUP" "proc_reach P1 P2"
  shows "current_role (srv P2) = BACKUP \<and> detectors (pool P2) = 0"
proof -
  have i: "proc_inv P" using proc_reach_inv [OF assms(2) proc_started_inv [OF assms(1)]] .
  have z: "detectors (pool P) = 0" using i assms(3) by (simp add: proc_inv_def threads_ok_def)
  then have "detectors (pool P1) = 0" using detectors_decrease [OF assms(4) i] by simp
  then show ?thesis
    using demoted_stays [OF assms(6) proc_reach_inv [OF assms(4) i] _ assms(5)] by simp
qed

lemma announcement_received:
  assumes "length (rbuf P) = PACKET_SIZE" "server_id (srv P) \<noteq> ident"
  shows "\<exists>P'. proc_reach P P' \<and> current_role (srv P') = BACKUP"
proof -
  let ?p = "id_packet NEW_PRIMARY_ANNOUNCEMENT ident"
  have len: "length ?p = PACKET_SIZE" by (simp add: id_packet_def c_req.enc_width)
  have "serve (srv P, rbuf P) (Some (?p, zero_sockaddr)) =
      Some ((fst (handleNewPrimaryAnnouncementPacket (srv P) ?p zero_sockaddr), ?p),
        snd (handleNewPrimaryAnnouncementPacket (srv P) ?p zero_sockaddr))"
    by (simp add: serve_def recv_into_full [OF assms(1) len] server_receive_def PACKET_SIZE_def case_prod_beta)
  then have s: "proc_step P (snd (handleNewPrimaryAnnouncementPacket (srv P) ?p zero_sockaddr))
      \<lparr>srv = fst (handleNewPrimaryAnnouncementPacket (srv P) ?p zero_sockaddr), rbuf = ?p,
       pool = pool P + spawned (snd (handleNewPrimaryAnnouncementPacket (srv P) ?p zero_sockaddr))\<rparr>"
    by (rule proc_step.receive)
  have "current_role (fst (handleNewPrimaryAnnouncementPacket (srv P) ?p zero_sockaddr)) = BACKUP"
    using assms(2) by (simp add: handleNewPrimaryAnnouncementPacket_def Let_def)
  then show ?thesis using proc_reach.step [OF proc_reach.init s] by fastforce
qed

lemma demoted_primary_never_returns_witness:
  "\<exists>P P1. proc_reach cold_start P \<and> srv P = won \<and> proc_reach P P1 \<and>
     current_role (srv P1) = BACKUP \<and> detectors (pool P1) = 0"
proof -
  obtain P where P: "proc_reach cold_start P" "srv P = won" "rbuf P = replicate PACKET_SIZE 0"
    using cold_start_wins by blast
  have role: "current_role (srv P) = PRIMARY" "server_id (srv P) \<noteq> 8"
    by (simp_all add: P(2) won_def server_new_def)
  then obtain P1 where P1: "proc_reach P P1" "current_role (srv P1) = BACKUP"
    using announcement_received [of P 8] P(3) by auto
  show ?thesis
    using demoted_primary_never_returns [OF cold_start_started P(1) role(1) P1 proc_reach.init] P P1
    by blast
qed

end
