(* ===== verification/ElectionTheorems.thy ===== *)
theory ElectionTheorems
  imports ProcessTheorems
begin

text \<open>
  The properties of the failover: what two primaries that announce themselves to each other end up
  as, what a promotion carries over, and what the registration after it does to the other backups.
\<close>

section \<open>Two primaries\<close>

text \<open>The announcement of the other primary, received by a process whose primary it is.\<close>

definition deposed :: "process \<Rightarrow> packet \<Rightarrow> sockaddr \<Rightarrow> process" where
  "deposed P m sender =
     (case handleNewPrimaryAnnouncementPacket (srv P) m sender of
        (s', effs) \<Rightarrow> \<lparr>srv = s', rbuf = m, pool = pool P + spawned effs\<rparr>)"

lemma serve_announcement:
  assumes "length (rbuf P) = PACKET_SIZE" "m = id_packet NEW_PRIMARY_ANNOUNCEMENT ident"
  shows "serve (srv P, rbuf P) (Some (m, sender)) =
    Some ((fst (handleNewPrimaryAnnouncementPacket (srv P) m sender), m),
      snd (handleNewPrimaryAnnouncementPacket (srv P) m sender))"
proof -
  have "length m = PACKET_SIZE" using assms(2) by (simp add: id_packet_def c_req.enc_width)
  then show ?thesis
    using assms by (simp add: serve_def recv_into_full server_receive_def PACKET_SIZE_def case_prod_beta)
qed

lemma deposed_step:
  assumes "length (rbuf P) = PACKET_SIZE" "m = id_packet NEW_PRIMARY_ANNOUNCEMENT ident"
  shows "proc_step P (snd (handleNewPrimaryAnnouncementPacket (srv P) m sender)) (deposed P m sender)"
  using proc_step.receive [OF serve_announcement [OF assms, of sender]]
  by (simp add: deposed_def case_prod_beta)

lemma deposed_for_good:
  assumes "proc_inv P" "current_role (srv P) = PRIMARY" "ident \<noteq> server_id (srv P)"
    and m: "m = id_packet NEW_PRIMARY_ANNOUNCEMENT ident" and r: "proc_reach (deposed P m sender) P'"
  shows "current_role (srv P') = BACKUP \<and> detectors (pool P') = 0"
proof -
  have len: "length (rbuf P) = PACKET_SIZE" and z: "detectors (pool P) = 0"
    using assms(1,2) by (simp_all add: proc_inv_def threads_ok_def)
  note st = proc_step_inv [OF assms(1) deposed_step [OF len m, of sender]]
  have "current_role (srv (deposed P m sender)) = BACKUP"
    using assms(3) by (simp add: deposed_def m handleNewPrimaryAnnouncementPacket_def Let_def)
  then show ?thesis using demoted_stays [OF r st(1)] st(3) z by simp
qed

text \<open>C13. A split brain ends without a leader: two primaries of different identifiers that receive
  each other's announcement both step down, whichever identifier is greater, and whatever they
  receive afterwards neither ever serves again nor watches for a primary; each points to the
  other as its primary.\<close>

theorem split_brain_ends_leaderless:
  assumes "proc_started A0" "proc_reach A0 A" "current_role (srv A) = PRIMARY"
    and "proc_started B0" "proc_reach B0 B" "current_role (srv B) = PRIMARY"
    and "server_id (srv A) \<noteq> server_id (srv B)"
    and "Send mA toA \<in> set (announceNewPrimary (srv A))" "Send mB toB \<in> set (announceNewPrimary (srv B))"
  shows "(\<exists>effs. proc_step A effs (deposed A mB addrB)) \<and> (\<exists>effs. proc_step B effs (deposed B mA addrA)) \<and>
    primary_server_addr (srv (deposed A mB addrB)) = addrB \<and>
    primary_server_addr (srv (deposed B mA addrA)) = addrA \<and>
    (\<forall>A'. proc_reach (deposed A mB addrB) A' \<longrightarrow> current_role (srv A') = BACKUP \<and> detectors (pool A') = 0) \<and>
    (\<forall>B'. proc_reach (deposed B mA addrA) B' \<longrightarrow> current_role (srv B') = BACKUP \<and> detectors (pool B') = 0)"
proof -
  have m: "mA = id_packet NEW_PRIMARY_ANNOUNCEMENT (server_id (srv A))"
    "mB = id_packet NEW_PRIMARY_ANNOUNCEMENT (server_id (srv B))"
    using assms(8,9) by (simp_all add: announceNewPrimary_def)
  have inv: "proc_inv A" "proc_inv B"
    using proc_reach_inv proc_started_inv assms(1,2,4,5) by blast+
  then have len: "length (rbuf A) = PACKET_SIZE" "length (rbuf B) = PACKET_SIZE"
    by (simp_all add: proc_inv_def)
  have "primary_server_addr (srv (deposed A mB addrB)) = addrB"
    "primary_server_addr (srv (deposed B mA addrA)) = addrA"
    using assms(7) by (simp_all add: deposed_def m handleNewPrimaryAnnouncementPacket_def Let_def)
  then show ?thesis
    using deposed_step [OF len(1) m(2)] deposed_step [OF len(2) m(1)] assms(3,6,7)
      deposed_for_good [OF inv(1) _ _ m(2)] deposed_for_good [OF inv(2) _ _ m(1)] by metis
qed

text \<open>The same process with another identifier.\<close>

lemma started_elsewhere:
  "\<exists>P0 P. proc_started P0 \<and> proc_reach P0 P \<and> current_role (srv P) = PRIMARY \<and> server_id (srv P) = ident"
proof -
  let ?s = "server_new 4000 ident BACKUP False zero_sockaddr" and ?buf = "replicate PACKET_SIZE 0"
  let ?effs = "replicate 3 (Send (bare_packet SERVER_DISCOVERY) (broadcast_sockaddr 4000)) @ [SpawnElection]"
  let ?P0 = "\<lparr>srv = ?s, rbuf = ?buf, pool = {#ElectionTop#}\<rparr>"
  let ?P1 = "\<lparr>srv = ?s\<lparr>election_in_progress := True\<rparr>, rbuf = ?buf, pool = {#ElectionSleeping#}\<rparr>"
  let ?P2 = "\<lparr>srv = ?s\<lparr>current_role := PRIMARY\<rparr>, rbuf = ?buf, pool = {#HeartbeatSender#}\<rparr>"
  have "server_start ?s True True (\<lambda>_. True) [] 4000 ?buf [(0, None)] = Some (Inr (srv ?P0, ?effs))"
    by (simp add: server_start_def run_discovery_service_server_def initPrimary_def
        server_new_def server_socket_up_def ServerUDP_createSocket_def ServerUDP_configureBroadcast_def
        ServerUDP_bindSocket_def ServerUDP_setReceiveTimeout_def sys_socket_def fd_open_def)
  moreover have "pool ?P0 = spawned ?effs" by (simp add: numeral_eq_Suc)
  ultimately have "proc_started ?P0"
    unfolding proc_started_def by (intro exI conjI) (assumption+, simp)
  moreover obtain e1 where "proc_step ?P0 e1 ?P1"
    using proc_step.run_thread [of ElectionTop ?P0] by (auto simp: election_begin_def server_new_def)
  moreover obtain e2 where "proc_step ?P1 e2 ?P2"
    using proc_step.run_thread [of ElectionSleeping ?P1]
    by (auto simp: election_end_def promoteToPrimary_def server_new_def Let_def)
  ultimately have "proc_started ?P0 \<and> proc_reach ?P0 ?P2" by (meson proc_reach.intros)
  then show ?thesis
    by (intro exI [of _ ?P0] exI [of _ ?P2]) (simp add: server_new_def)
qed

theorem split_brain_ends_leaderless_witness:
  "\<exists>(A :: process) B. server_id (srv A) = 5 \<and> server_id (srv B) = 6 \<and> current_role (srv A) = PRIMARY \<and>
     current_role (srv B) = PRIMARY \<and>
     (\<forall>B'. proc_reach (deposed B (id_packet NEW_PRIMARY_ANNOUNCEMENT 5) zero_sockaddr) B' \<longrightarrow>
        current_role (srv B') = BACKUP)"
proof -
  obtain A0 A where a: "proc_started A0" "proc_reach A0 A" "current_role (srv A) = PRIMARY"
    "server_id (srv A) = 5" using started_elsewhere by blast
  obtain B0 B where b: "proc_started B0" "proc_reach B0 B" "current_role (srv B) = PRIMARY"
    "server_id (srv B) = 6" using started_elsewhere by blast
  have ids: "server_id (srv A) \<noteq> server_id (srv B)" using a(4) b(4) by simp
  have "Send (id_packet NEW_PRIMARY_ANNOUNCEMENT 5) (broadcast_sockaddr (socket_port (srv A))) \<in>
      set (announceNewPrimary (srv A))"
    "Send (id_packet NEW_PRIMARY_ANNOUNCEMENT 6) (broadcast_sockaddr (socket_port (srv B))) \<in>
      set (announceNewPrimary (srv B))"
    using a(4) b(4) by (simp_all add: announceNewPrimary_def)
  from split_brain_ends_leaderless [OF a(1-3) b(1-3) ids this, of zero_sockaddr zero_sockaddr]
  show ?thesis using a b by blast
qed

section \<open>Failover\<close>

text \<open>A request that the old primary executed and replicated is not executed again by the backup
  that takes over: sent again to the promoted backup, it is a duplicate.\<close>

lemma at_most_once_across_failover:
  assumes "replicating addr (p, b)" "in_i32 v" "in_i32 q"
    and "processTransaction p (inet_ntop a) dest v q = Some (p', effs, r)" "rp_status r = SUCCESS"
    and "receive_all b sender (sends_to addr effs) = Some b'"
    and "processTransaction (fst (promoteToPrimary b')) (inet_ntop a) dest v q = Some (b2, effs2, r2)"
  shows "rp_status r2 = ERROR_DUPLICATE_REQUEST"
proof -
  let ?a = "inet_ntop a" and ?d = "inet_ntop dest"
  have wf: "server_wf p" using assms(1) by (simp add: replicating_def)
  have ok: "verdict p ?a ?d v q = SUCCESS"
    and e: "effs = [WriterLock] @ propagated (outcome p ?a ?d v q) ?a ?d SUCCESS @ [WriterUnlock] @
      (if should_notify SUCCESS then [Notify] else [])"
    using assms(4,5) by (auto simp: processTransaction_eq [OF wf assms(3)] Let_def)
  have o: "outcome p ?a ?d v q = committed p ?a ?d v q" using ok by (simp add: outcome_def)
  have s: "sends_to addr effs = sends_to addr (propagated (committed p ?a ?d v q) ?a ?d SUCCESS)"
    by (simp add: e o)
  have rep': "replicating addr (committed p ?a ?d v q, b')"
    using replicating_commit [OF assms(1) ok assms(2,3), of sender] assms(6) by (auto simp: s)
  obtain c where c: "account p ?a = Some c" "account p ?d \<noteq> None" "cl_address c = ?a"
    using ok account_address by (metis option.distinct(1) verdict_SUCCESSE)
  let ?b = "fst (promoteToPrimary b')"
  have acc: "account ?b ip = account (committed p ?a ?d v q) ip" for ip
    using rep' by (intro account_same_elems) (auto simp: replicating_def replica_of_def promoteToPrimary_def Let_def)
  have "account ?b ?a = Some (settle_row ?a ?d v q c)" "account ?b ?d \<noteq> None"
    using c by (simp_all add: acc)
  moreover have "cl_last_req (settle_row ?a ?d v q c) = q" using c(3) by (simp add: last_req_settle_row)
  ultimately have v2: "verdict ?b ?a ?d v q = ERROR_DUPLICATE_REQUEST"
    by (auto simp: verdict_def split: option.split)
  have "server_wf ?b"
  proof -
    have "server_wf (committed p ?a ?d v q)" using rep' by (simp add: replicating_def)
    moreover have "elems (clients ?b) = elems (clients (committed p ?a ?d v q))"
      "table_wf cl_address (clients ?b)"
      "transaction_history ?b = transaction_history (committed p ?a ?d v q)"
      "num_transactions ?b = num_transactions (committed p ?a ?d v q)"
      "total_transferred ?b = total_transferred (committed p ?a ?d v q)"
      "total_balance ?b = total_balance (committed p ?a ?d v q)"
      using rep' by (auto simp: replicating_def replica_of_def promoteToPrimary_def Let_def)
    ultimately show ?thesis by (simp add: server_wf_def)
  qed
  then show ?thesis
    using assms(7) v2 by (auto simp: processTransaction_eq [OF _ assms(3)] Let_def)
qed

lemma demo_failover_step:
  assumes "processTransaction (demo\<lparr>backup_servers := [demo_addr]\<rparr>) (inet_ntop 1) 2 100 1 = Some (p, effs, r)"
  obtains b where "receive_all demo_backup zero_sockaddr (sends_to demo_addr effs) = Some b"
    "replicating demo_addr (p, b)" "rp_status r = SUCCESS"
proof -
  let ?d = "demo\<lparr>backup_servers := [demo_addr]\<rparr>"
  have wf: "server_wf ?d" using replicating_demo by (simp add: replicating_def)
  have ok: "verdict ?d (inet_ntop 1) (inet_ntop 2) 100 1 = SUCCESS"
    using demo_verdict by (simp add: verdict_def account_same_clients [of ?d demo])
  have i: "in_i32 100" "in_i32 1" by (simp_all add: in_i32_def)
  have "effs = [WriterLock] @ propagated (committed ?d (inet_ntop 1) (inet_ntop 2) 100 1)
      (inet_ntop 1) (inet_ntop 2) SUCCESS @ [WriterUnlock] @ (if should_notify SUCCESS then [Notify] else [])"
    "p = committed ?d (inet_ntop 1) (inet_ntop 2) 100 1" "rp_status r = SUCCESS"
    using assms ok by (auto simp: processTransaction_eq [OF wf i(2)] outcome_def Let_def)
  with replicating_commit [OF replicating_demo ok i, of zero_sockaddr] that show ?thesis by auto
qed

lemma at_most_once_across_failover_witness:
  "\<exists>p effs r b b2 effs2 r2.
     processTransaction (demo\<lparr>backup_servers := [demo_addr]\<rparr>) (inet_ntop 1) 2 100 1 = Some (p, effs, r) \<and>
     receive_all demo_backup zero_sockaddr (sends_to demo_addr effs) = Some b \<and>
     processTransaction (fst (promoteToPrimary b)) (inet_ntop 1) 2 100 1 = Some (b2, effs2, r2) \<and>
     rp_status r2 = ERROR_DUPLICATE_REQUEST"
proof -
  have i: "in_i32 100" "in_i32 1" by (simp_all add: in_i32_def)
  have "server_wf (demo\<lparr>backup_servers := [demo_addr]\<rparr>)"
    using replicating_demo by (simp add: replicating_def)
  then obtain p effs r where p:
    "processTransaction (demo\<lparr>backup_servers := [demo_addr]\<rparr>) (inet_ntop 1) 2 100 1 = Some (p, effs, r)"
    using i(2) processTransaction_eq by (simp add: Let_def)
  then obtain b where b: "receive_all demo_backup zero_sockaddr (sends_to demo_addr effs) = Some b"
    "replicating demo_addr (p, b)" "rp_status r = SUCCESS" by (rule demo_failover_step)
  have "server_wf (fst (promoteToPrimary b))"
    using b(2) by (auto simp: replicating_def replica_of_def promoteToPrimary_def server_wf_def Let_def)
  then obtain b2 effs2 r2 where b2:
    "processTransaction (fst (promoteToPrimary b)) (inet_ntop 1) 2 100 1 = Some (b2, effs2, r2)"
    using i(2) processTransaction_eq by (simp add: Let_def)
  show ?thesis using at_most_once_across_failover [OF replicating_demo i p b(3,1) b2] p b b2 by blast
qed

lemma server_wf_with_history:
  assumes "server_wf s" "\<forall>t\<in>set h. valid_transaction t"
  shows "server_wf (with_history s h)"
  using assms counters_wrap by (auto simp: server_wf_def with_history_def)

text \<open>C30. A registration gives a backup that knows the clients nothing but the history once more. A
  backup that survives a failover answers the announcement with a registration, receives the copy,
  keeps its accounts as they are, up to date or not, and appends the whole history of the new
  primary to its own, which doubles what it had. When it takes over later, it judges every request
  by the accounts it had before: a transfer that it had missed, and that the primary in between has
  executed, is executed again.\<close>

theorem registration_refreshes_nothing:
  assumes "server_wf a" "dotted_clients a" "current_role a = BACKUP"
    and "server_wf b" "current_role b = BACKUP" "server_id a \<noteq> server_id b"
    and "\<forall>c\<in>set (elems (clients a)). account b (cl_address c) \<noteq> None"
    and "Send m to \<in> set (snd (promoteToPrimary a))"
  shows "\<exists>b1 reg a2 snapshot b2.
    server_receive b m addr_a = Some (b1, [Send reg addr_a]) \<and>
    server_receive (fst (promoteToPrimary a)) reg addr_b = Some (a2, snapshot) \<and>
    receive_all b1 addr_a (sends_to addr_b snapshot) = Some b2 \<and>
    backup_servers a2 = [addr_b] \<and> transaction_history a2 = transaction_history a \<and>
    clients b2 = clients b \<and> transaction_history b2 = transaction_history b @ transaction_history a \<and>
    (\<forall>src d v q. in_i32 q \<longrightarrow>
      (\<exists>s effs r. processTransaction (fst (promoteToPrimary b2)) src d v q = Some (s, effs, r) \<and>
         rp_status r = verdict b src (inet_ntop d) v q))"
proof -
  let ?a1 = "a\<lparr>current_role := PRIMARY, backup_servers := []\<rparr>"
  let ?b1 = "fst (handleNewPrimaryAnnouncementPacket b m addr_a)"
  let ?b2 = "with_history ?b1 (transaction_history a)"
  have a1: "fst (promoteToPrimary a) = ?a1" and m: "m = id_packet NEW_PRIMARY_ANNOUNCEMENT (server_id a)"
    using assms(3,8) by (auto simp: promoteToPrimary_def announceNewPrimary_def locked_def Let_def)
  have b1: "clients ?b1 = clients b" "transaction_history ?b1 = transaction_history b"
    "num_transactions ?b1 = num_transactions b" "total_transferred ?b1 = total_transferred b"
    "total_balance ?b1 = total_balance b" "current_role ?b1 = BACKUP"
    using assms(5) by (simp_all add: handleNewPrimaryAnnouncementPacket_def Let_def)
  have r1: "server_receive b m addr_a = Some (?b1, [Send (bare_packet REGISTER_BACKUP) addr_a])"
    using assms(6) by (simp add: server_receive_def m handleNewPrimaryAnnouncementPacket_def Let_def)
  have r2: "server_receive ?a1 (bare_packet REGISTER_BACKUP) addr_b = Some (registerBackup ?a1 addr_b)"
    by (simp add: server_receive_def)
  have "snapshot_packets ?a1 = snapshot_packets a" by (simp add: snapshot_packets_def)
  moreover have acc: "account ?b1 = account b" using b1(1) by (rule account_same_clients)
  ultimately have r3: "receive_all ?b1 addr_a (sends_to addr_b (snd (registerBackup ?a1 addr_b))) = Some ?b2"
    using snapshot_known [OF assms(1,2) b1(6)] assms(7) by simp
  have "server_wf ?b1" using assms(4) b1(1-5) by (simp add: server_wf_def)
  then have "server_wf ?b2" using assms(1) by (intro server_wf_with_history) (simp_all add: server_wf_def)
  then have wf: "server_wf (fst (promoteToPrimary ?b2))" by (simp add: promoteToPrimary_def server_wf_def Let_def)
  have "account (fst (promoteToPrimary ?b2)) = account b"
    by (rule account_same_clients) (simp add: promoteToPrimary_def with_history_def b1(1) Let_def)
  then have "verdict (fst (promoteToPrimary ?b2)) src y v q = verdict b src y v q" for src y v q
    by (simp add: verdict_def)
  then have judged: "\<forall>src d v q. in_i32 q \<longrightarrow>
      (\<exists>s effs r. processTransaction (fst (promoteToPrimary ?b2)) src d v q = Some (s, effs, r) \<and>
         rp_status r = verdict b src (inet_ntop d) v q)"
    by (simp add: processTransaction_eq [OF wf] Let_def)
  have "backup_servers (fst (registerBackup ?a1 addr_b)) = [addr_b]"
    "transaction_history (fst (registerBackup ?a1 addr_b)) = transaction_history a"
    "clients ?b2 = clients b" "transaction_history ?b2 = transaction_history b @ transaction_history a"
    using b1 by (simp_all add: registerBackup_def with_history_def)
  then show ?thesis
    using r1 r2 r3 judged unfolding a1
    by (intro exI [of _ ?b1] exI [of _ "bare_packet REGISTER_BACKUP"]
        exI [of _ "fst (registerBackup ?a1 addr_b)"] exI [of _ "snd (registerBackup ?a1 addr_b)"]
        exI [of _ ?b2]) simp
qed

text \<open>The backup missed the transfer of request 1; the new primary has it, and the backup that takes
  over from it accepts request 1 again.\<close>

theorem registration_refreshes_nothing_witness:
  "\<exists>p effs r (b2 :: server) s effs2 r2.
     processTransaction demo (inet_ntop 1) 2 100 1 = Some (p, effs, r) \<and> rp_status r = SUCCESS \<and>
     transaction_history b2 = transaction_history p \<and>
     processTransaction (fst (promoteToPrimary b2)) (inet_ntop 1) 2 100 1 = Some (s, effs2, r2) \<and>
     rp_status r2 = SUCCESS"
proof -
  have i: "in_i32 100" "in_i32 1" by (simp_all add: in_i32_def)
  let ?p = "committed demo (inet_ntop 1) (inet_ntop 2) 100 1"
  obtain effs r where p: "processTransaction demo (inet_ntop 1) 2 100 1 = Some (?p, effs, r)" "rp_status r = SUCCESS"
    using demo_verdict by (simp add: processTransaction_eq [OF demo_wf i(2)] outcome_def Let_def)
  let ?a = "?p\<lparr>current_role := BACKUP, server_id := 7\<rparr>" and ?b = "demo\<lparr>current_role := BACKUP, server_id := 8\<rparr>"
  have "server_wf ?p" using demo_wf i by (rule server_wf_committed)
  moreover have "map cl_address (elems (clients ?p)) = map cl_address (elems (clients demo))"
    by (simp add: clients_committed settled_def settle_row_def comp_def Let_def)
  then have "cl_address ` set (elems (clients ?p)) = cl_address ` set (elems (clients demo))"
    by (metis set_map)
  then have rows: "cl_address c \<in> {inet_ntop 1, inet_ntop 2}" if "c \<in> set (elems (clients ?p))" for c
    using that by (auto simp: demo_simps)
  have acc: "account ?b = account demo" by (rule account_same_clients) simp
  have "dotted_clients ?a" using rows by (fastforce simp: dotted_clients_def dotted_def)
  moreover have "\<forall>c\<in>set (elems (clients ?a)). account ?b (cl_address c) \<noteq> None"
    unfolding acc using rows by fastforce
  ultimately have h: "server_wf ?a" "dotted_clients ?a" "server_wf ?b"
    "\<forall>c\<in>set (elems (clients ?a)). account ?b (cl_address c) \<noteq> None"
    using demo_wf by (simp_all add: server_wf_def)
  have m: "Send (id_packet NEW_PRIMARY_ANNOUNCEMENT 7) (broadcast_sockaddr (socket_port ?p)) \<in> set (snd (promoteToPrimary ?a))"
    by (simp add: promoteToPrimary_def announceNewPrimary_def Let_def)
  obtain b2 :: server where b2: "transaction_history b2 = transaction_history demo @ transaction_history ?p"
    and j: "\<forall>src d v q. in_i32 q \<longrightarrow>
      (\<exists>s effs r. processTransaction (fst (promoteToPrimary b2)) src d v q = Some (s, effs, r) \<and>
         rp_status r = verdict ?b src (inet_ntop d) v q)"
    using registration_refreshes_nothing [OF h(1,2) _ h(3) _ _ h(4) m, of zero_sockaddr demo_addr] by auto
  have "verdict ?b (inet_ntop 1) (inet_ntop 2) 100 1 = SUCCESS"
    using demo_verdict by (simp add: verdict_def account_same_clients [of ?b demo])
  then obtain s effs2 r2 where "processTransaction (fst (promoteToPrimary b2)) (inet_ntop 1) 2 100 1 = Some (s, effs2, r2)"
    "rp_status r2 = SUCCESS" using j i(2) by metis
  moreover have "transaction_history demo = []" by (simp add: demo_simps)
  ultimately show ?thesis using p b2 by auto
qed

end
