(* ===== verification/RWLock.thy ===== *)
theory RWLock
  imports Prelude
begin

text \<open>
  The readers-writer lock of server/Server.cpp: \<open>reader_lock\<close>, \<open>reader_unlock\<close>, \<open>writer_lock\<close> and
  \<open>writer_unlock\<close> over \<open>data_mutex\<close> and the condition variables \<open>reader_cv\<close> and \<open>writer_cv\<close>. What
  a thread does while it holds the mutex is one step. A wait on a condition variable is the
  code's: check the predicate, block and give up the mutex, be woken (by a notification or
  spuriously), take the mutex again and check the predicate again.
\<close>

section \<open>State\<close>

text \<open>Where a thread is: blocked on a condition variable, or woken and about to take the mutex.\<close>

datatype pc = Idle | ReaderBlocked | ReaderAwake | InRead | WriterBlocked | WriterAwake | InWrite

record rwlock =
  readers_count :: int
  writer_active :: bool
  writers_waiting :: int
  pcs :: "pc list"

definition rw_new :: "nat \<Rightarrow> rwlock" where
  "rw_new n =
     \<lparr>readers_count = 0, writer_active = False, writers_waiting = 0, pcs = replicate n Idle\<rparr>"

abbreviation at_pc :: "rwlock \<Rightarrow> pc \<Rightarrow> nat" where
  "at_pc s p \<equiv> count_list (pcs s) p"

section \<open>Operations\<close>

definition goto :: "nat \<Rightarrow> pc \<Rightarrow> rwlock \<Rightarrow> rwlock" where
  "goto i p s = s\<lparr>pcs := (pcs s)[i := p]\<rparr>"

text \<open>One check of the predicate of \<open>reader_cv.wait\<close>, and what follows it.\<close>

definition reader_check :: "nat \<Rightarrow> rwlock \<Rightarrow> rwlock" where
  "reader_check i s =
     (if \<not> writer_active s \<and> writers_waiting s = 0
      then goto i InRead (s\<lparr>readers_count := readers_count s + 1\<rparr>)
      else goto i ReaderBlocked s)"

definition reader_lock :: "nat \<Rightarrow> rwlock \<Rightarrow> rwlock" where
  "reader_lock i s = reader_check i s"

text \<open>\<open>notify_one\<close> wakes some blocked writer, or nobody when none is blocked.\<close>

definition notify_one_writer :: "nat \<Rightarrow> rwlock \<Rightarrow> rwlock" where
  "notify_one_writer j s =
     (if j < length (pcs s) \<and> pcs s ! j = WriterBlocked then goto j WriterAwake s else s)"

definition may_notify :: "nat \<Rightarrow> rwlock \<Rightarrow> bool" where
  "may_notify j s \<longleftrightarrow>
     (WriterBlocked \<in> set (pcs s) \<longrightarrow> j < length (pcs s) \<and> pcs s ! j = WriterBlocked)"

definition notify_all_readers :: "rwlock \<Rightarrow> rwlock" where
  "notify_all_readers s =
     s\<lparr>pcs := map (\<lambda>p. if p = ReaderBlocked then ReaderAwake else p) (pcs s)\<rparr>"

definition reader_unlock :: "nat \<Rightarrow> nat \<Rightarrow> rwlock \<Rightarrow> rwlock" where
  "reader_unlock i j s =
     (let s1 = goto i Idle (s\<lparr>readers_count := readers_count s - 1\<rparr>) in
      if readers_count s1 = 0 then notify_one_writer j s1 else s1)"

definition writer_check :: "nat \<Rightarrow> rwlock \<Rightarrow> rwlock" where
  "writer_check i s =
     (if readers_count s = 0 \<and> \<not> writer_active s
      then goto i InWrite (s\<lparr>writers_waiting := writers_waiting s - 1, writer_active := True\<rparr>)
      else goto i WriterBlocked s)"

definition writer_lock :: "nat \<Rightarrow> rwlock \<Rightarrow> rwlock" where
  "writer_lock i s = writer_check i (s\<lparr>writers_waiting := writers_waiting s + 1\<rparr>)"

definition writer_unlock :: "nat \<Rightarrow> nat \<Rightarrow> rwlock \<Rightarrow> rwlock" where
  "writer_unlock i j s =
     (let s1 = goto i Idle (s\<lparr>writer_active := False\<rparr>) in
      if writers_waiting s1 > 0 then notify_one_writer j s1 else notify_all_readers s1)"

section \<open>Steps\<close>

text \<open>\<open>j\<close> is the writer that a notification picks, any blocked one.\<close>

inductive rw_step :: "rwlock \<Rightarrow> rwlock \<Rightarrow> bool" where
  reader_lock: "i < length (pcs s) \<Longrightarrow> pcs s ! i = Idle \<Longrightarrow> rw_step s (reader_lock i s)"
| reader_recheck: "i < length (pcs s) \<Longrightarrow> pcs s ! i = ReaderAwake \<Longrightarrow> rw_step s (reader_check i s)"
| reader_wakes: "i < length (pcs s) \<Longrightarrow> pcs s ! i = ReaderBlocked \<Longrightarrow> rw_step s (goto i ReaderAwake s)"
| reader_unlock: "i < length (pcs s) \<Longrightarrow> pcs s ! i = InRead \<Longrightarrow> may_notify j s \<Longrightarrow>
     rw_step s (reader_unlock i j s)"
| writer_lock: "i < length (pcs s) \<Longrightarrow> pcs s ! i = Idle \<Longrightarrow> rw_step s (writer_lock i s)"
| writer_recheck: "i < length (pcs s) \<Longrightarrow> pcs s ! i = WriterAwake \<Longrightarrow> rw_step s (writer_check i s)"
| writer_wakes: "i < length (pcs s) \<Longrightarrow> pcs s ! i = WriterBlocked \<Longrightarrow> rw_step s (goto i WriterAwake s)"
| writer_unlock: "i < length (pcs s) \<Longrightarrow> pcs s ! i = InWrite \<Longrightarrow> may_notify j s \<Longrightarrow>
     rw_step s (writer_unlock i j s)"

inductive rw_reach :: "nat \<Rightarrow> rwlock \<Rightarrow> bool" for n where
  init: "rw_reach n (rw_new n)"
| step: "rw_reach n s \<Longrightarrow> rw_step s s' \<Longrightarrow> rw_reach n s'"

section \<open>Counting threads\<close>

lemma count_pos: "i < length xs \<Longrightarrow> xs ! i = y \<Longrightarrow> 0 < count_list xs y"
  by (metis count_list_0_iff gr0I nth_mem)

lemma count_list_update:
  "i < length xs \<Longrightarrow> count_list (xs[i := x]) y =
     count_list xs y + (if x = y then 1 else 0) - (if xs ! i = y then 1 else 0)"
proof (induction xs arbitrary: i)
  case (Cons a xs)
  show ?case
  proof (cases i)
    case (Suc k)
    moreover have "xs ! k = y \<Longrightarrow> 0 < count_list xs y"
      using Cons.prems Suc by (intro count_pos) auto
    ultimately show ?thesis using Cons by auto
  qed simp
qed simp

lemma at_pc_goto:
  "i < length (pcs s) \<Longrightarrow> at_pc (goto i p s) q =
     at_pc s q + (if p = q then 1 else 0) - (if pcs s ! i = q then 1 else 0)"
  by (simp add: goto_def count_list_update)

lemma goto_simps [simp]:
  "readers_count (goto i p s) = readers_count s" "writer_active (goto i p s) = writer_active s"
  "writers_waiting (goto i p s) = writers_waiting s" "length (pcs (goto i p s)) = length (pcs s)"
  by (simp_all add: goto_def)

lemma count_wake:
  "count_list (map (\<lambda>p. if p = ReaderBlocked then ReaderAwake else p) xs) q =
     (if q = ReaderBlocked then 0
      else if q = ReaderAwake then count_list xs ReaderAwake + count_list xs ReaderBlocked
      else count_list xs q)"
  by (induction xs) auto

section \<open>The invariant\<close>

text \<open>
  The counters count the threads; readers and writers exclude each other; a reader is blocked only
  while a writer is in or waits; and when writers are blocked although the lock is free for them,
  one of them has been woken. The last two are what makes no notification get lost.
\<close>

definition rw_inv :: "rwlock \<Rightarrow> bool" where
  "rw_inv s \<longleftrightarrow>
     readers_count s = int (at_pc s InRead) \<and>
     writers_waiting s = int (at_pc s WriterBlocked + at_pc s WriterAwake) \<and>
     at_pc s InWrite = (if writer_active s then 1 else 0) \<and>
     (writer_active s \<longrightarrow> at_pc s InRead = 0) \<and>
     (at_pc s ReaderBlocked > 0 \<longrightarrow> writer_active s \<or> writers_waiting s > 0) \<and>
     (at_pc s WriterBlocked > 0 \<and> readers_count s = 0 \<and> \<not> writer_active s \<longrightarrow> at_pc s WriterAwake > 0)"

lemma rw_inv_new: "rw_inv (rw_new n)"
  by (simp add: rw_inv_def rw_new_def count_list_0_iff)

lemma reader_check_inv:
  assumes "rw_inv s" "i < length (pcs s)" "pcs s ! i \<in> {Idle, ReaderAwake}"
  shows "rw_inv (reader_check i s)"
proof (cases "\<not> writer_active s \<and> writers_waiting s = 0")
  case True
  with assms show ?thesis by (auto simp: reader_check_def rw_inv_def at_pc_goto)
next
  case False
  with assms show ?thesis by (auto simp: reader_check_def rw_inv_def at_pc_goto)
qed

lemma rw_inv_goto:
  assumes "rw_inv s" "i < length (pcs s)" "(pcs s ! i, p) \<in> {(ReaderBlocked, ReaderAwake), (WriterBlocked, WriterAwake)}"
  shows "rw_inv (goto i p s)"
  using assms count_pos [OF assms(2) refl] by (auto simp: rw_inv_def at_pc_goto)

lemma writer_check_inv:
  assumes "rw_inv s" "i < length (pcs s)" "pcs s ! i = WriterAwake"
  shows "rw_inv (writer_check i s)"
proof (cases "readers_count s = 0 \<and> \<not> writer_active s")
  case True
  with assms count_pos [OF assms(2,3)] show ?thesis
    by (auto simp: writer_check_def rw_inv_def at_pc_goto)
next
  case False
  with assms count_pos [OF assms(2,3)] show ?thesis
    by (auto simp: writer_check_def rw_inv_def at_pc_goto)
qed

lemma writer_lock_inv:
  assumes "rw_inv s" "i < length (pcs s)" "pcs s ! i = Idle"
  shows "rw_inv (writer_lock i s)"
proof (cases "readers_count s = 0 \<and> \<not> writer_active s")
  case True
  with assms show ?thesis by (auto simp: writer_lock_def writer_check_def rw_inv_def at_pc_goto)
next
  case False
  with assms show ?thesis by (auto simp: writer_lock_def writer_check_def rw_inv_def at_pc_goto)
qed

text \<open>A thread gives up the lock, and a notification follows.\<close>

lemma at_pc_leave:
  assumes "i < length (pcs s)" "pcs s ! i = q0" "q0 \<noteq> Idle" "pcs s1 = (pcs s)[i := Idle]"
  shows "at_pc s1 q = at_pc s q + (if Idle = q then 1 else 0) - (if q0 = q then 1 else 0)"
  using assms by (simp add: count_list_update)

lemma at_pc_notify:
  assumes "may_notify j s"
  shows "at_pc (notify_one_writer j s) WriterBlocked = at_pc s WriterBlocked - 1"
    "at_pc (notify_one_writer j s) WriterAwake =
       at_pc s WriterAwake + (if at_pc s WriterBlocked > 0 then 1 else 0)"
    "q \<noteq> WriterBlocked \<Longrightarrow> q \<noteq> WriterAwake \<Longrightarrow> at_pc (notify_one_writer j s) q = at_pc s q"
proof -
  have "at_pc s WriterBlocked > 0 \<longleftrightarrow> WriterBlocked \<in> set (pcs s)"
    by (metis count_list_0_iff gr_zeroI less_irrefl)
  moreover have "WriterBlocked \<in> set (pcs s)" if "j < length (pcs s)" "pcs s ! j = WriterBlocked"
    using that by (metis nth_mem)
  ultimately show "at_pc (notify_one_writer j s) WriterBlocked = at_pc s WriterBlocked - 1"
    "at_pc (notify_one_writer j s) WriterAwake =
       at_pc s WriterAwake + (if at_pc s WriterBlocked > 0 then 1 else 0)"
    "q \<noteq> WriterBlocked \<Longrightarrow> q \<noteq> WriterAwake \<Longrightarrow> at_pc (notify_one_writer j s) q = at_pc s q"
    using assms by (auto simp: notify_one_writer_def may_notify_def at_pc_goto)
qed

lemma notify_one_simps [simp]:
  "readers_count (notify_one_writer j s) = readers_count s"
  "writer_active (notify_one_writer j s) = writer_active s"
  "writers_waiting (notify_one_writer j s) = writers_waiting s"
  by (simp_all add: notify_one_writer_def)

lemma may_notify_leave:
  assumes "may_notify j s" "pcs s ! i = InRead \<or> pcs s ! i = InWrite" "pcs s1 = (pcs s)[i := Idle]"
  shows "may_notify j s1"
proof -
  have "WriterBlocked \<in> set (pcs s)" if "WriterBlocked \<in> set (pcs s1)"
    using that set_update_subset_insert [of "pcs s" i Idle] assms(3) by auto
  moreover have "j \<noteq> i" if "pcs s ! j = WriterBlocked" using that assms(2) by auto
  ultimately show ?thesis using assms by (auto simp: may_notify_def)
qed

lemma reader_unlock_inv:
  assumes inv: "rw_inv s" and i: "i < length (pcs s)" "pcs s ! i = InRead" and j: "may_notify j s"
  shows "rw_inv (reader_unlock i j s)"
proof -
  let ?s = "goto i Idle (s\<lparr>readers_count := readers_count s - 1\<rparr>)"
  have p: "pcs ?s = (pcs s)[i := Idle]" by (simp add: goto_def)
  note c = at_pc_leave [OF i _ p]
  note n = at_pc_notify [OF may_notify_leave [OF j _ p]]
  have pos: "at_pc s InRead > 0" using count_pos [OF i] .
  show ?thesis
  proof (cases "readers_count s = 1")
    case True
    then have "reader_unlock i j s = notify_one_writer j ?s" by (simp add: reader_unlock_def)
    then show ?thesis using inv True c n i pos by (auto simp: rw_inv_def)
  next
    case False
    then have "reader_unlock i j s = ?s" by (simp add: reader_unlock_def)
    then show ?thesis using inv False c i pos by (auto simp: rw_inv_def)
  qed
qed

lemma writer_unlock_inv:
  assumes inv: "rw_inv s" and i: "i < length (pcs s)" "pcs s ! i = InWrite" and j: "may_notify j s"
  shows "rw_inv (writer_unlock i j s)"
proof -
  let ?s = "goto i Idle (s\<lparr>writer_active := False\<rparr>)"
  have p: "pcs ?s = (pcs s)[i := Idle]" by (simp add: goto_def)
  note c = at_pc_leave [OF i _ p]
  note n = at_pc_notify [OF may_notify_leave [OF j _ p]]
  have act: "writer_active s" using inv count_pos [OF i] by (auto simp: rw_inv_def split: if_splits)
  show ?thesis
  proof (cases "writers_waiting s > 0")
    case True
    then have "writer_unlock i j s = notify_one_writer j ?s" by (simp add: writer_unlock_def)
    then show ?thesis using inv True c n i act by (auto simp: rw_inv_def)
  next
    case False
    have w: "at_pc (notify_all_readers ?s) q =
      (if q = ReaderBlocked then 0
       else if q = ReaderAwake then at_pc ?s ReaderAwake + at_pc ?s ReaderBlocked else at_pc ?s q)" for q
      by (simp add: notify_all_readers_def count_wake)
    have "writer_unlock i j s = notify_all_readers ?s" using False by (simp add: writer_unlock_def)
    then show ?thesis using inv False c w i act by (auto simp: rw_inv_def notify_all_readers_def)
  qed
qed

lemma rw_step_inv: "rw_step s s' \<Longrightarrow> rw_inv s \<Longrightarrow> rw_inv s'"
proof (induction rule: rw_step.induct)
  case (reader_lock i s)
  then show ?case by (simp add: reader_lock_def reader_check_inv)
next
  case (reader_wakes i s)
  then show ?case by (intro rw_inv_goto) simp_all
next
  case (writer_wakes i s)
  then show ?case by (intro rw_inv_goto) simp_all
qed (simp_all add: reader_check_inv writer_check_inv writer_lock_inv reader_unlock_inv writer_unlock_inv)

lemma rw_reach_inv: "rw_reach n s \<Longrightarrow> rw_inv s"
  by (induction rule: rw_reach.induct) (simp_all add: rw_inv_new rw_step_inv)

end
