(* ===== verification/RWLockTheorems.thy ===== *)
theory RWLockTheorems
  imports RWLock
begin

text \<open>
  The properties of the readers-writer lock, for any number of threads, any schedule, any choice
  of the notified writer and any spurious wake-ups.
\<close>

lemma count_two:
  assumes "i < length xs" "j < length xs" "i \<noteq> j" "xs ! i = x" "xs ! j = x"
  shows "2 \<le> count_list xs x"
  using assms
proof (induction xs arbitrary: i j)
  case (Cons a xs)
  show ?case
  proof (cases i)
    case 0
    with Cons.prems obtain k where "j = Suc k" by (cases j) auto
    with 0 Cons.prems count_pos [of k xs x] show ?thesis by simp
  next
    case (Suc m)
    show ?thesis
    proof (cases j)
      case 0
      with Suc Cons.prems count_pos [of m xs x] show ?thesis by simp
    next
      case (Suc k)
      then have "2 \<le> count_list xs x" using Cons.IH [of m k] Cons.prems \<open>i = Suc m\<close> by simp
      then show ?thesis by simp
    qed
  qed
qed simp

text \<open>A run of four steps: thread 0 reads, writer 1 and reader 2 wait, and thread 0 leaves.\<close>

definition rw_demo :: rwlock where
  "rw_demo = reader_unlock 0 1 (reader_lock 2 (writer_lock 1 (reader_lock 0 (rw_new 3))))"

lemmas rw_ops = rw_new_def reader_lock_def reader_check_def writer_lock_def writer_check_def
  reader_unlock_def notify_one_writer_def goto_def

lemma rw_demo_eq:
  "rw_demo = \<lparr>readers_count = 0, writer_active = False, writers_waiting = 1,
     pcs = [Idle, WriterAwake, ReaderBlocked]\<rparr>"
  by (simp add: rw_demo_def rw_ops numeral_eq_Suc Let_def)

lemma rw_demo_reached: "rw_reach 3 rw_demo"
proof -
  let ?s1 = "reader_lock 0 (rw_new 3)"
  let ?s2 = "writer_lock 1 ?s1"
  let ?s3 = "reader_lock 2 ?s2"
  have "rw_reach 3 ?s1"
    by (rule rw_reach.step [OF rw_reach.init], rule rw_step.reader_lock) (simp_all add: rw_new_def)
  then have "rw_reach 3 ?s2"
    by (rule rw_reach.step, intro rw_step.writer_lock) (simp_all add: rw_ops numeral_eq_Suc)
  then have "rw_reach 3 ?s3"
    by (rule rw_reach.step, intro rw_step.reader_lock) (simp_all add: rw_ops numeral_eq_Suc)
  then show ?thesis unfolding rw_demo_def
    by (rule rw_reach.step, intro rw_step.reader_unlock)
      (simp_all add: rw_ops may_notify_def numeral_eq_Suc)
qed

text \<open>C10. Mutual exclusion: while a thread is in a writer's section, no other thread is in a reader's
  or a writer's section. And the counters are what their names say: \<open>readers_count\<close> is the number of
  threads in a reader's section, \<open>writers_waiting\<close> the number of threads that wait to write, blocked
  or woken, and \<open>writer_active\<close> is set exactly while a thread is in a writer's section.\<close>

theorem rwlock_mutual_exclusion:
  assumes "rw_reach n s"
  shows "(\<forall>i j. i < length (pcs s) \<and> j < length (pcs s) \<and> j \<noteq> i \<and> pcs s ! i = InWrite \<longrightarrow>
      pcs s ! j \<noteq> InWrite \<and> pcs s ! j \<noteq> InRead) \<and>
    readers_count s = int (count_list (pcs s) InRead) \<and>
    writers_waiting s = int (count_list (pcs s) WriterBlocked + count_list (pcs s) WriterAwake) \<and>
    (writer_active s \<longleftrightarrow> InWrite \<in> set (pcs s))"
proof -
  have inv: "rw_inv s" using assms by (rule rw_reach_inv)
  have "pcs s ! j \<noteq> InWrite \<and> pcs s ! j \<noteq> InRead"
    if "i < length (pcs s) \<and> j < length (pcs s) \<and> j \<noteq> i \<and> pcs s ! i = InWrite" for i j
  proof -
    from that have that: "i < length (pcs s)" "j < length (pcs s)" "j \<noteq> i" "pcs s ! i = InWrite" by simp_all
    have "at_pc s InWrite > 0" using that(1,4) by (rule count_pos)
    then have "at_pc s InRead = 0" "at_pc s InWrite = 1"
      using inv by (auto simp: rw_inv_def split: if_splits)
    then show ?thesis
      using count_two [OF that(1,2) that(3) [symmetric] that(4)] count_pos [OF that(2), of InRead] by auto
  qed
  moreover have "writer_active s \<longleftrightarrow> InWrite \<in> set (pcs s)"
    using inv count_list_0_iff [of "pcs s" InWrite] by (auto simp: rw_inv_def split: if_splits)
  moreover have "readers_count s = int (at_pc s InRead)"
    "writers_waiting s = int (at_pc s WriterBlocked + at_pc s WriterAwake)"
    using inv by (simp_all add: rw_inv_def)
  ultimately show ?thesis by blast
qed

theorem rwlock_mutual_exclusion_witness:
  "pcs (writer_check 1 rw_demo) = [Idle, InWrite, ReaderBlocked] \<and>
   writers_waiting (writer_check 1 rw_demo) = 0 \<and> writer_active (writer_check 1 rw_demo)"
proof -
  have "rw_reach 3 (writer_check 1 rw_demo)"
    by (rule rw_reach.step [OF rw_demo_reached], rule rw_step.writer_recheck) (simp_all add: rw_demo_eq)
  moreover have "pcs (writer_check 1 rw_demo) = [Idle, InWrite, ReaderBlocked]"
    by (simp add: rw_demo_eq writer_check_def goto_def)
  ultimately show ?thesis
    using rwlock_mutual_exclusion [of 3 "writer_check 1 rw_demo"] by simp
qed

text \<open>C11. No wake-up is lost: when threads are blocked and nobody is inside, a writer has been woken,
  and it gets in as soon as it runs. So the threads are never all blocked.\<close>

theorem rwlock_no_lost_wakeup:
  assumes "rw_reach n s" "ReaderBlocked \<in> set (pcs s) \<or> WriterBlocked \<in> set (pcs s)"
    and "InRead \<notin> set (pcs s)" "InWrite \<notin> set (pcs s)"
  shows "\<exists>k < length (pcs s). pcs s ! k = WriterAwake \<and> rw_step s (writer_check k s) \<and>
    pcs (writer_check k s) ! k = InWrite"
proof -
  have inv: "rw_inv s" using assms(1) by (rule rw_reach_inv)
  have mem: "x \<in> set (pcs s) \<longleftrightarrow> 0 < at_pc s x" for x
    by (metis count_list_0_iff gr_zeroI less_irrefl)
  have free: "readers_count s = 0" "\<not> writer_active s"
    using inv assms(3,4) by (auto simp: rw_inv_def mem split: if_splits)
  then have "0 < at_pc s WriterAwake"
    using inv assms(2) by (auto simp: rw_inv_def mem)
  then obtain k where "k < length (pcs s)" "pcs s ! k = WriterAwake"
    using mem by (metis in_set_conv_nth)
  with free show ?thesis
    by (intro exI [of _ k]) (simp add: rw_step.writer_recheck, simp add: writer_check_def goto_def)
qed

theorem rwlock_no_lost_wakeup_witness:
  "\<exists>k < 3. pcs rw_demo ! k = WriterAwake \<and> pcs (writer_check k rw_demo) ! k = InWrite"
proof -
  have "pcs rw_demo = [Idle, WriterAwake, ReaderBlocked]" by (simp add: rw_demo_eq)
  moreover from this have "length (pcs rw_demo) = 3" by simp
  ultimately show ?thesis using rwlock_no_lost_wakeup [OF rw_demo_reached] by force
qed

text \<open>Writers go first: while a writer waits, no thread enters a reader's section, so the readers
  inside can only become fewer.\<close>

lemma rwlock_writers_first:
  assumes "rw_reach n s" "rw_step s s'" "writers_waiting s > 0"
  shows "at_pc s' InRead \<le> at_pc s InRead"
  using assms(2,3)
proof cases
  case (reader_unlock i j)
  let ?s = "goto i Idle (s\<lparr>readers_count := readers_count s - 1\<rparr>)"
  have p: "pcs ?s = (pcs s)[i := Idle]" by (simp add: goto_def)
  have "may_notify j ?s" using reader_unlock by (intro may_notify_leave [OF _ _ p]) auto
  then have "at_pc (notify_one_writer j ?s) InRead = at_pc ?s InRead"
    by (intro at_pc_notify(3)) simp_all
  moreover have "s' = notify_one_writer j ?s \<or> s' = ?s"
    using reader_unlock(1) by (simp only: reader_unlock_def Let_def) (metis (full_types))
  ultimately show ?thesis using reader_unlock(2) by (auto simp: at_pc_goto)
next
  case (writer_unlock i j)
  let ?s = "goto i Idle (s\<lparr>writer_active := False\<rparr>)"
  have p: "pcs ?s = (pcs s)[i := Idle]" by (simp add: goto_def)
  have "may_notify j ?s" using writer_unlock by (intro may_notify_leave [OF _ _ p]) auto
  then have "at_pc (notify_one_writer j ?s) InRead = at_pc ?s InRead"
    by (intro at_pc_notify(3)) simp_all
  then show ?thesis
    using writer_unlock assms(3) by (simp add: writer_unlock_def Let_def at_pc_goto)
qed (use assms(3) in \<open>simp_all add: reader_lock_def reader_check_def writer_lock_def
    writer_check_def at_pc_goto\<close>)

end
