(* ===== verification/Format.thy ===== *)
theory Format
  imports CText Float32
begin

text \<open>
  What the program prints besides plain integers: time stamps (\<open>getCurrentFormattedTime\<close> of
  utils.cpp), \<open>std::setw\<close> with \<open>std::left\<close>, and the two forms in which a \<open>float\<close> reaches a stream,
  with two fixed decimals and with the six significant digits of the default format. A \<open>float\<close> is
  \<open>k * 2 ^ -149\<close> and its decimal form is rounded to nearest, ties to even, as the C library does.
\<close>

section \<open>Fields of fixed width\<close>

definition setw_left :: "nat \<Rightarrow> string \<Rightarrow> string" where
  "setw_left n s = s @ replicate (n - length s) CHR '' ''"

definition pad2 :: "nat \<Rightarrow> string" where
  "pad2 n = (if n < 10 then [digit 0, digit n] else show_nat n)"

section \<open>Time stamps\<close>

text \<open>The members of \<open>std::tm\<close> that the format uses, as \<open>std::localtime\<close> fills them in.\<close>

record tm =
  tm_sec :: nat
  tm_min :: nat
  tm_hour :: nat
  tm_mday :: nat
  tm_mon :: nat
  tm_year :: int

definition getCurrentFormattedTime :: "tm \<Rightarrow> string" where
  "getCurrentFormattedTime now =
     show_int (tm_year now + 1900) @ ''-'' @ pad2 (tm_mon now + 1) @ ''-'' @ pad2 (tm_mday now) @ '' '' @
     pad2 (tm_hour now) @ '':'' @ pad2 (tm_min now) @ '':'' @ pad2 (tm_sec now)"

section \<open>Decimal rounding\<close>

definition div_even :: "nat \<Rightarrow> nat \<Rightarrow> nat" where
  "div_even n d =
     (let q = n div d; r = n mod d in if 2 * r > d \<or> (2 * r = d \<and> odd q) then Suc q else q)"

text \<open>The decimal exponent of \<open>n / d\<close>, for \<open>n\<close> and \<open>d\<close> that are not 0.\<close>

function exponent_up :: "nat \<Rightarrow> nat \<Rightarrow> nat" where
  "exponent_up n d = (if d = 0 \<or> n < 10 * d then 0 else Suc (exponent_up n (10 * d)))"
  by auto
termination by (relation "measure (\<lambda>(n, d). n - d)") auto

function exponent_down :: "nat \<Rightarrow> nat \<Rightarrow> nat" where
  "exponent_down n d = (if n = 0 \<or> d \<le> n then 0 else Suc (exponent_down (10 * n) d))"
  by auto
termination by (relation "measure (\<lambda>(n, d). d - n)") auto

declare exponent_up.simps [simp del] exponent_down.simps [simp del]

definition exponent10 :: "nat \<Rightarrow> nat \<Rightarrow> int" where
  "exponent10 n d = (if d \<le> n then int (exponent_up n d) else - int (exponent_down n d))"

text \<open>Six significant digits and the exponent of the first of them.\<close>

definition six_digits :: "nat \<Rightarrow> nat \<Rightarrow> nat \<times> int" where
  "six_digits n d =
     (let e = exponent10 n d;
          m = (if e \<le> 5 then div_even (n * 10 ^ nat (5 - e)) d else div_even n (d * 10 ^ nat (e - 5)))
      in if m = 10 ^ 6 then (10 ^ 5, e + 1) else (m, e))"

section \<open>Floats in a stream\<close>

definition with_fraction :: "string \<Rightarrow> string \<Rightarrow> string" where
  "with_fraction whole_part fraction =
     (let f = rev (dropWhile (\<lambda>c. c = digit 0) (rev fraction))
      in if f = [] then whole_part else whole_part @ ''.'' @ f)"

definition show_general :: "nat \<Rightarrow> nat \<Rightarrow> string" where
  "show_general n d =
     (case six_digits n d of (m, e) \<Rightarrow>
        let ds = show_nat m in
        if -4 \<le> e \<and> e < 0 then with_fraction [digit 0] (replicate (nat (- e - 1)) (digit 0) @ ds)
        else if 0 \<le> e \<and> e < 6 then with_fraction (take (nat e + 1) ds) (drop (nat e + 1) ds)
        else with_fraction (take 1 ds) (drop 1 ds) @ ''e'' @ (if e < 0 then ''-'' else ''+'') @ pad2 (nat \<bar>e\<bar>))"

text \<open>The sign of a NaN is not modelled: it is printed as a positive one.\<close>

fun show_special :: "float32 \<Rightarrow> string" where
  "show_special PInf = ''inf''"
| "show_special NInf = ''-inf''"
| "show_special _ = ''nan''"

definition show_float :: "float32 \<Rightarrow> string" where
  "show_float x =
     (case x of
        Fin k \<Rightarrow> if k = 0 then ''0''
                 else (if k < 0 then ''-'' else []) @ show_general (nat \<bar>k\<bar>) (2 ^ 149)
      | NegZero \<Rightarrow> ''-0''
      | _ \<Rightarrow> show_special x)"

definition fixed2 :: "nat \<Rightarrow> nat \<Rightarrow> string" where
  "fixed2 n d = (let m = div_even (n * 100) d in show_nat (m div 100) @ ''.'' @ pad2 (m mod 100))"

definition show_fixed2 :: "float32 \<Rightarrow> string" where
  "show_fixed2 x =
     (case x of
        Fin k \<Rightarrow> (if k < 0 then ''-'' else []) @ fixed2 (nat \<bar>k\<bar>) (2 ^ 149)
      | NegZero \<Rightarrow> ''-0.00''
      | _ \<Rightarrow> show_special x)"

section \<open>Decimal forms of whole numbers\<close>

lemma div_even_exact [simp]: "0 < d \<Longrightarrow> div_even (k * d) d = k"
  by (simp add: div_even_def)

lemma div_even_scale: "0 < k \<Longrightarrow> div_even (n * k) (d * k) = div_even n d"
  by (simp add: div_even_def Let_def mult.assoc [symmetric])

lemma exponent_up_scale: "0 < k \<Longrightarrow> exponent_up (n * k) (d * k) = exponent_up n d"
proof (induction n d rule: exponent_up.induct)
  case (1 n d)
  have c: "n * k < 10 * (d * k) \<longleftrightarrow> n < 10 * d" using 1(2) by (simp add: mult.assoc [symmetric])
  show ?case
    using 1 by (subst (1 2) exponent_up.simps) (auto simp: c mult.assoc [symmetric])
qed

lemma exponent_up_bounds:
  "0 < d \<Longrightarrow> d \<le> n \<Longrightarrow> d * 10 ^ exponent_up n d \<le> n \<and> n < d * 10 ^ (exponent_up n d + 1)"
proof (induction n d rule: exponent_up.induct)
  case (1 n d)
  show ?case
  proof (cases "n < 10 * d")
    case True
    with 1 show ?thesis by (simp add: exponent_up.simps [of n d])
  next
    case False
    then have e: "exponent_up n d = Suc (exponent_up n (10 * d))" using 1(2) by (simp add: exponent_up.simps [of n d])
    show ?thesis using 1(1) 1(2) False unfolding e by (simp add: mult.assoc mult.left_commute)
  qed
qed

lemma exponent_up_unique:
  assumes "10 ^ e \<le> n" "n < 10 ^ (e + 1)" shows "exponent_up n (Suc 0) = e"
proof -
  have "1 \<le> n" using assms(1) by (meson le_trans one_le_power one_le_numeral)
  then have b: "10 ^ exponent_up n (Suc 0) \<le> n" "n < 10 ^ (exponent_up n (Suc 0) + 1)"
    using exponent_up_bounds [of "Suc 0" n] by simp_all
  have "exponent_up n (Suc 0) < e + 1" using le_less_trans [OF b(1) assms(2)] by (simp del: power_Suc)
  moreover have "e < exponent_up n (Suc 0) + 1" using le_less_trans [OF assms(1) b(2)] by (simp del: power_Suc)
  ultimately show ?thesis by simp
qed

lemma show_nat_times_10: "0 < n \<Longrightarrow> show_nat (10 * n) = show_nat n @ [digit 0]"
  by (subst show_nat.simps) simp

lemma show_nat_zeros: "0 < n \<Longrightarrow> show_nat (n * 10 ^ k) = show_nat n @ replicate k (digit 0)"
proof (induction k)
  case (Suc k)
  then show ?case using show_nat_times_10 [of "n * 10 ^ k"]
    by (simp add: mult.left_commute replicate_append_same)
qed simp

lemma length_show_nat: "0 < n \<Longrightarrow> length (show_nat n) = exponent_up n (Suc 0) + 1"
proof (induction n rule: show_nat.induct)
  case (1 n)
  show ?case
  proof (cases "n < 10")
    case True
    then show ?thesis by (simp add: show_nat.simps [of n] exponent_up.simps [of n "Suc 0"])
  next
    case False
    have p: "10 ^ exponent_up (n div 10) (Suc 0) \<le> n div 10" "n div 10 < 10 ^ (exponent_up (n div 10) (Suc 0) + 1)"
      using exponent_up_bounds [of "Suc 0" "n div 10"] False by simp_all
    have "exponent_up n (Suc 0) = exponent_up (n div 10) (Suc 0) + 1"
    proof (rule exponent_up_unique)
      show "10 ^ (exponent_up (n div 10) (Suc 0) + 1) \<le> n" using p(1) by simp
      show "n < 10 ^ (exponent_up (n div 10) (Suc 0) + 1 + 1)" using p(2) by simp
    qed
    with 1 False show ?thesis by (simp add: show_nat.simps [of n])
  qed
qed

lemma with_fraction_zeros [simp]: "with_fraction s (replicate k (digit 0)) = s"
  by (simp add: with_fraction_def)

lemma exponent10_whole: "0 < D \<Longrightarrow> 0 < n \<Longrightarrow> exponent10 (n * D) D = int (exponent_up n (Suc 0))"
  using exponent_up_scale [of D n "Suc 0"] by (simp add: exponent10_def)

text \<open>Below a million every digit is printed.\<close>

lemma show_general_whole:
  assumes "0 < D" "0 < n" "n < 10 ^ 6" shows "show_general (n * D) D = show_nat n"
proof -
  define e where "e = exponent_up n (Suc 0)"
  have b: "10 ^ e \<le> n" "n < 10 ^ (e + 1)" using exponent_up_bounds [of "Suc 0" n] assms(2) by (simp_all add: e_def)
  have e: "e \<le> 5"
  proof -
    have "(10::nat) ^ e < 10 ^ 6" using b(1) assms(3) by (rule le_less_trans)
    then have "e < 6" by (rule power_less_imp_less_exp [rotated]) simp
    then show ?thesis by simp
  qed
  have "n * 10 ^ (5 - e) < 10 ^ (e + 1) * 10 ^ (5 - e)" using b(2) by simp
  also have "\<dots> = 10 ^ 6" using e by (simp add: power_add [symmetric])
  finally have m: "n * 10 ^ (5 - e) \<noteq> 10 ^ 6" by simp
  have "div_even (n * D * 10 ^ (5 - e)) D = n * 10 ^ (5 - e)"
    using div_even_exact [OF assms(1), of "n * 10 ^ (5 - e)"] by (simp add: ac_simps)
  then have s: "six_digits (n * D) D = (n * 10 ^ (5 - e), int e)"
    using e m assms by (simp add: six_digits_def exponent10_whole e_def [symmetric] nat_diff_distrib Let_def)
  show ?thesis
    using e length_show_nat [OF assms(2)]
    by (simp add: show_general_def s show_nat_zeros [OF assms(2)] e_def [symmetric])
qed

lemma digit_0: "digit 0 = CHR ''0''"
  by code_simp

lemma show_float_whole: "\<bar>n\<bar> < 10 ^ 6 \<Longrightarrow> show_float (whole n) = show_int n"
proof -
  assume n: "\<bar>n\<bar> < 10 ^ 6"
  have a: "nat \<bar>n * 2 ^ 149\<bar> = nat \<bar>n\<bar> * 2 ^ 149"
    by (simp add: abs_mult nat_mult_distrib nat_power_eq)
  have s: "n * 2 ^ 149 < 0 \<longleftrightarrow> n < 0" "n * 2 ^ 149 = 0 \<longleftrightarrow> n = 0" by (simp_all add: mult_less_0_iff)
  show ?thesis
  proof (cases "n = 0")
    case True
    then show ?thesis by (simp add: show_float_def whole_def show_int_def show_nat.simps [of 0] digit_0)
  next
    case False
    then have "show_general (nat \<bar>n\<bar> * 2 ^ 149) (2 ^ 149) = show_nat (nat \<bar>n\<bar>)"
      using n by (intro show_general_whole) auto
    with False show ?thesis
      unfolding show_float_def whole_def float32.case a s by (simp add: show_int_def)
  qed
qed

text \<open>From a million on the last digit is lost.\<close>

lemma div_even_ten:
  assumes "n < 9999995" shows "div_even n 10 \<le> 999999" "n div 10 \<le> div_even n 10"
proof -
  have "n div 10 \<le> 999998 \<or> n div 10 = 999999 \<and> n mod 10 \<le> 4"
    using assms mult_div_mod_eq [of 10 n] by linarith
  then show "div_even n 10 \<le> 999999" by (auto simp: div_even_def Let_def)
  show "n div 10 \<le> div_even n 10" by (simp add: div_even_def Let_def)
qed

lemma six_digits_million:
  assumes "0 < D" "10 ^ 6 \<le> n" "n < 9999995" shows "six_digits (n * D) D = (div_even n 10, 6)"
proof -
  have "exponent_up n (Suc 0) = 6" using assms(2,3) by (intro exponent_up_unique) simp_all
  then have e: "exponent10 (n * D) D = 6" using exponent10_whole [OF assms(1), of n] assms(2) by simp
  have "div_even (n * D) (D * 10) = div_even n 10"
    using div_even_scale [OF assms(1), of n 10] by (simp add: mult.commute)
  then show ?thesis using div_even_ten(1) [OF assms(3)] by (simp add: six_digits_def e Let_def)
qed

lemma show_float_million:
  assumes "10 ^ 6 \<le> n" "n < 9999995"
  shows "show_float (whole (int n)) = show_float (whole (int (10 * div_even n 10)))"
proof -
  let ?q = "div_even n 10"
  have sh: "show_float (whole (int k)) = show_general (k * 2 ^ 149) (2 ^ 149)" if "0 < k" for k
    using that by (simp add: show_float_def whole_def nat_mult_distrib nat_power_eq)
  have q: "10 ^ 6 \<le> 10 * ?q" "10 * ?q < 9999995" using div_even_ten [OF assms(2)] assms(1) by simp_all
  have "div_even (10 * ?q) 10 = ?q" using div_even_exact [of 10 ?q] by (simp add: mult.commute)
  then have "six_digits (n * 2 ^ 149) (2 ^ 149) = six_digits (10 * ?q * 2 ^ 149) (2 ^ 149)"
    using six_digits_million [OF _ assms, of "2 ^ 149"] six_digits_million [OF _ q, of "2 ^ 149"] by simp
  moreover have "0 < n" "0 < 10 * ?q" using assms(1) q(1) by simp_all
  ultimately show ?thesis by (simp only: sh show_general_def)
qed

section \<open>Two decimals\<close>

lemma show_fixed2_whole: "show_fixed2 (whole n) = show_int n @ ''.00''"
proof -
  have a: "nat \<bar>n * 2 ^ 149\<bar> = nat \<bar>n\<bar> * 2 ^ 149"
    by (simp add: abs_mult nat_mult_distrib nat_power_eq)
  have "div_even (nat \<bar>n\<bar> * 2 ^ 149 * 100) (2 ^ 149) = nat \<bar>n\<bar> * 100"
    using div_even_exact [of "2 ^ 149" "nat \<bar>n\<bar> * 100"] by (simp add: ac_simps)
  then have "fixed2 (nat \<bar>n\<bar> * 2 ^ 149) (2 ^ 149) = show_nat (nat \<bar>n\<bar>) @ ''.00''"
    by (simp add: fixed2_def pad2_def digit_0 Let_def)
  moreover have "n * 2 ^ 149 < 0 \<longleftrightarrow> n < 0" by (simp add: mult_less_0_iff)
  ultimately show ?thesis unfolding show_fixed2_def whole_def float32.case a by (simp add: show_int_def)
qed

section \<open>Reading a line\<close>

text \<open>A text, cut at a character; a line of a log, cut at its spaces.\<close>

fun split_on :: "char \<Rightarrow> string \<Rightarrow> string list" where
  "split_on d [] = [[]]"
| "split_on d (c # cs) =
     (if c = d then [] # split_on d cs
      else (case split_on d cs of [] \<Rightarrow> [[c]] | w # ws \<Rightarrow> (c # w) # ws))"

abbreviation line_fields :: "string \<Rightarrow> string list" where
  "line_fields \<equiv> split_on CHR '' ''"

definition no_space :: "string \<Rightarrow> bool" where
  "no_space s \<longleftrightarrow> CHR '' '' \<notin> set s"

lemma split_on_not_Nil [simp]: "split_on d s \<noteq> []"
  by (induction s) (auto split: list.split)

lemma split_on_word: "d \<notin> set w \<Longrightarrow> split_on d (w @ d # s) = w # split_on d s"
  by (induction w) auto

lemma split_on_last: "d \<notin> set w \<Longrightarrow> split_on d w = [w]"
  by (induction w) auto

lemma line_fields_word [simp]: "no_space w \<Longrightarrow> line_fields (w @ CHR '' '' # s) = w # line_fields s"
  by (simp add: no_space_def split_on_word)

lemma line_fields_last: "no_space w \<Longrightarrow> line_fields w = [w]"
  by (simp add: no_space_def split_on_last)

lemma no_space_simps [simp]:
  "no_space []" "no_space (c # s) \<longleftrightarrow> c \<noteq> CHR '' '' \<and> no_space s"
  "no_space (s @ t) \<longleftrightarrow> no_space s \<and> no_space t"
  by (auto simp: no_space_def)

lemma no_space_show_nat [simp]: "no_space (show_nat n)"
  by (auto simp: no_space_def is_digit_def dest!: show_nat_digits)

lemma no_space_show_int [simp]: "no_space (show_int n)"
  by (simp add: show_int_def)

lemma no_space_pad2 [simp]: "no_space (pad2 n)"
  by (simp add: pad2_def digit_neq)

lemma no_space_with_fraction: "no_space w \<Longrightarrow> no_space f \<Longrightarrow> no_space (with_fraction w f)"
  by (auto simp: with_fraction_def no_space_def Let_def dest: set_dropWhileD)

lemma no_space_take_drop: "no_space s \<Longrightarrow> no_space (take n s)" "no_space s \<Longrightarrow> no_space (drop n s)"
  by (auto simp: no_space_def dest: in_set_takeD in_set_dropD)

lemma no_space_replicate_digit: "no_space (replicate k (digit 0))"
  by (auto simp: no_space_def digit_0)

lemma no_space_show_general [simp]: "no_space (show_general n d)"
proof (cases "six_digits n d")
  case (Pair m e)
  have "no_space [digit 0]" by (simp add: digit_0)
  then show ?thesis
    by (simp add: show_general_def Pair Let_def no_space_with_fraction no_space_take_drop no_space_replicate_digit)
qed

lemma no_space_show_whole [simp]: "no_space (show_float (whole n))"
  by (simp add: show_float_def whole_def)

lemma no_space_dotted_quad: "\<forall>c\<in>set s. \<not> is_space c \<Longrightarrow> no_space s"
  by (auto simp: no_space_def is_space_def)

end
