(* ===== verification/Utils.thy ===== *)
theory Utils
  imports CText
begin

text \<open>
  utils.cpp's checks of the port argument and \<open>validateInput\<close> of
  transactions/transactionClient.cpp, with the two ways in which the program reads a decimal
  number: \<open>std::stoi\<close> and \<open>operator>>\<close> into an \<open>int\<close>. What goes to \<open>std::cerr\<close> is not modelled.
\<close>

section \<open>Numbers\<close>

text \<open>An optional sign and at least one digit; the value and what follows the last digit.\<close>

definition read_unsigned :: "string \<Rightarrow> (nat \<times> string) option" where
  "read_unsigned s = (if s \<noteq> [] \<and> is_digit (hd s) then Some (read_digits 0 s) else None)"

definition read_signed :: "string \<Rightarrow> (int \<times> string) option" where
  "read_signed s =
     (case s of
        c # cs \<Rightarrow>
          if c = CHR ''-'' then map_option (\<lambda>(n, r). (- int n, r)) (read_unsigned cs)
          else if c = CHR ''+'' then map_option (\<lambda>(n, r). (int n, r)) (read_unsigned cs)
          else map_option (\<lambda>(n, r). (int n, r)) (read_unsigned s)
      | [] \<Rightarrow> None)"

datatype num_error = invalid_argument | out_of_range

text \<open>\<open>std::stoi\<close>: leading white space and trailing characters are ignored.\<close>

definition stoi :: "string \<Rightarrow> num_error + int" where
  "stoi s =
     (case read_signed (skip_ws (c_string s)) of
        None \<Rightarrow> Inl invalid_argument
      | Some (n, rest) \<Rightarrow> if in_i32 n then Inr n else Inl out_of_range)"

section \<open>The port argument\<close>

text \<open>\<open>argv\<close> with the program's name in front.\<close>

definition validatePortArg :: "string list \<Rightarrow> bool" where
  "validatePortArg argv \<longleftrightarrow> length argv = 2"

definition validatePort :: "int \<Rightarrow> bool" where
  "validatePort port \<longleftrightarrow> \<not> (port \<le> 1024 \<or> port > 65535)"

definition getValidatedPort :: "string list \<Rightarrow> int" where
  "getValidatedPort argv =
     (if \<not> validatePortArg argv then -1
      else (case stoi (argv ! 1) of
              Inl e \<Rightarrow> -1
            | Inr port \<Rightarrow> if validatePort port then port else -1))"

section \<open>A command line of the client\<close>

text \<open>\<open>ss >> dest_ip >> value\<close>: a word and an \<open>int\<close>; what follows the \<open>int\<close> is not looked at.\<close>

definition validateInput :: "string \<Rightarrow> (string \<times> int) option" where
  "validateInput line =
     (let t = skip_ws line;
          word = takeWhile (\<lambda>c. \<not> is_space c) t;
          rest = skip_ws (dropWhile (\<lambda>c. \<not> is_space c) t)
      in if word = [] then None
         else (case read_signed rest of
                 None \<Rightarrow> None
               | Some (n, r) \<Rightarrow> if in_i32 n then Some (word, n) else None))"

section \<open>What is printed can be read\<close>

lemma hd_show_nat: "is_digit (hd (show_nat n))"
  using show_nat_digits [of "hd (show_nat n)" n] by simp

lemma read_unsigned_show_nat:
  assumes "rest = [] \<or> \<not> is_digit (hd rest)"
  shows "read_unsigned (show_nat n @ rest) = Some (n, rest)"
  using assms hd_show_nat [of n] by (simp add: read_unsigned_def read_digits_show_nat)

lemma sign_not_digit: "\<not> is_digit CHR ''-''" "\<not> is_digit CHR ''+''"
  by (simp_all add: is_digit_def)

lemma read_signed_show_int:
  assumes "rest = [] \<or> \<not> is_digit (hd rest)"
  shows "read_signed (show_int n @ rest) = Some (n, rest)"
proof (cases "n < 0")
  case True
  then show ?thesis
    using read_unsigned_show_nat [OF assms, of "nat (- n)"] by (simp add: read_signed_def show_int_def)
next
  case False
  obtain c cs where c: "show_nat (nat n) = c # cs" by (cases "show_nat (nat n)") simp_all
  then have "is_digit c" using hd_show_nat [of "nat n"] by simp
  then have "c \<noteq> CHR ''-''" "c \<noteq> CHR ''+''" using sign_not_digit by auto
  then show ?thesis
    using False read_unsigned_show_nat [OF assms, of "nat n"]
    by (simp add: read_signed_def show_int_def c)
qed

lemma show_int_chars: "c \<in> set (show_int n) \<Longrightarrow> is_digit c \<or> c = CHR ''-''"
  by (auto simp: show_int_def dest: show_nat_digits split: if_splits)

lemma show_int_not_Nil [simp]: "show_int n \<noteq> []"
  by (simp add: show_int_def)

lemma skip_ws_show_int: "skip_ws (show_int n @ rest) = show_int n @ rest"
proof -
  obtain c cs where c: "show_int n = c # cs" by (cases "show_int n") simp_all
  then have "is_digit c \<or> c = CHR ''-''" using show_int_chars [of c n] by simp
  then have "\<not> is_space c" using not_space_digit by (auto simp: is_space_def)
  then show ?thesis by (simp add: skip_ws_def c)
qed

lemma nul_free_show_int: "nul_free (show_int n)"
  by (auto simp: nul_free_def is_digit_def dest: show_int_chars)

lemma stoi_show_int: "in_i32 n \<Longrightarrow> stoi (show_int n) = Inr n"
  using skip_ws_show_int [of n "[]"] read_signed_show_int [of "[]" n]
  by (simp add: stoi_def nul_free_show_int)

lemma validateInput_written:
  assumes "word \<noteq> []" "\<forall>c\<in>set word. \<not> is_space c" "\<forall>c\<in>set w1. is_space c"
    and "w2 \<noteq> []" "\<forall>c\<in>set w2. is_space c" "rest = [] \<or> \<not> is_digit (hd rest)"
  shows "validateInput (w1 @ word @ w2 @ show_int n @ rest) =
    (if in_i32 n then Some (word, n) else None)"
proof -
  have t: "skip_ws (w1 @ word @ w2 @ show_int n @ rest) = word @ w2 @ show_int n @ rest"
    using assms(1-3) by (cases word) (simp_all add: skip_ws_def)
  have w2: "\<exists>c cs. w2 = c # cs \<and> is_space c" using assms(4,5) by (cases w2) auto
  have tw: "takeWhile (\<lambda>c. \<not> is_space c) (word @ w2 @ show_int n @ rest) = word"
    "dropWhile (\<lambda>c. \<not> is_space c) (word @ w2 @ show_int n @ rest) = w2 @ show_int n @ rest"
    using assms(2) w2 by auto
  have "skip_ws (w2 @ show_int n @ rest) = show_int n @ rest"
    using assms(5) skip_ws_show_int [of n rest] by (simp add: skip_ws_def)
  then show ?thesis
    using assms(1) read_signed_show_int [OF assms(6), of n]
    by (simp add: validateInput_def Let_def t tw)
qed

section \<open>Properties\<close>

text \<open>The port check lets nothing through but ports above 1024 that fit 16 bits, answers -1 to
  everything else, and accepts the decimal form of each such port.\<close>

lemma port_validated:
  "(getValidatedPort argv = -1 \<or> 1024 < getValidatedPort argv \<and> getValidatedPort argv \<le> 65535) \<and>
   (getValidatedPort [prog, show_int p] = (if 1024 < p \<and> p \<le> 65535 then p else -1))"
proof -
  have "getValidatedPort [prog, show_int p] = (if 1024 < p \<and> p \<le> 65535 then p else -1)"
  proof (cases "in_i32 p")
    case True
    then show ?thesis
      by (simp add: getValidatedPort_def validatePortArg_def validatePort_def stoi_show_int)
  next
    case False
    then have "stoi (show_int p) = Inl out_of_range"
      using skip_ws_show_int [of p "[]"] read_signed_show_int [of "[]" p]
      by (simp add: stoi_def nul_free_show_int)
    then show ?thesis using False
      by (auto simp: getValidatedPort_def validatePortArg_def in_i32_def)
  qed
  then show ?thesis
    by (auto simp: getValidatedPort_def validatePort_def split: sum.splits)
qed

text \<open>C40. A command is read as it was meant: a word without white space and any \<open>int\<close>, with white
  space around them, come back from \<open>validateInput\<close>; and a number that does not fit an \<open>int\<close> is
  refused.\<close>

theorem command_roundtrip:
  assumes "word \<noteq> []" "\<forall>c\<in>set word. \<not> is_space c" "\<forall>c\<in>set w1. is_space c"
    and "w2 \<noteq> []" "\<forall>c\<in>set w2. is_space c" "rest = [] \<or> \<not> is_digit (hd rest)"
  shows "validateInput (w1 @ word @ w2 @ show_int n @ rest) =
    (if in_i32 n then Some (word, n) else None)"
  using validateInput_written [OF assms] .

theorem command_roundtrip_witness:
  "validateInput (''10.0.0.2'' @ '' '' @ show_int (-5) @ []) = Some (''10.0.0.2'', -5)"
  using command_roundtrip [of "''10.0.0.2''" "[]" "'' ''" "[]" "-5"]
  by (simp add: is_space_def in_i32_def)

end
