(* ===== verification/TimeStamp.thy ===== *)
theory TimeStamp
  imports Format Utils
begin

text \<open>
  Reading the texts that \<open>Format\<close> prints: the time stamp in front of a line gives back the time.
\<close>

section \<open>A time stamp tells the time\<close>

text \<open>The range of the members as \<open>std::localtime\<close> gives them, from the year 0 on.\<close>

definition valid_tm :: "tm \<Rightarrow> bool" where
  "valid_tm t \<longleftrightarrow> tm_sec t \<le> 60 \<and> tm_min t < 60 \<and> tm_hour t < 24 \<and>
     1 \<le> tm_mday t \<and> tm_mday t \<le> 31 \<and> tm_mon t < 12 \<and> 0 \<le> tm_year t + 1900 \<and> in_i32 (tm_year t + 1900)"

text \<open>The year, the month from 1 on and the day, and the hour, the minute and the second, as numbers.\<close>

definition read_time :: "string \<Rightarrow> string \<Rightarrow> tm option" where
  "read_time day clock =
     (case (map stoi (split_on CHR ''-'' day), map stoi (split_on CHR '':'' clock)) of
        ([Inr y, Inr m, Inr d], [Inr h, Inr mi, Inr s]) \<Rightarrow>
          Some \<lparr>tm_sec = nat s, tm_min = nat mi, tm_hour = nat h, tm_mday = nat d,
                tm_mon = nat (m - 1), tm_year = y - 1900\<rparr>
      | _ \<Rightarrow> None)"

lemma stoi_digits:
  assumes "\<forall>c\<in>set s. is_digit c" "s \<noteq> []" "read_digits 0 s = (n, [])" "in_i32 (int n)"
  shows "stoi s = Inr (int n)"
proof -
  obtain c cs where s: "s = c # cs" using assms(2) by (cases s) simp_all
  then have c: "is_digit c" using assms(1) by simp
  have "c_string s = s" using assms(1) by (intro c_string_nul_free) (auto simp: nul_free_def is_digit_def)
  moreover have "skip_ws s = s" using not_space_digit [OF c] by (simp add: skip_ws_def s)
  moreover have "c \<noteq> CHR ''-''" "c \<noteq> CHR ''+''" using c sign_not_digit by auto
  ultimately show ?thesis
    using assms(3,4) c by (simp add: stoi_def read_signed_def read_unsigned_def s)
qed

lemma pad2_reads:
  assumes "n < 100" shows "\<forall>c\<in>set (pad2 n). is_digit c" "stoi (pad2 n) = Inr (int n)"
proof -
  show d: "\<forall>c\<in>set (pad2 n). is_digit c" using show_nat_digits by (auto simp: pad2_def)
  have "read_digits 0 (pad2 n) = (n, [])"
    using read_digits_show_nat [of "[]" n] by (simp add: pad2_def)
  moreover have "pad2 n \<noteq> []" by (simp add: pad2_def)
  ultimately show "stoi (pad2 n) = Inr (int n)" using d assms by (intro stoi_digits) (simp_all add: in_i32_def)
qed

lemma digits_not_in: "\<forall>c\<in>set s. is_digit c \<Longrightarrow> \<not> is_digit d \<Longrightarrow> d \<notin> set s"
  by auto

lemma time_stamp_read:
  assumes "valid_tm now"
  obtains day clock where "getCurrentFormattedTime now = day @ '' '' @ clock" "no_space day" "no_space clock"
    "read_time day clock = Some now"
proof -
  let ?y = "show_int (tm_year now + 1900)"
  let ?day = "?y @ ''-'' @ pad2 (tm_mon now + 1) @ ''-'' @ pad2 (tm_mday now)"
  let ?clock = "pad2 (tm_hour now) @ '':'' @ pad2 (tm_min now) @ '':'' @ pad2 (tm_sec now)"
  have b: "tm_mon now + 1 < 100" "tm_mday now < 100" "tm_hour now < 100" "tm_min now < 100" "tm_sec now < 100"
    using assms by (simp_all add: valid_tm_def)
  have nd: "\<not> is_digit CHR ''-''" "\<not> is_digit CHR '':''" by (simp_all add: is_digit_def)
  have "?y = show_nat (nat (tm_year now + 1900))" using assms by (simp add: valid_tm_def show_int_def)
  then have y: "CHR ''-'' \<notin> set ?y" using show_nat_digits nd(1) by auto
  have p: "CHR ''-'' \<notin> set (pad2 n)" "CHR '':'' \<notin> set (pad2 n)" if "n < 100" for n
    using pad2_reads(1) [OF that] nd by auto
  have sy: "stoi ?y = Inr (tm_year now + 1900)"
    using assms by (intro stoi_show_int) (simp add: valid_tm_def)
  have "split_on CHR ''-'' ?day = [?y, pad2 (tm_mon now + 1), pad2 (tm_mday now)]"
    using y p(1) [OF b(1)] p(1) [OF b(2)] by (simp add: split_on_word split_on_last)
  moreover have "split_on CHR '':'' ?clock = [pad2 (tm_hour now), pad2 (tm_min now), pad2 (tm_sec now)]"
    using p(2) [OF b(3)] p(2) [OF b(4)] p(2) [OF b(5)] by (simp add: split_on_word split_on_last)
  ultimately have "read_time ?day ?clock = Some now"
    using sy pad2_reads(2) [OF b(1)] pad2_reads(2) [OF b(2)] pad2_reads(2) [OF b(3)]
      pad2_reads(2) [OF b(4)] pad2_reads(2) [OF b(5)]
    by (simp add: read_time_def)
  then show ?thesis by (intro that [of ?day ?clock]) (simp_all add: getCurrentFormattedTime_def)
qed

end
