(* ===== verification/Console.thy ===== *)
theory Console
  imports Demo TimeStamp
begin

text \<open>
  The console of the server, server/serverInterface.cpp: the lines that it prints, the flag
  \<open>data_changed\<close>, the notification that sets it and the thread that waits for it, prints and clears
  it. The thread holds its mutex while it prints, so a notification falls before or after a whole
  iteration, and an iteration is one step. Here is also the table of \<open>Server::printClients\<close>. The
  time of day is an argument.
\<close>

section \<open>Lines\<close>

definition logInitialMessage :: "tm \<Rightarrow> server \<Rightarrow> string" where
  "logInitialMessage now s =
     getCurrentFormattedTime now @
     '' num transactions '' @ show_int (getNumTransactions s) @
     '' total transferred '' @ show_int (getTotalTransferred s) @
     '' total balance '' @ show_int (getTotalBalance s)"

definition logRequisitionMessage :: "tm \<Rightarrow> server \<Rightarrow> transaction \<Rightarrow> string" where
  "logRequisitionMessage now s t =
     getCurrentFormattedTime now @
     '' client '' @ c_string (tx_source_ip t) @
     '' id req '' @ show_int (tx_client_seqn t) @
     '' dest '' @ c_string (tx_dest_ip t) @
     '' value '' @ show_int (tx_value t) @
     '' num transactions '' @ show_int (getNumTransactions s) @
     '' total transferred '' @ show_int (getTotalTransferred s) @
     '' total balance '' @ show_int (getTotalBalance s)"

definition logDuplicatedMessage :: "tm \<Rightarrow> server \<Rightarrow> log_info \<Rightarrow> string" where
  "logDuplicatedMessage now s info =
     getCurrentFormattedTime now @
     '' client '' @ li_source_ip info @
     '' DUP!!'' @
     '' id req '' @ show_int (li_transaction_id info) @
     '' dest '' @ li_dest_ip info @
     '' value '' @ show_int (li_value info) @
     '' num transactions '' @ show_int (getNumTransactions s) @
     '' total transferred '' @ show_int (getTotalTransferred s) @
     '' total balance '' @ show_int (getTotalBalance s)"

text \<open>What one iteration of \<open>run\<close> prints.\<close>

definition console_print :: "tm \<Rightarrow> server \<Rightarrow> string list" where
  "console_print now s =
     (case li_type (getLastLogInfo s) of
        LOG_SUCCESS \<Rightarrow> [logRequisitionMessage now s (getLastTransaction s)]
      | LOG_DUPLICATE \<Rightarrow> [logDuplicatedMessage now s (getLastLogInfo s)]
      | LOG_NONE \<Rightarrow> [])"

section \<open>The table of clients\<close>

text \<open>\<open>std::setw\<close> counts bytes; the accented letters of the heading are two bytes each.\<close>

definition table_heading :: string where
  "table_heading =
     setw_left 20 (''Endere'' @ [CHR 0xC3, CHR 0xA7] @ ''o IP'') @
     setw_left 25 ([CHR 0xC3, CHR 0x9A] @ ''ltimo ID recebido'') @
     setw_left 15 ''Saldo Atual''"

definition table_row :: "client_dto \<Rightarrow> string" where
  "table_row c =
     setw_left 20 (cl_address c) @ setw_left 25 (show_int (cl_last_req c)) @
     show_fixed2 (cl_balance c)"

definition table_rule :: string where
  "table_rule = replicate 53 CHR ''-''"

definition client_table_text :: "server \<Rightarrow> string list" where
  "client_table_text s =
     [table_heading, table_rule] @ map table_row (elems (clients s)) @ [table_rule, []]"

section \<open>Steps\<close>

text \<open>
  \<open>unsent\<close> counts the threads that have released the writer lock and not yet called \<open>notify\<close>.
\<close>

record console =
  con_server :: server
  unsent :: nat
  data_changed :: bool
  shown :: "string list"

datatype con_event = Did bank_op | NotifyCall | WakeUp tm

definition start :: "tm \<Rightarrow> server \<Rightarrow> console" where
  "start now s = \<lparr>con_server = s, unsent = 0, data_changed = False, shown = [logInitialMessage now s]\<rparr>"

definition notify :: "console \<Rightarrow> console" where
  "notify k = k\<lparr>data_changed := True\<rparr>"

definition run_iteration :: "tm \<Rightarrow> console \<Rightarrow> console" where
  "run_iteration now k =
     (if data_changed k
      then k\<lparr>shown := shown k @ console_print now (con_server k), data_changed := False\<rparr>
      else k)"

fun con_step :: "console \<Rightarrow> con_event \<Rightarrow> console option" where
  "con_step k (Did x) =
     map_option (\<lambda>(s', effs). k\<lparr>con_server := s', unsent := unsent k + count_list effs Notify\<rparr>)
       (bank_emit (con_server k) x)"
| "con_step k NotifyCall =
     (if unsent k = 0 then None else Some (notify (k\<lparr>unsent := unsent k - 1\<rparr>)))"
| "con_step k (WakeUp now) = Some (run_iteration now k)"

section \<open>Reading a line\<close>

text \<open>What a line for a request says: the time, whether it bears the mark \<open>DUP!!\<close>, the client, the
  number, the destination and the value, and the three counters.\<close>

record console_entry =
  ce_time :: tm
  ce_dup :: bool
  ce_client :: u32
  ce_req :: int
  ce_dest :: u32
  ce_value :: int
  ce_transactions :: int
  ce_transferred :: int
  ce_balance :: int

definition read_int :: "string \<Rightarrow> int option" where
  "read_int w = (case stoi w of Inl e \<Rightarrow> None | Inr n \<Rightarrow> Some n)"

definition read_fields :: "bool \<Rightarrow> string list \<Rightarrow> console_entry option" where
  "read_fields dup ws =
     (case ws of
        [day, clock, l1, a, l2, l3, q, l4, b, l5, v, l6, l7, n, l8, l9, t, l10, l11, s] \<Rightarrow>
          if [l1, l2, l3, l4, l5, l6, l7, l8, l9, l10, l11] =
             [''client'', ''id'', ''req'', ''dest'', ''value'', ''num'', ''transactions'', ''total'', ''transferred'',
              ''total'', ''balance'']
          then do {
            now \<leftarrow> read_time day clock;
            client \<leftarrow> inet_pton a;
            req \<leftarrow> read_int q;
            dest \<leftarrow> inet_pton b;
            val \<leftarrow> read_int v;
            transactions \<leftarrow> read_int n;
            transferred \<leftarrow> read_int t;
            balance \<leftarrow> read_int s;
            Some \<lparr>ce_time = now, ce_dup = dup, ce_client = client, ce_req = req, ce_dest = dest,
                  ce_value = val, ce_transactions = transactions, ce_transferred = transferred,
                  ce_balance = balance\<rparr>
          }
          else None
      | _ \<Rightarrow> None)"

definition read_entry :: "string \<Rightarrow> console_entry option" where
  "read_entry line =
     (let ws = line_fields line in
      if 4 < length ws \<and> ws ! 4 = ''DUP!!'' then read_fields True (take 4 ws @ drop 5 ws)
      else read_fields False ws)"

definition entry_for :: "tm \<Rightarrow> bool \<Rightarrow> u32 \<Rightarrow> int \<Rightarrow> u32 \<Rightarrow> int \<Rightarrow> server \<Rightarrow> console_entry" where
  "entry_for now dup a q b v s =
     \<lparr>ce_time = now, ce_dup = dup, ce_client = a, ce_req = q, ce_dest = b, ce_value = v,
      ce_transactions = num_transactions s, ce_transferred = total_transferred s,
      ce_balance = total_balance s\<rparr>"

lemma read_int_show [simp]: "in_i32 n \<Longrightarrow> read_int (show_int n) = Some n"
  by (simp add: read_int_def stoi_show_int)

lemma no_space_inet_ntop [simp]: "no_space (inet_ntop a)"
  by (auto simp: inet_ntop_def split: list.split)

lemma counters_in_range:
  "server_wf s \<Longrightarrow> in_i32 (num_transactions s) \<and> in_i32 (total_transferred s) \<and> in_i32 (total_balance s)"
  by (simp add: server_wf_def)

lemma read_request_line:
  assumes "valid_tm now" "server_wf s" "in_i32 (tx_value t)" "in_i32 (tx_client_seqn t)"
    and "c_string (tx_source_ip t) = inet_ntop a" "c_string (tx_dest_ip t) = inet_ntop b"
  shows "read_entry (logRequisitionMessage now s t) =
    Some (entry_for now False a (tx_client_seqn t) b (tx_value t) s)"
proof -
  obtain day clock where t: "getCurrentFormattedTime now = day @ '' '' @ clock" "no_space day" "no_space clock"
    "read_time day clock = Some now" using assms(1) by (rule time_stamp_read)
  have f: "line_fields (logRequisitionMessage now s t) =
      [day, clock, ''client'', inet_ntop a, ''id'', ''req'', show_int (tx_client_seqn t),
       ''dest'', inet_ntop b, ''value'', show_int (tx_value t),
       ''num'', ''transactions'', show_int (num_transactions s),
       ''total'', ''transferred'', show_int (total_transferred s),
       ''total'', ''balance'', show_int (total_balance s)]"
    using t(2,3) by (simp add: logRequisitionMessage_def t(1) assms(5,6) line_fields_last)
  show ?thesis
    unfolding read_entry_def f
    using assms(3,4) t(4) counters_in_range [OF assms(2)]
    by (simp add: read_fields_def entry_for_def Let_def)
qed

lemma read_duplicate_line:
  assumes "valid_tm now" "server_wf s" "in_i32 (li_value info)" "in_i32 (li_transaction_id info)"
    and "li_source_ip info = inet_ntop a" "li_dest_ip info = inet_ntop b"
  shows "read_entry (logDuplicatedMessage now s info) =
    Some (entry_for now True a (li_transaction_id info) b (li_value info) s)"
proof -
  obtain day clock where t: "getCurrentFormattedTime now = day @ '' '' @ clock" "no_space day" "no_space clock"
    "read_time day clock = Some now" using assms(1) by (rule time_stamp_read)
  have f: "line_fields (logDuplicatedMessage now s info) =
      [day, clock, ''client'', inet_ntop a, ''DUP!!'', ''id'', ''req'', show_int (li_transaction_id info),
       ''dest'', inet_ntop b, ''value'', show_int (li_value info),
       ''num'', ''transactions'', show_int (num_transactions s),
       ''total'', ''transferred'', show_int (total_transferred s),
       ''total'', ''balance'', show_int (total_balance s)]"
    using t(2,3) by (simp add: logDuplicatedMessage_def t(1) assms(5,6) line_fields_last)
  show ?thesis
    unfolding read_entry_def f
    using assms(3,4) t(4) counters_in_range [OF assms(2)]
    by (simp add: read_fields_def entry_for_def Let_def numeral_eq_Suc)
qed

section \<open>The console catches up\<close>

text \<open>The requests that leave a record for the console: those that are executed, and those that are
  refused for their number, which bear the mark \<open>DUP!!\<close>. Registrations leave none, nor do requests
  that are refused for lack of funds or because a client is unknown.\<close>

fun recorded :: "server \<Rightarrow> bank_op \<Rightarrow> (bool \<times> bank_op) option" where
  "recorded s (AddClient a) = None"
| "recorded s (Transact a b v q) =
     (case verdict s (inet_ntop a) (inet_ntop b) v q of
        SUCCESS \<Rightarrow> Some (False, Transact a b v q)
      | ERROR_DUPLICATE_REQUEST \<Rightarrow> Some (True, Transact a b v q)
      | ERROR_OUT_OF_SEQUENCE \<Rightarrow> Some (True, Transact a b v q)
      | _ \<Rightarrow> None)"

text \<open>The last of them in a run that starts at the bank \<open>s\<close>, \<open>r\<close> if there is none.\<close>

fun latest :: "(bool \<times> bank_op) option \<Rightarrow> server \<Rightarrow> con_event list \<Rightarrow> (bool \<times> bank_op) option" where
  "latest r s [] = r"
| "latest r s (Did x # evs) =
     (case bank_step s x of
        None \<Rightarrow> r
      | Some s' \<Rightarrow> latest (if recorded s x = None then r else recorded s x) s' evs)"
| "latest r s (NotifyCall # evs) = latest r s evs"
| "latest r s (WakeUp now # evs) = latest r s evs"

text \<open>What the bank keeps of it.\<close>

fun record_kept :: "server \<Rightarrow> bool \<times> bank_op \<Rightarrow> bool" where
  "record_kept s (dup, AddClient a) \<longleftrightarrow> False"
| "record_kept s (dup, Transact a b v q) \<longleftrightarrow> in_i32 v \<and> in_i32 q \<and>
     (if dup then last_log_info s =
        \<lparr>li_type = LOG_DUPLICATE, li_transaction_id = q, li_value = v, li_source_ip = inet_ntop a,
         li_dest_ip = inet_ntop b\<rparr>
      else li_type (last_log_info s) = LOG_SUCCESS \<and> transaction_history s \<noteq> [] \<and>
        (let t = last (transaction_history s) in
         tx_source_ip t = ip_array (inet_ntop a) \<and> tx_dest_ip t = ip_array (inet_ntop b) \<and>
         tx_value t = v \<and> tx_client_seqn t = q))"

lemma record_kept_frame:
  "record_kept s e \<Longrightarrow> last_log_info s' = last_log_info s \<Longrightarrow> transaction_history s' = transaction_history s \<Longrightarrow>
     record_kept s' e"
  by (cases "(s, e)" rule: record_kept.cases) auto

lemma bank_step_record:
  assumes "server_wf s" "op_typed x" "bank_step s x = Some s'"
  shows "case recorded s x of
      None \<Rightarrow> last_log_info s' = last_log_info s \<and> transaction_history s' = transaction_history s
    | Some e \<Rightarrow> record_kept s' e"
proof (cases x)
  case (AddClient a)
  show ?thesis
    by (rule wasClientAdded_cases [of s "inet_ntop a"])
      (use AddClient assms(3) in \<open>auto simp: addClient_def\<close>)
next
  case (Transact a b v q)
  then have "s' = outcome s (inet_ntop a) (inet_ntop b) v q"
    using assms bank_step_Transact [OF assms(1), of q a b v] by (simp del: bank_step_simps)
  then show ?thesis
    using Transact assms(2)
    by (cases "verdict s (inet_ntop a) (inet_ntop b) v q")
      (simp_all add: outcome_def setupDuplicateRequestLog_def committed_def updateAndLogTransaction_def
        new_transaction_def settled_def Let_def)
qed

definition caught_up :: "tm set \<Rightarrow> console \<Rightarrow> bool" where
  "caught_up T k \<longleftrightarrow>
     (li_type (last_log_info (con_server k)) \<noteq> LOG_NONE \<longrightarrow>
        shown k \<noteq> [] \<and> (\<exists>now\<in>T. console_print now (con_server k) = [last (shown k)]))"

text \<open>\<open>T\<close> are the times at which the thread wakes up, \<open>r\<close> is the latest recorded request.\<close>

definition con_inv :: "tm set \<Rightarrow> (bool \<times> bank_op) option \<Rightarrow> console \<Rightarrow> bool" where
  "con_inv T r k \<longleftrightarrow> server_wf (con_server k) \<and>
     (\<forall>e. r = Some e \<longrightarrow> record_kept (con_server k) e) \<and>
     (unsent k = 0 \<and> \<not> data_changed k \<longrightarrow> caught_up T k)"

lemma console_print_one:
  "if li_type (last_log_info s) = LOG_NONE then console_print now s = [] else \<exists>l. console_print now s = [l]"
  by (cases "li_type (last_log_info s)") (simp_all add: console_print_def)

lemma bank_emit_notifies:
  assumes "server_wf s" "op_typed x" "bank_emit s x = Some (s', effs)" "Notify \<notin> set effs"
  shows "s' = s"
proof (cases x)
  case (AddClient a)
  show ?thesis
    by (rule wasClientAdded_cases [of s "inet_ntop a"])
      (use AddClient assms in \<open>auto simp: addClient_def\<close>)
next
  case (Transact a b v q)
  then have s': "s' = outcome s (inet_ntop a) (inet_ntop b) v q"
    and n: "\<not> should_notify (verdict s (inet_ntop a) (inet_ntop b) v q)"
    using assms by (auto simp: processTransaction_eq Let_def split: if_splits)
  then show ?thesis
    by (rule_tac outcome_cases [of s "inet_ntop a" "inet_ntop b" v q]) (auto simp: should_notify_def)
qed

text \<open>The latest recorded request after one event.\<close>

definition record_after :: "(bool \<times> bank_op) option \<Rightarrow> console \<Rightarrow> con_event \<Rightarrow> (bool \<times> bank_op) option" where
  "record_after r k ev =
     (case ev of Did x \<Rightarrow> if recorded (con_server k) x = None then r else recorded (con_server k) x | _ \<Rightarrow> r)"

lemma con_step_inv:
  assumes "con_inv T r k" "\<forall>x. ev = Did x \<longrightarrow> op_typed x" "\<forall>now. ev = WakeUp now \<longrightarrow> now \<in> T"
    and "con_step k ev = Some k'"
  shows "con_inv T (record_after r k ev) k'"
proof (cases ev)
  case (Did x)
  then obtain s' effs where b: "bank_emit (con_server k) x = Some (s', effs)"
    and k': "k' = k\<lparr>con_server := s', unsent := unsent k + count_list effs Notify\<rparr>"
    using assms(4) by auto
  have wf: "server_wf (con_server k)" and t: "op_typed x" using assms(1,2) Did by (simp_all add: con_inv_def)
  have st: "bank_step (con_server k) x = Some s'" using b by (simp add: bank_step_def)
  have wf': "server_wf s'" using typed_runs.step_inv [OF wf t, of 0] st by auto
  have rec: "record_kept s' e" if e: "record_after r k ev = Some e" for e
  proof (cases "recorded (con_server k) x")
    case None
    then have "record_kept (con_server k) e" using e Did assms(1) by (simp add: record_after_def con_inv_def)
    then show ?thesis using bank_step_record [OF wf t st] None by (simp add: record_kept_frame)
  next
    case (Some e')
    then show ?thesis using bank_step_record [OF wf t st] e Did by (simp add: record_after_def)
  qed
  show ?thesis
  proof (cases "Notify \<in> set effs")
    case True
    then have "count_list effs Notify \<noteq> 0" by (simp add: count_list_0_iff)
    with wf' rec show ?thesis by (simp add: con_inv_def k')
  next
    case False
    then have "s' = con_server k" "count_list effs Notify = 0"
      using bank_emit_notifies [OF wf t b] by (simp_all add: count_list_0_iff)
    with assms(1) wf' rec show ?thesis by (simp add: con_inv_def k' caught_up_def)
  qed
next
  case NotifyCall
  with assms show ?thesis by (auto simp: con_inv_def notify_def record_after_def split: if_splits)
next
  case (WakeUp now)
  then show ?thesis
    using assms console_print_one [of "con_server k" now]
    by (cases "data_changed k")
      (auto simp: con_inv_def run_iteration_def caught_up_def record_after_def split: if_splits)
qed

definition bank_events_typed :: "con_event list \<Rightarrow> bool" where
  "bank_events_typed evs \<longleftrightarrow> (\<forall>x. Did x \<in> set evs \<longrightarrow> op_typed x)"

definition wake_times :: "con_event list \<Rightarrow> tm set" where
  "wake_times evs = {now. WakeUp now \<in> set evs}"

lemma con_run_inv:
  "con_inv T r k \<Longrightarrow> bank_events_typed evs \<Longrightarrow> wake_times evs \<subseteq> T \<Longrightarrow> run_steps con_step k evs = Some k' \<Longrightarrow>
     con_inv T (latest r (con_server k) evs) k'"
proof (induction evs arbitrary: k r)
  case (Cons ev evs)
  then obtain k1 where k1: "con_step k ev = Some k1" "run_steps con_step k1 evs = Some k'"
    by (auto split: option.splits)
  have "con_inv T (record_after r k ev) k1"
    by (rule con_step_inv [OF Cons.prems(1) _ _ k1(1)])
      (use Cons.prems in \<open>auto simp: bank_events_typed_def wake_times_def\<close>)
  moreover have "latest r (con_server k) (ev # evs) = latest (record_after r k ev) (con_server k1) evs"
    using k1(1) by (cases ev) (auto simp: record_after_def bank_step_def notify_def run_iteration_def split: if_splits)
  ultimately show ?case
    using Cons.IH [of "record_after r k ev" k1] Cons.prems k1(2)
    by (auto simp: bank_events_typed_def wake_times_def)
qed simp

section \<open>Properties\<close>

text \<open>C28. The console catches up. Take any run of the bank, of the notifications and of the console
  thread, from a bank that has recorded nothing, in which some request was executed, or refused for
  its number. Once every notification has been delivered and the thread has gone back to its wait,
  the last line on the console reads back as the last such request: its client, number, destination
  and value, marked \<open>DUP!!\<close> exactly when it was refused, with the time of a wake-up of the thread and
  the counters of the present state; and the first two of those are the length and the sum of the
  history.\<close>

theorem console_catches_up:
  assumes "server_wf s" "last_log_info s = empty_log_info" "bank_events_typed evs" "\<forall>now\<in>wake_times evs. valid_tm now"
    and "run_steps con_step (start t0 s) evs = Some k" "unsent k = 0" "\<not> data_changed k"
    and "latest None s evs = Some (dup, Transact a b v q)"
  shows "shown k \<noteq> [] \<and>
    (\<exists>now\<in>wake_times evs. read_entry (last (shown k)) = Some (entry_for now dup a q b v (con_server k))) \<and>
    num_transactions (con_server k) = wrap32 (int (length (transaction_history (con_server k)))) \<and>
    total_transferred (con_server k) =
      wrap32 (sum_list (map tx_value (transaction_history (con_server k))))"
proof -
  let ?s = "con_server k"
  have "con_inv (wake_times evs) None (start t0 s)"
    using assms(1,2) by (simp add: con_inv_def start_def caught_up_def empty_log_info_def)
  then have inv: "con_inv (wake_times evs) (latest None s evs) k"
    using con_run_inv [OF _ assms(3) order_refl assms(5)] by (simp add: start_def)
  then have wf: "server_wf ?s" and kept: "record_kept ?s (dup, Transact a b v q)"
    using assms(8) by (simp_all add: con_inv_def)
  then have "li_type (last_log_info ?s) \<noteq> LOG_NONE" by (auto split: if_splits)
  then obtain now where now: "shown k \<noteq> []" "now \<in> wake_times evs" "console_print now ?s = [last (shown k)]"
    using inv assms(6,7) by (auto simp: con_inv_def caught_up_def)
  have v: "valid_tm now" using assms(4) now(2) by blast
  have "read_entry (last (shown k)) = Some (entry_for now dup a q b v ?s)"
  proof (cases dup)
    case True
    then show ?thesis
      using kept now(3) read_duplicate_line [OF v wf, of "last_log_info ?s" a b]
      by (simp add: console_print_def getLastLogInfo_def)
  next
    case False
    then show ?thesis
      using kept now(3) read_request_line [OF v wf, of "last (transaction_history ?s)" a b]
      by (simp add: console_print_def getLastLogInfo_def getLastTransaction_def Let_def)
  qed
  then show ?thesis using now(1,2) wf by (auto simp: server_wf_def)
qed

text \<open>Notifications are not counted: two requests that are both executed before the console thread
  wakes up leave one line, the second one's, and the first is never shown.\<close>

lemma console_coalesces:
  assumes "unsent k = 0" "\<not> data_changed k"
    and "bank_emit (con_server k) x = Some (s1, e1)" "count_list e1 Notify = 1"
    and "bank_emit s1 y = Some (s2, e2)" "count_list e2 Notify = 1"
  shows "run_steps con_step k [Did x, Did y, NotifyCall, NotifyCall, WakeUp now, WakeUp now] =
    Some (k\<lparr>con_server := s2, unsent := 0, data_changed := False,
            shown := shown k @ console_print now s2\<rparr>)"
  using assms by (simp add: notify_def run_iteration_def)

lemma demo_emits:
  "\<exists>s1 e1 s2 e2. bank_emit demo (Transact 1 2 100 1) = Some (s1, e1) \<and> count_list e1 Notify = 1 \<and>
     bank_emit s1 (Transact 1 2 100 1) = Some (s2, e2) \<and> count_list e2 Notify = 1 \<and>
     recorded demo (Transact 1 2 100 1) = Some (False, Transact 1 2 100 1) \<and>
     recorded s1 (Transact 1 2 100 1) = Some (True, Transact 1 2 100 1)"
proof -
  have i: "in_i32 100" "in_i32 1" by (simp_all add: in_i32_def)
  have no_notify: "count_list (propagated s a b st) Notify = 0" for s a b st
    using propagated_send_all [of s a b st] by (auto simp: send_all_def count_list_0_iff)
  let ?s1 = "committed demo (inet_ntop 1) (inet_ntop 2) 100 1"
  have wf1: "server_wf ?s1" by (rule server_wf_committed [OF demo_wf i])
  have o: "outcome demo (inet_ntop 1) (inet_ntop 2) 100 1 = ?s1"
    using demo_verdict by (simp add: outcome_def)
  have "cl_last_req (settle_row (inet_ntop 1) (inet_ntop 2) 100 1 (demo_row 1 1000 0)) = 1"
    by (simp add: last_req_settle_row)
  then have v: "verdict ?s1 (inet_ntop 1) (inet_ntop 2) 100 1 = ERROR_DUPLICATE_REQUEST"
    by (simp add: verdict_def)
  show ?thesis
    by (simp add: processTransaction_eq [OF demo_wf i(2)] processTransaction_eq [OF wf1 i(2)] Let_def
        demo_verdict o v no_notify should_notify_def)
qed

definition midnight :: tm where
  "midnight = \<lparr>tm_sec = 0, tm_min = 0, tm_hour = 0, tm_mday = 1, tm_mon = 0, tm_year = 125\<rparr>"

text \<open>The repeated request is the last one recorded; the line has its wake-up's time.\<close>

theorem console_catches_up_witness:
  "\<exists>k. run_steps con_step (start midnight demo)
     [Did (Transact 1 2 100 1), Did (Transact 1 2 100 1), NotifyCall, NotifyCall, WakeUp midnight, WakeUp midnight] = Some k \<and>
     read_entry (last (shown k)) = Some (entry_for midnight True 1 1 2 100 (con_server k))"
proof -
  obtain s1 e1 s2 e2 where d: "bank_emit demo (Transact 1 2 100 1) = Some (s1, e1)" "count_list e1 Notify = 1"
    "bank_emit s1 (Transact 1 2 100 1) = Some (s2, e2)" "count_list e2 Notify = 1"
    "recorded demo (Transact 1 2 100 1) = Some (False, Transact 1 2 100 1)"
    "recorded s1 (Transact 1 2 100 1) = Some (True, Transact 1 2 100 1)" using demo_emits by blast
  let ?evs = "[Did (Transact 1 2 100 1), Did (Transact 1 2 100 1), NotifyCall, NotifyCall, WakeUp midnight, WakeUp midnight]"
  obtain k where k: "run_steps con_step (start midnight demo) ?evs = Some k" "con_server k = s2"
      "unsent k = 0" "\<not> data_changed k"
    using d by (simp add: start_def notify_def run_iteration_def del: bank_emit.simps)
  have "last_log_info demo = empty_log_info" by (simp add: demo_simps)
  moreover have "bank_events_typed ?evs" by (simp add: bank_events_typed_def in_i32_def)
  moreover have w: "wake_times ?evs = {midnight}" by (auto simp: wake_times_def)
  moreover have "valid_tm midnight" by (simp add: valid_tm_def midnight_def in_i32_def)
  moreover have "latest None demo ?evs = Some (True, Transact 1 2 100 1)"
    using d by (simp add: bank_step_def del: bank_emit.simps recorded.simps bank_step_simps)
  ultimately show ?thesis
    using console_catches_up [OF demo_wf _ _ _ k(1,3,4), of True 1 2 100 1] k(1) by auto
qed

text \<open>C29. A line of the console reads back as what it was printed for. The line for an executed request
  between two addresses gives back the time, the client, the number of its request, the destination,
  the value and the counters of the server, and the line for a refused one the same behind the mark
  \<open>DUP!!\<close>; for every time of day from the year 0 on, all addresses and all values of an \<open>int\<close>.\<close>

theorem console_line_readable:
  assumes "valid_tm now" "server_wf s"
    and "c_string (tx_source_ip t) = inet_ntop a" "c_string (tx_dest_ip t) = inet_ntop b"
    and "in_i32 (tx_value t)" "in_i32 (tx_client_seqn t)"
    and "li_source_ip info = inet_ntop x" "li_dest_ip info = inet_ntop y"
    and "in_i32 (li_value info)" "in_i32 (li_transaction_id info)"
  shows "read_entry (logRequisitionMessage now s t) =
      Some \<lparr>ce_time = now, ce_dup = False, ce_client = a, ce_req = tx_client_seqn t, ce_dest = b,
        ce_value = tx_value t, ce_transactions = num_transactions s,
        ce_transferred = total_transferred s, ce_balance = total_balance s\<rparr> \<and>
    read_entry (logDuplicatedMessage now s info) =
      Some \<lparr>ce_time = now, ce_dup = True, ce_client = x, ce_req = li_transaction_id info, ce_dest = y,
        ce_value = li_value info, ce_transactions = num_transactions s,
        ce_transferred = total_transferred s, ce_balance = total_balance s\<rparr>"
  using read_request_line [OF assms(1,2,5,6,3,4)] read_duplicate_line [OF assms(1,2,9,10,7,8)]
  by (simp add: entry_for_def)

theorem console_line_readable_witness:
  "read_entry (logRequisitionMessage midnight demo \<lparr>tx_id = 1, tx_source_ip = ip_array (inet_ntop 1),
      tx_dest_ip = ip_array (inet_ntop 2), tx_value = -5, tx_client_seqn = 1\<rparr>) =
    Some \<lparr>ce_time = midnight, ce_dup = False, ce_client = 1, ce_req = 1, ce_dest = 2, ce_value = -5,
      ce_transactions = 0, ce_transferred = 0, ce_balance = 2000\<rparr>"
proof -
  have "valid_tm midnight" by (simp add: valid_tm_def midnight_def in_i32_def)
  from console_line_readable [OF this demo_wf,
      of "\<lparr>tx_id = 1, tx_source_ip = ip_array (inet_ntop 1), tx_dest_ip = ip_array (inet_ntop 2),
        tx_value = -5, tx_client_seqn = 1\<rparr>" 1 2
      "\<lparr>li_type = LOG_DUPLICATE, li_transaction_id = 1, li_value = 5, li_source_ip = inet_ntop 1,
        li_dest_ip = inet_ntop 2\<rparr>" 1 2]
  show ?thesis by (simp add: in_i32_def) (simp add: demo_simps)
qed

section \<open>The columns of the table\<close>

lemma setw_left_columns:
  assumes "length s \<le> n" shows "take n (setw_left n s @ t) = setw_left n s" "drop n (setw_left n s @ t) = t"
  using assms by (simp_all add: setw_left_def)

text \<open>In the rows each value has its place: the address in the first 20 columns, the number in the
  next 25, then the balance.\<close>

lemma table_row_columns:
  assumes "length (cl_address c) \<le> 20" "length (show_int (cl_last_req c)) \<le> 25"
  shows "take 20 (table_row c) = setw_left 20 (cl_address c)"
    "take 25 (drop 20 (table_row c)) = setw_left 25 (show_int (cl_last_req c))"
    "drop 45 (table_row c) = show_fixed2 (cl_balance c)"
proof -
  note d = setw_left_columns [OF assms(1)] setw_left_columns [OF assms(2)]
  show "take 20 (table_row c) = setw_left 20 (cl_address c)" by (simp only: table_row_def d)
  show "take 25 (drop 20 (table_row c)) = setw_left 25 (show_int (cl_last_req c))"
    by (simp only: table_row_def d)
  have "drop 45 (table_row c) = drop 25 (drop 20 (table_row c))" by simp
  then show "drop 45 (table_row c) = show_fixed2 (cl_balance c)" by (simp only: table_row_def d)
qed

text \<open>The heading is shifted: up to the byte where the balances begin in the rows it has 43
  characters, not 45, as a byte \<open>10xxxxxx\<close> continues a character.\<close>

definition starts_character :: "char \<Rightarrow> bool" where
  "starts_character c \<longleftrightarrow> (of_char c :: nat) div 64 \<noteq> 2"

lemma heading_shifted: "length (filter starts_character (take 45 table_heading)) = 43"
  by code_simp

end
