(* ===== verification/StartTheorems.thy ===== *)
theory StartTheorems
  imports ServerLoop
begin

text \<open>
  The properties of a server's start: its identifier, when the search for a primary finds one, and
  how \<open>init\<close> comes up or fails.
\<close>

section \<open>The identifier\<close>

lemma first_ip_cases:
  "first_ip l = 0 \<or>
   (\<exists>i. Some i \<in> set l \<and> ifa_family i = AF_INET \<and> first_ip l = ntohl (ifa_s_addr i) \<and>
        drop_bit 24 (first_ip l) \<noteq> 127)"
  by (induction l rule: first_ip.induct) auto

lemma first_ip_None:
  "first_ip l = 0 \<Longrightarrow> Some i \<in> set l \<Longrightarrow> ifa_family i = AF_INET \<Longrightarrow>
     drop_bit 24 (ntohl (ifa_s_addr i)) \<noteq> 127 \<Longrightarrow>
     \<exists>j. Some j \<in> set l \<and> ifa_family j = AF_INET \<and> ntohl (ifa_s_addr j) = 0"
  by (induction l rule: first_ip.induct) (auto split: if_splits)

text \<open>The identifier of a server is the address of one of its IPv4 interfaces, in host order, that
  is not a loopback address; it is 0 only when the list of interfaces could not be had or none of
  them has such an address other than 0.0.0.0.\<close>

lemma server_id_from_interface:
  "(getIp interfaces \<noteq> 0 \<longrightarrow>
      (\<exists>l i. interfaces = Some l \<and> Some i \<in> set l \<and> ifa_family i = AF_INET \<and>
             getIp interfaces = ntohl (ifa_s_addr i) \<and> drop_bit 24 (getIp interfaces) \<noteq> 127)) \<and>
   (getIp interfaces = 0 \<longrightarrow>
      (\<forall>l i. interfaces = Some l \<and> Some i \<in> set l \<and> ifa_family i = AF_INET \<and>
             drop_bit 24 (ntohl (ifa_s_addr i)) \<noteq> 127 \<longrightarrow>
         (\<exists>j. Some j \<in> set l \<and> ifa_family j = AF_INET \<and> ntohl (ifa_s_addr j) = 0)))"
proof (cases interfaces)
  case (Some l)
  then show ?thesis
    using first_ip_cases [of l] first_ip_None [of l] by (simp add: getIp_def) blast
qed (simp add: getIp_def)

section \<open>The search for a primary\<close>

text \<open>An iteration that receives a packet in time which is no acknowledgement, and one that does not.\<close>

definition chatter :: "nat \<times> datagram option \<Rightarrow> bool" where
  "chatter r \<longleftrightarrow>
     (\<exists>t p a. r = (t, Some (p, a)) \<and> t \<le> 2 \<and> length p = PACKET_SIZE \<and> packet_label p \<noteq> Some DISCOVERY_ACK)"

lemma discovery_loop_chatter:
  assumes "\<forall>r\<in>set pre. chatter r" "length buf = PACKET_SIZE"
  shows "\<exists>buf'. length buf' = PACKET_SIZE \<and> discovery_loop buf (pre @ env) = discovery_loop buf' env"
  using assms
proof (induction pre arbitrary: buf)
  case (Cons r pre)
  then obtain t p a where r: "r = (t, Some (p, a))" "t \<le> 2" "length p = PACKET_SIZE"
      "packet_label p \<noteq> Some DISCOVERY_ACK" by (auto simp: chatter_def)
  have "discovery_loop buf ((r # pre) @ env) = discovery_loop p (pre @ env)"
    using r Cons.prems(2) by (simp add: recv_into_full) (simp add: PACKET_SIZE_def)
  then show ?case using Cons.IH [OF _ r(3)] Cons.prems(1) by auto
qed auto

text \<open>C32. The search returns the sender of the first acknowledgement that arrives within its time,
  whatever other packets of full size arrive before it; and it returns the empty string as soon
  as a receive times out, or fails, or the clock shows more than two seconds at the head of the
  loop.\<close>

theorem discovery_finds_first_ack:
  assumes "\<forall>r\<in>set pre. chatter r" "length buf = PACKET_SIZE"
    and "t \<le> 2" "packet_label ack = Some DISCOVERY_ACK" "length ack = PACKET_SIZE" "2 < late"
  shows "discovery_loop buf (pre @ (t, Some (ack, primary)) # env) = Some (inet_ntop (sin_addr primary)) \<and>
    discovery_loop buf (pre @ (t, None) # env) = Some [] \<and>
    discovery_loop buf (pre @ (late, r) # env) = Some []"
proof -
  have "discovery_loop b ((t, Some (ack, primary)) # env) = Some (inet_ntop (sin_addr primary))"
    if "length b = PACKET_SIZE" for b
    using assms(3-5) that by (simp add: recv_into_full) (simp add: PACKET_SIZE_def)
  moreover have "discovery_loop b ((t, None) # env) = Some []" for b using assms(3) by simp
  moreover have "discovery_loop b ((late, r) # env) = Some []" for b using assms(6) by simp
  ultimately show ?thesis
    using discovery_loop_chatter [OF assms(1,2)] by metis
qed

theorem discovery_finds_first_ack_witness:
  "discovery_loop (bare_packet HEARTBEAT)
     [(0, Some (bare_packet HEARTBEAT, zero_sockaddr)),
      (1, Some (bare_packet DISCOVERY_ACK, \<lparr>sin_family = AF_INET, sin_port = 0, sin_addr = 9\<rparr>))] =
   Some (inet_ntop 9) \<and>
   discovery_loop (bare_packet HEARTBEAT)
     [(0, Some (bare_packet HEARTBEAT, zero_sockaddr)), (4, Some (bare_packet DISCOVERY_ACK, zero_sockaddr))] = Some []"
proof -
  have "length (bare_packet t) = PACKET_SIZE" for t by (simp add: bare_packet_def)
  then show ?thesis
    using discovery_finds_first_ack [of "[(0, Some (bare_packet HEARTBEAT, zero_sockaddr))]"
        "bare_packet HEARTBEAT" 1 "bare_packet DISCOVERY_ACK" 4
        "\<lparr>sin_family = AF_INET, sin_port = 0, sin_addr = 9\<rparr>" "[]" "Some (bare_packet DISCOVERY_ACK, zero_sockaddr)"]
    by (simp add: chatter_def)
qed

section \<open>init\<close>

text \<open>C31. \<open>init\<close> throws exactly when the socket cannot be created, configured for broadcasting or bound;
  the code looks at the first of these only, the other two surface as the exception of
  \<open>setReceiveTimeout\<close> on the socket that they closed. Otherwise the server comes up as a backup:
  registered with the primary it found and monitoring it, or about to stand for election.\<close>

theorem start_outcome:
  assumes "run_discovery_service_server port buf env = Some (ip, sends)"
  shows "server_start s c b d fds port buf env =
    (if \<not> c then Some (Inl ''Erro ao criar o socket do servidor.'')
     else if \<not> (b \<and> d (ServerUDP_setUpServerAddress port)) then Some (Inl ''Erro ao configurar timeout de rececao.'')
     else if ip = [] then Some (Inr (s\<lparr>current_role := BACKUP\<rparr>, sends @ [SpawnElection]))
     else (let addr = \<lparr>sin_family = AF_INET, sin_port = htons (word_of_int port),
                       sin_addr = inet_pton_into ip 0\<rparr> in
           Some (Inr (s\<lparr>current_role := BACKUP, primary_server_addr := addr\<rparr>,
                      sends @ [Send (bare_packet REGISTER_BACKUP) addr, SpawnHeartbeatMonitor]))))"
proof (cases rule: server_socket_up_cases [of c b d port fds])
  case 1
  then show ?thesis by (simp add: server_start_def)
next
  case (2 u)
  then show ?thesis
    using assms
    by (cases "b \<and> d (ServerUDP_setUpServerAddress port)"; cases "ip = []")
      (simp_all add: server_start_def ServerUDP_setReceiveTimeout_def initBackup_def initPrimary_def Let_def)
qed

theorem start_outcome_witness:
  "server_start (server_new 4000 5 BACKUP False zero_sockaddr) True True (\<lambda>a. sin_port a \<noteq> htons 4000) [] 4000
     (bare_packet HEARTBEAT) [(0, None)] = Some (Inl ''Erro ao configurar timeout de rececao.'')"
  using start_outcome [of 4000 "bare_packet HEARTBEAT" "[(0, None)]" "[]"
      "replicate 3 (Send (bare_packet SERVER_DISCOVERY) (broadcast_sockaddr 4000))"
      "server_new 4000 5 BACKUP False zero_sockaddr" True True "\<lambda>a. sin_port a \<noteq> htons 4000" "[]"]
  by (simp add: run_discovery_service_server_def ServerUDP_setUpServerAddress_def)

end
