(* ===== verification/Client.thy ===== *)
theory Client
  imports ServerLoop Utils
begin

text \<open>
  The client of the bank: the search for the server (discovery/discoveryClient.cpp), the class
  \<open>Client\<close> with its retries and its listener (client/Client.cpp), and the sending and receiving of
  one request (transactions/transactionClient.cpp). What the operating system and the network do
  is an argument: which system calls succeed, which datagrams arrive, and what the memory of the
  packets that the code leaves uninitialised holds.
\<close>

section \<open>Discovery\<close>

record discovery_env =
  de_create :: bool
  de_option :: bool
  de_send :: bool
  de_junk :: packet
  de_received :: "datagram option"
  de_socket :: bool  \<comment> \<open>whether \<open>discoverServer\<close>'s own socket is created\<close>

text \<open>
  The result (a \<open>runtime_error\<close> on the left), the packets sent, the calls of \<open>close\<close> in their
  order, the last by the destructor of the local \<open>ClientUDP\<close>, and the descriptor table before
  those calls.
\<close>

definition run_discovery_service_client ::
    "int \<Rightarrow> discovery_env \<Rightarrow> fd_table \<Rightarrow> (string + string) \<times> effect list \<times> int list \<times> fd_table" where
  "run_discovery_service_client server_port e fds =
     (case ClientUDP_setupBroadcast (de_create e) (de_option e) (-1, fds) of (up, u) \<Rightarrow>
        let destructor = closeSocket_calls u in
        if \<not> up then
          (Inl ''Erro ao configurar o socket do cliente para broadcast.'', [], destructor, snd u)
        else if \<not> de_send e then
          (Inl ''Erro ao enviar a mensagem de descoberta.'', [], destructor, snd u)
        else
          (let sends = [Send (bare_packet DISCOVERY) (broadcast_sockaddr server_port)] in
           case de_received e of
             None \<Rightarrow> (Inl ''Nenhuma resposta de descoberta recebida do servidor.'', sends,
                      destructor @ destructor, snd u)
           | Some (bytes, server_addr) \<Rightarrow>
               (case recv_into (de_junk e) bytes of (response, n) \<Rightarrow>
                  if n > 0 \<and> packet_label response = Some DISCOVERY_ACK
                  then (Inr (inet_ntop (sin_addr server_addr)), sends, destructor @ destructor, snd u)
                  else (Inl ''Nenhuma resposta de descoberta recebida do servidor.'', sends,
                        destructor @ destructor, snd u))))"

section \<open>Client\<close>

record client =
  cli_port :: int
  sequence_number :: int
  server_address :: string
  server_sock_addr :: sockaddr
  client_socket :: int

definition client_new :: "int \<Rightarrow> client" where
  "client_new p =
     \<lparr>cli_port = p, sequence_number = 1, server_address = [], server_sock_addr = zero_sockaddr,
      client_socket = -1\<rparr>"

definition TIMEOUT_MS :: int where "TIMEOUT_MS = 5000"

text \<open>What \<open>setReceiveTimeout(seconds, microseconds)\<close> asks of the kernel, in microseconds.\<close>

definition timeval_us :: "int \<Rightarrow> int \<Rightarrow> int" where
  "timeval_us seconds microseconds = seconds * 1000000 + microseconds"

definition receive_timeout_us :: int where
  "receive_timeout_us = timeval_us 0 TIMEOUT_MS"

definition discoverServer ::
    "client \<Rightarrow> discovery_env \<Rightarrow> fd_table \<Rightarrow> (string + client) \<times> effect list \<times> fd_table" where
  "discoverServer c e fds =
     (case run_discovery_service_client (cli_port c) e fds of (found, sends, closes, fds1) \<Rightarrow>
        let fds2 = foldl (\<lambda>t fd. sys_close fd t) fds1 closes in
        case found of
          Inl err \<Rightarrow> (Inl err, sends, fds2)
        | Inr ip \<Rightarrow>
            (case ClientUDP_createSocket (de_socket e) (client_socket c, fds2) of (ok, u) \<Rightarrow>
               (Inr (c\<lparr>server_address := ip, client_socket := fst u,
                       server_sock_addr :=
                         \<lparr>sin_family = AF_INET, sin_port = htons (word_of_int (cli_port c)),
                          sin_addr = inet_pton_into ip (sin_addr (server_sock_addr c))\<rparr>\<rparr>),
                sends, snd u)))"

text \<open>One iteration of \<open>listenForAnnouncements\<close> that received something: the packet in its buffer and the sender.\<close>

definition heed_announcement :: "client \<Rightarrow> packet \<times> sockaddr \<Rightarrow> client" where
  "heed_announcement c m =
     (case m of (p, sender) \<Rightarrow>
        if packet_label p = Some NEW_PRIMARY_ANNOUNCEMENT then
          (let new_ip = inet_ntop (sin_addr sender) in
           if new_ip \<noteq> server_address c then
             c\<lparr>server_address := new_ip,
               server_sock_addr :=
                 \<lparr>sin_family = AF_INET, sin_port = htons (word_of_int (cli_port c)),
                  sin_addr = inet_pton_into new_ip 0\<rparr>\<rparr>
           else c)
        else c)"

text \<open>
  The thread \<open>listenForAnnouncements\<close>: its socket, with what the system calls answer, and its loop
  over what \<open>recvfrom\<close> returns, with the buffer that it keeps. It returns at once, and silently,
  when the socket cannot be set up.
\<close>

record listener_env =
  le_create :: bool
  le_reuse :: bool
  le_bind :: "sockaddr \<Rightarrow> bool"
  le_junk :: packet

definition listener_addr :: "int \<Rightarrow> sockaddr" where
  "listener_addr port =
     zero_sockaddr\<lparr>sin_family := AF_INET, sin_port := htons (word_of_int port), sin_addr := htonl 0\<rparr>"

definition listener_socket :: "int \<Rightarrow> listener_env \<Rightarrow> fd_table \<Rightarrow> int option \<times> fd_table" where
  "listener_socket port e fds =
     (case sys_socket (le_create e) fds of (sockfd, fds1) \<Rightarrow>
        if sockfd < 0 then (None, fds1)
        else if \<not> le_reuse e then (None, sys_close sockfd fds1)
        else if \<not> le_bind e (listener_addr port) then (None, sys_close sockfd fds1)
        else (Some sockfd, fds1))"

fun listener_loop :: "packet \<Rightarrow> client \<Rightarrow> datagram option list \<Rightarrow> client" where
  "listener_loop buf c [] = c"
| "listener_loop buf c (None # ds) = listener_loop buf c ds"
| "listener_loop buf c (Some (bytes, sender) # ds) =
     (case recv_into buf bytes of (buf', n) \<Rightarrow>
        listener_loop buf' (if n > 0 then heed_announcement c (buf', sender) else c) ds)"

definition listenForAnnouncements ::
    "client \<Rightarrow> listener_env \<Rightarrow> fd_table \<Rightarrow> datagram option list \<Rightarrow> client \<times> fd_table" where
  "listenForAnnouncements c e fds ds =
     (case listener_socket (cli_port c) e fds of
        (None, fds1) \<Rightarrow> (c, fds1)
      | (Some sockfd, fds1) \<Rightarrow> (listener_loop (le_junk e) c ds, fds1))"

section \<open>One request\<close>

text \<open>
  \<open>sendRequestPacket\<close> fills in an uninitialised packet, \<open>junk\<close>: when the destination cannot be
  parsed, \<open>dest_addr\<close> keeps what was there.
\<close>

definition request_packet :: "packet \<Rightarrow> int \<Rightarrow> string \<Rightarrow> int \<Rightarrow> packet" where
  "request_packet junk seqn dest_ip val =
     mk_packet_over (drop 12 (packet_data junk)) TRANSACTION_REQ (enc_req
       \<lparr>rq_dest_addr = inet_pton_into dest_ip (rq_dest_addr (data_req junk)),
        rq_value = htonl (u32_of_int val), rq_seqn = htonl (u32_of_int seqn)\<rparr>)"

definition sendRequestPacket ::
    "packet \<Rightarrow> bool \<Rightarrow> int \<Rightarrow> string \<Rightarrow> int \<Rightarrow> sockaddr \<Rightarrow> bool \<times> effect list" where
  "sendRequestPacket junk send_ok seqn dest_ip val server_addr =
     (case sendPacket send_ok (request_packet junk seqn dest_ip val) server_addr of (sent, effs) \<Rightarrow>
        if \<not> sent then (False, effs) else (True, effs))"

text \<open>\<open>receiveResponse\<close> compares the unsigned number of the packet with the \<open>int\<close>, as unsigned.\<close>

definition receiveResponse :: "packet \<Rightarrow> datagram option \<Rightarrow> int \<Rightarrow> packet \<times> bool" where
  "receiveResponse junk received seqn =
     (case received of
        None \<Rightarrow> (junk, False)
      | Some (bytes, sender) \<Rightarrow>
          (case recv_into junk bytes of (response, n) \<Rightarrow>
             (response, n > 0 \<and> packet_label response = Some TRANSACTION_ACK \<and>
                        ntohl (ak_seqn (data_ack response)) = u32_of_int seqn)))"

section \<open>Retries\<close>

definition MAX_RETRIES :: nat where "MAX_RETRIES = 5"

text \<open>
  What happens around one attempt: the announcements that the listener has handled before it, the
  contents of the two uninitialised packets, whether the packet could be sent and what arrives
  before the timeout.
\<close>

record attempt =
  at_heard :: "(packet \<times> sockaddr) list"
  at_request_junk :: packet
  at_response_junk :: packet
  at_send_ok :: bool
  at_reply :: "datagram option"

function exec_loop ::
    "nat \<Rightarrow> client \<Rightarrow> string \<Rightarrow> int \<Rightarrow> (nat \<Rightarrow> attempt) \<Rightarrow> client \<times> effect list \<times> ack_data option" where
  "exec_loop retries c dest_ip val env =
     (if retries < MAX_RETRIES then
        (let a = env retries;
             c1 = foldl heed_announcement c (at_heard a);
             (sent, effs) = sendRequestPacket (at_request_junk a) (at_send_ok a)
                              (sequence_number c1) dest_ip val (server_sock_addr c1);
             (response, ok) = receiveResponse (at_response_junk a) (at_reply a) (sequence_number c1)
         in if ok then (c1, effs, Some (data_ack response))
            else (case exec_loop (Suc retries) c1 dest_ip val env of
                    (c2, effs2, r) \<Rightarrow> (c2, effs @ effs2, r)))
      else (c, [], None))"
  by pat_completeness auto
termination by (relation "measure (\<lambda>(retries, _). MAX_RETRIES - retries)") auto

declare exec_loop.simps [simp del]

definition executeRequestWithRetries ::
    "client \<Rightarrow> string \<Rightarrow> int \<Rightarrow> (nat \<Rightarrow> attempt) \<Rightarrow> client \<times> effect list \<times> ack_data option" where
  "executeRequestWithRetries c dest_ip val env = exec_loop 0 c dest_ip val env"

definition incrementSequenceNumber :: "client \<Rightarrow> client" where
  "incrementSequenceNumber c = c\<lparr>sequence_number := wrap32 (sequence_number c + 1)\<rparr>"

section \<open>ClientInterface::processCommand\<close>

text \<open>What the client tells its user.\<close>

datatype client_log =
    LogServer string
  | LogFatal string
  | LogResponse string int string int float32
  | LogInvalidCommand
  | LogInsufficientFunds
  | LogDuplicate int u32
  | LogOutOfSequence int u32 u32
  | LogNoResponse int
  | LogSearching
  | LogRediscoveryFailed string

definition handle_ack ::
    "client \<Rightarrow> fd_table \<Rightarrow> string \<Rightarrow> int \<Rightarrow> ack_data \<Rightarrow> discovery_env \<Rightarrow>
     client \<times> fd_table \<times> effect list \<times> client_log list" where
  "handle_ack c fds dest_ip val ack e =
     (let last_req_from_server = ntohl (ak_last_req ack); n = sequence_number c in
      case status_of_code (ntohl (ak_status ack)) of
        Some SUCCESS \<Rightarrow>
          (incrementSequenceNumber c, fds, [],
           [LogResponse (server_address c) n dest_ip val (ak_new_balance ack)])
      | Some ERROR_INSUFFICIENT_FUNDS \<Rightarrow> (c, fds, [], [LogInsufficientFunds])
      | Some ERROR_CLIENT_NOT_FOUND \<Rightarrow> (c, fds, [], [])
      | Some ERROR_DUPLICATE_REQUEST \<Rightarrow>
          (incrementSequenceNumber c, fds, [], [LogDuplicate n last_req_from_server])
      | Some ERROR_OUT_OF_SEQUENCE \<Rightarrow>
          (c, fds, [], [LogOutOfSequence n last_req_from_server (last_req_from_server + 1)])
      | None \<Rightarrow>
          (case discoverServer c e fds of
             (Inr c1, effs, fds1) \<Rightarrow> (c1, fds1, effs, [LogNoResponse n, LogSearching])
           | (Inl err, effs, fds1) \<Rightarrow>
               (c, fds1, effs, [LogNoResponse n, LogSearching, LogRediscoveryFailed err])))"

definition processCommand ::
    "client \<Rightarrow> fd_table \<Rightarrow> string \<Rightarrow> (nat \<Rightarrow> attempt) \<Rightarrow> discovery_env \<Rightarrow>
     client \<times> fd_table \<times> effect list \<times> client_log list" where
  "processCommand c fds command env e =
     (case validateInput command of
        None \<Rightarrow> (c, fds, [], [LogInvalidCommand])
      | Some (dest_ip, val) \<Rightarrow>
          (case executeRequestWithRetries c dest_ip val env of
             (c1, effs, Some ack) \<Rightarrow>
               (case handle_ack c1 fds dest_ip val ack e of
                  (c2, fds2, effs2, logs) \<Rightarrow> (c2, fds2, effs @ effs2, logs))
           | (c1, effs, None) \<Rightarrow> (c1, fds, effs, [LogNoResponse (sequence_number c1)])))"

end
