(* ===== verification/ClientTheorems.thy ===== *)
theory ClientTheorems
  imports Client
begin

text \<open>
  The properties of the client: its retries, the requests it sends, the address it sends them to,
  what it does with the replies, and its descriptors.
\<close>

section \<open>Requests\<close>

lemma data_req_request_packet [simp]:
  "data_req (request_packet junk seqn dest v) =
     \<lparr>rq_dest_addr = inet_pton_into dest (rq_dest_addr (data_req junk)),
      rq_value = htonl (u32_of_int v), rq_seqn = htonl (u32_of_int seqn)\<rparr>"
  unfolding request_packet_def data_req_def by (rule m_req.read_written) simp

lemma packet_label_request [simp]: "packet_label (request_packet junk seqn dest v) = Some TRANSACTION_REQ"
  by (simp add: request_packet_def)

lemma length_request_packet [simp]:
  "length junk = PACKET_SIZE \<Longrightarrow> length (request_packet junk seqn dest v) = PACKET_SIZE"
  by (simp add: request_packet_def mk_packet_over_def c_req.enc_width DATA_SIZE_def PACKET_SIZE_def
      packet_data_def DATA_OFFSET_def)

text \<open>A destination that is not a dotted address is not refused: the request then asks for a
  transfer to whatever address the uninitialised memory of the packet holds, and that can be any
  address.\<close>

lemma unparsable_destination_uses_junk:
  assumes "inet_pton dest = None"
  shows "\<exists>junk. length junk = PACKET_SIZE \<and>
    data_req (request_packet junk seqn dest v) =
      \<lparr>rq_dest_addr = x, rq_value = htonl (u32_of_int v), rq_seqn = htonl (u32_of_int seqn)\<rparr>"
proof -
  let ?junk = "mk_packet TRANSACTION_REQ (enc_req \<lparr>rq_dest_addr = x, rq_value = 0, rq_seqn = 0\<rparr>)"
  have "length ?junk = PACKET_SIZE" by (simp add: c_req.enc_width)
  then show ?thesis
    using assms by (intro exI [of _ ?junk]) (simp add: inet_pton_into_def)
qed

section \<open>Retries\<close>

definition answered :: "int \<Rightarrow> attempt \<Rightarrow> bool" where
  "answered seqn a \<longleftrightarrow> snd (receiveResponse (at_response_junk a) (at_reply a) seqn)"

lemma listen_seqn [simp]: "sequence_number (heed_announcement c m) = sequence_number c"
  by (simp add: heed_announcement_def Let_def split: prod.split)

lemma listen_all_seqn [simp]: "sequence_number (foldl heed_announcement c ms) = sequence_number c"
  by (induction ms arbitrary: c) simp_all

lemma receiveResponse_seqn:
  "snd (receiveResponse junk received seqn) \<Longrightarrow>
     ntohl (ak_seqn (data_ack (fst (receiveResponse junk received seqn)))) = u32_of_int seqn"
  by (auto simp: receiveResponse_def split: option.splits prod.splits)

lemma exec_loop_answered:
  assumes "retries < MAX_RETRIES" "answered (sequence_number c) (env retries)"
  shows "exec_loop retries c dest v env =
    (let c1 = foldl heed_announcement c (at_heard (env retries)) in
     (c1, snd (sendRequestPacket (at_request_junk (env retries)) (at_send_ok (env retries))
         (sequence_number c) dest v (server_sock_addr c1)),
      Some (data_ack (fst (receiveResponse (at_response_junk (env retries)) (at_reply (env retries))
         (sequence_number c))))))"
  using assms by (subst exec_loop.simps) (simp add: answered_def case_prod_beta Let_def)

lemma exec_loop_unanswered:
  assumes "retries < MAX_RETRIES" "\<not> answered (sequence_number c) (env retries)"
  shows "exec_loop retries c dest v env =
    (let c1 = foldl heed_announcement c (at_heard (env retries));
         r = exec_loop (Suc retries) c1 dest v env in
     (fst r, snd (sendRequestPacket (at_request_junk (env retries)) (at_send_ok (env retries))
         (sequence_number c) dest v (server_sock_addr c1)) @ fst (snd r), snd (snd r)))"
  using assms by (subst exec_loop.simps) (simp add: answered_def case_prod_beta Let_def)

lemma exec_loop_end: "exec_loop MAX_RETRIES c dest v env = (c, [], None)"
  by (subst exec_loop.simps) simp

definition is_request_for :: "int \<Rightarrow> string \<Rightarrow> int \<Rightarrow> effect \<Rightarrow> bool" where
  "is_request_for seqn dest v e \<longleftrightarrow>
     (\<exists>junk addr. e = Send (request_packet junk seqn dest v) addr)"

lemma sendRequestPacket_requests:
  "e \<in> set (snd (sendRequestPacket junk ok seqn dest v addr)) \<Longrightarrow> is_request_for seqn dest v e"
  "length (snd (sendRequestPacket junk ok seqn dest v addr)) = (if ok then 1 else 0)"
  by (auto simp: sendRequestPacket_def sendPacket_def is_request_for_def split: if_splits)

text \<open>The attempts made, from \<open>retries\<close> on: up to the first that is answered.\<close>

definition attempts_from :: "nat \<Rightarrow> int \<Rightarrow> (nat \<Rightarrow> attempt) \<Rightarrow> nat list" where
  "attempts_from retries seqn env =
     (let l = [retries..<MAX_RETRIES]; k = takeWhile (\<lambda>i. \<not> answered seqn (env i)) l in
      take (Suc (length k)) l)"

lemma attempts_from_step:
  assumes "retries < MAX_RETRIES"
  shows "attempts_from retries seqn env =
    (if answered seqn (env retries) then [retries]
     else retries # attempts_from (Suc retries) seqn env)"
  using assms by (simp add: attempts_from_def Let_def upt_conv_Cons)

text \<open>What a loop from attempt \<open>retries\<close> on promises.\<close>

definition exec_promise ::
    "nat \<Rightarrow> int \<Rightarrow> string \<Rightarrow> int \<Rightarrow> (nat \<Rightarrow> attempt) \<Rightarrow> client \<times> effect list \<times> ack_data option \<Rightarrow> bool" where
  "exec_promise retries n dest v env = (\<lambda>(c', effs, r).
     sequence_number c' = n \<and>
     (\<forall>e\<in>set effs. is_request_for n dest v e) \<and>
     length effs = length (filter (\<lambda>i. at_send_ok (env i)) (attempts_from retries n env)) \<and>
     (r = None \<longleftrightarrow> (\<forall>i\<in>{retries..<MAX_RETRIES}. \<not> answered n (env i))) \<and>
     (\<forall>ack. r = Some ack \<longrightarrow> ntohl (ak_seqn ack) = u32_of_int n))"

lemma exec_promise_step:
  assumes "retries < MAX_RETRIES" "\<not> answered n (env retries)"
    and "exec_promise (Suc retries) n dest v env (c', effs, r)"
  shows "exec_promise retries n dest v env
    (c', snd (sendRequestPacket junk (at_send_ok (env retries)) n dest v addr) @ effs, r)"
proof -
  have "{retries..<MAX_RETRIES} = insert retries {Suc retries..<MAX_RETRIES}" using assms(1) by auto
  then show ?thesis
    using assms sendRequestPacket_requests
    by (auto simp: exec_promise_def attempts_from_step)
qed

lemma exec_loop_promise:
  assumes "retries \<le> MAX_RETRIES"
  shows "exec_promise retries (sequence_number c) dest v env (exec_loop retries c dest v env)"
  using assms
proof (induction "MAX_RETRIES - retries" arbitrary: retries c)
  case 0
  then have "retries = MAX_RETRIES" by simp
  then show ?case by (simp add: exec_loop_end exec_promise_def attempts_from_def)
next
  case (Suc k)
  then have lt: "retries < MAX_RETRIES" by simp
  let ?c1 = "foldl heed_announcement c (at_heard (env retries))"
  show ?case
  proof (cases "answered (sequence_number c) (env retries)")
    case True
    have "ntohl (ak_seqn (data_ack (fst (receiveResponse (at_response_junk (env retries))
        (at_reply (env retries)) (sequence_number c))))) = u32_of_int (sequence_number c)"
      using True unfolding answered_def by (rule receiveResponse_seqn)
    then show ?thesis
      using True lt sendRequestPacket_requests
      by (auto simp: exec_loop_answered [where env = env, OF lt True] exec_promise_def Let_def
          attempts_from_step)
  next
    case False
    have "exec_promise (Suc retries) (sequence_number ?c1) dest v env (exec_loop (Suc retries) ?c1 dest v env)"
      using Suc.hyps lt by (intro Suc.hyps(1)) simp_all
    then show ?thesis
      using exec_promise_step [where env = env, OF lt False, of dest v
          "fst (exec_loop (Suc retries) ?c1 dest v env)"
          "fst (snd (exec_loop (Suc retries) ?c1 dest v env))"
          "snd (snd (exec_loop (Suc retries) ?c1 dest v env))"]
      by (simp add: exec_loop_unanswered [where env = env, OF lt False] Let_def)
  qed
qed

text \<open>C24. A command makes at most five attempts, up to the first that is answered, and sends one
  packet for each attempt whose \<open>sendto\<close> works. All of them are requests under the same number for
  the same value, and when the destination that was typed is an address they all name it, so that
  they ask for the same transfer; the client gives up exactly when none of the five is answered in
  time, and the reply it accepts carries the number of the request.\<close>

theorem retry_outcome:
  assumes "executeRequestWithRetries c dest v env = (c', effs, r)"
  shows "sequence_number c' = sequence_number c \<and>
    (\<forall>e\<in>set effs. \<exists>p addr. e = Send p addr \<and> packet_label p = Some TRANSACTION_REQ \<and>
       rq_seqn (data_req p) = htonl (u32_of_int (sequence_number c)) \<and>
       rq_value (data_req p) = htonl (u32_of_int v) \<and>
       (\<forall>x. inet_pton dest = Some x \<longrightarrow> rq_dest_addr (data_req p) = x)) \<and>
    length effs = length (filter (\<lambda>i. at_send_ok (env i)) (attempts_from 0 (sequence_number c) env)) \<and>
    length effs \<le> 5 \<and>
    (r = None \<longleftrightarrow> (\<forall>i<5. \<not> answered (sequence_number c) (env i))) \<and>
    (\<forall>ack. r = Some ack \<longrightarrow> ntohl (ak_seqn ack) = u32_of_int (sequence_number c))"
proof -
  have p: "exec_promise 0 (sequence_number c) dest v env (c', effs, r)"
    using exec_loop_promise [of 0 c dest v env] assms by (simp add: executeRequestWithRetries_def)
  have "\<exists>p addr. e = Send p addr \<and> packet_label p = Some TRANSACTION_REQ \<and>
       rq_seqn (data_req p) = htonl (u32_of_int (sequence_number c)) \<and>
       rq_value (data_req p) = htonl (u32_of_int v) \<and>
       (\<forall>x. inet_pton dest = Some x \<longrightarrow> rq_dest_addr (data_req p) = x)" if "e \<in> set effs" for e
    using p that by (auto simp: exec_promise_def is_request_for_def inet_pton_into_def)
  moreover have "length (filter (\<lambda>i. at_send_ok (env i)) (attempts_from 0 (sequence_number c) env)) \<le> 5"
    by (rule le_trans [OF length_filter_le]) (simp add: attempts_from_def MAX_RETRIES_def Let_def)
  ultimately show ?thesis
    using p by (simp add: exec_promise_def MAX_RETRIES_def atLeast0LessThan lessThan_def Ball_def)
qed

definition silent :: attempt where
  "silent = \<lparr>at_heard = [], at_request_junk = replicate PACKET_SIZE 0,
     at_response_junk = replicate PACKET_SIZE 0, at_send_ok = True, at_reply = None\<rparr>"

theorem retry_outcome_witness:
  "\<exists>c' effs. executeRequestWithRetries (client_new 4000) ''10.0.0.2'' 100 (\<lambda>_. silent) = (c', effs, None) \<and>
     length effs = 5"
proof -
  obtain c' effs r where e:
    "executeRequestWithRetries (client_new 4000) ''10.0.0.2'' 100 (\<lambda>_. silent) = (c', effs, r)"
    by (cases "executeRequestWithRetries (client_new 4000) ''10.0.0.2'' 100 (\<lambda>_. silent)")
  have "\<not> answered n silent" for n by (simp add: answered_def silent_def receiveResponse_def)
  then show ?thesis
    using retry_outcome [OF e] e
    by (simp add: attempts_from_def MAX_RETRIES_def takeWhile_eq_all_conv [THEN iffD2] Let_def silent_def)
qed

section \<open>Replies\<close>

text \<open>What a reply of the server does to the client: the number advances after a success and after
  a duplicate, and stays after any other status; the user is told accordingly, or not at all when
  a client is unknown; and no reply of the server makes the client look for another server.\<close>

lemma handle_ack_reply:
  assumes "canonical (rp_balance r)"
  shows "handle_ack c fds dest v (data_ack (ack_packet q r)) e =
    (if rp_status r \<in> {SUCCESS, ERROR_DUPLICATE_REQUEST} then incrementSequenceNumber c else c,
     fds, [],
     (case rp_status r of
        SUCCESS \<Rightarrow> [LogResponse (server_address c) (sequence_number c) dest v (rp_balance r)]
      | ERROR_CLIENT_NOT_FOUND \<Rightarrow> []
      | ERROR_DUPLICATE_REQUEST \<Rightarrow> [LogDuplicate (sequence_number c) (u32_of_int (rp_last_req r))]
      | ERROR_INSUFFICIENT_FUNDS \<Rightarrow> [LogInsufficientFunds]
      | ERROR_OUT_OF_SEQUENCE \<Rightarrow>
          [LogOutOfSequence (sequence_number c) (u32_of_int (rp_last_req r))
             (u32_of_int (rp_last_req r) + 1)]))"
proof -
  have "status_of_code (ntohl (ak_status (data_ack (ack_packet q r)))) = Some (rp_status r)"
    "ak_new_balance (data_ack (ack_packet q r)) = rp_balance r"
    "ntohl (ak_last_req (data_ack (ack_packet q r))) = u32_of_int (rp_last_req r)"
    using assms by (simp_all add: ack_packet_def valid_ack_def)
  then show ?thesis by (cases "rp_status r") (simp_all add: handle_ack_def Let_def)
qed

section \<open>The address of the server\<close>

definition knows_server :: "client \<Rightarrow> bool" where
  "knows_server c \<longleftrightarrow>
     inet_pton (server_address c) = Some (sin_addr (server_sock_addr c)) \<and>
     sin_family (server_sock_addr c) = AF_INET \<and>
     sin_port (server_sock_addr c) = htons (word_of_int (cli_port c))"

definition announces :: "packet \<times> sockaddr \<Rightarrow> bool" where
  "announces m \<longleftrightarrow> packet_label (fst m) = Some NEW_PRIMARY_ANNOUNCEMENT"

lemma listen_knows:
  assumes "knows_server c"
  shows "knows_server (heed_announcement c m)"
    "sin_addr (server_sock_addr (heed_announcement c m)) =
       (if announces m then sin_addr (snd m) else sin_addr (server_sock_addr c))"
proof -
  have "inet_ntop (sin_addr (snd m)) = server_address c \<Longrightarrow> sin_addr (snd m) = sin_addr (server_sock_addr c)"
    using assms inet_pton_ntop [of "sin_addr (snd m)"] by (simp add: knows_server_def)
  then show "knows_server (heed_announcement c m)"
    "sin_addr (server_sock_addr (heed_announcement c m)) =
       (if announces m then sin_addr (snd m) else sin_addr (server_sock_addr c))"
    using assms
    by (auto simp: heed_announcement_def knows_server_def announces_def inet_pton_into_def Let_def
        split: prod.split)
qed

lemma discoverServer_knows:
  assumes "discoverServer c0 e fds = (Inr c, effs, fds')"
  shows "knows_server c" "\<exists>a. de_received e = Some a \<and> sin_addr (server_sock_addr c) = sin_addr (snd a)"
    "cli_port c = cli_port c0"
proof -
  obtain ip sends closes fds1 where r:
    "run_discovery_service_client (cli_port c0) e fds = (Inr ip, sends, closes, fds1)"
    and c: "cli_port c = cli_port c0" "server_address c = ip"
      "server_sock_addr c = \<lparr>sin_family = AF_INET, sin_port = htons (word_of_int (cli_port c0)),
         sin_addr = inet_pton_into ip (sin_addr (server_sock_addr c0))\<rparr>"
    using assms by (auto simp: discoverServer_def Let_def split: prod.splits sum.splits)
  from r obtain a where "de_received e = Some a" "ip = inet_ntop (sin_addr (snd a))"
    by (auto simp: run_discovery_service_client_def Let_def split: prod.splits if_splits option.splits)
  with c show "knows_server c"
    "\<exists>a. de_received e = Some a \<and> sin_addr (server_sock_addr c) = sin_addr (snd a)"
    "cli_port c = cli_port c0"
    by (simp_all add: knows_server_def inet_pton_into_def)
qed

text \<open>The senders of the announcements among some datagrams.\<close>

definition announcers :: "datagram option list \<Rightarrow> u32 list" where
  "announcers ds =
     List.map_filter (\<lambda>d. case d of
        Some (bytes, sender) \<Rightarrow>
          if packet_label bytes = Some NEW_PRIMARY_ANNOUNCEMENT then Some (sin_addr sender) else None
      | None \<Rightarrow> None) ds"

lemma announcers_simps [simp]:
  "announcers [] = []" "announcers (None # ds) = announcers ds"
  "announcers (Some (bytes, sender) # ds) =
     (if packet_label bytes = Some NEW_PRIMARY_ANNOUNCEMENT then [sin_addr sender] else []) @ announcers ds"
  by (simp_all add: announcers_def List.map_filter_def)

definition whole_packets :: "datagram option list \<Rightarrow> bool" where
  "whole_packets ds \<longleftrightarrow> (\<forall>bytes sender. Some (bytes, sender) \<in> set ds \<longrightarrow> length bytes = PACKET_SIZE)"

lemma packet_size_pos [simp]: "0 < PACKET_SIZE"
  by (simp add: PACKET_SIZE_def)

lemma heed_port [simp]: "cli_port (heed_announcement c m) = cli_port c"
  by (simp add: heed_announcement_def Let_def split: prod.split)

lemma listener_loop_knows:
  assumes "knows_server c" "length buf = PACKET_SIZE" "whole_packets ds"
  shows "knows_server (listener_loop buf c ds) \<and> cli_port (listener_loop buf c ds) = cli_port c \<and>
    sin_addr (server_sock_addr (listener_loop buf c ds)) =
      last (sin_addr (server_sock_addr c) # announcers ds)"
  using assms
proof (induction buf c ds rule: listener_loop.induct)
  case (3 buf c bytes sender ds)
  then have len: "length bytes = PACKET_SIZE" "whole_packets ds" by (auto simp: whole_packets_def)
  then have r: "recv_into buf bytes = (bytes, PACKET_SIZE)" using 3(3) by (intro recv_into_full)
  let ?c = "heed_announcement c (bytes, sender)"
  note k = listen_knows [OF 3(2), of "(bytes, sender)"]
  have "knows_server (listener_loop bytes ?c ds) \<and> cli_port (listener_loop bytes ?c ds) = cli_port ?c \<and>
      sin_addr (server_sock_addr (listener_loop bytes ?c ds)) =
        last (sin_addr (server_sock_addr ?c) # announcers ds)"
    using 3(1) [OF r [symmetric]] k(1) len by simp
  then show ?case using k(2) by (auto simp: r announces_def)
qed (auto simp: whole_packets_def)

lemma listener_socket_cases:
  "fst (listener_socket port e fds) = None \<longleftrightarrow>
     \<not> (le_create e \<and> le_reuse e \<and> le_bind e (listener_addr port))"
  by (auto simp: listener_socket_def sys_socket_def)

text \<open>C33. Requests go to the server that answered the discovery, at the client's port, until a primary
  is announced, and from then on to the sender of the last announcement, whatever other packets of
  full size reach the listener; but when the listener's socket could not be created, configured or
  bound, no announcement is ever heeded, and the client stays with that server until it searches
  again.\<close>

theorem address_follows_primary:
  assumes "discoverServer c0 e fds = (Inr c, effs, fds')"
    and "length (le_junk l) = PACKET_SIZE" "whole_packets ds"
  shows "\<exists>bytes sender. de_received e = Some (bytes, sender) \<and>
    server_sock_addr (fst (listenForAnnouncements c l fds2 ds)) =
      \<lparr>sin_family = AF_INET, sin_port = htons (word_of_int (cli_port c0)),
       sin_addr = (if le_create l \<and> le_reuse l \<and> le_bind l (listener_addr (cli_port c0))
                   then last (sin_addr sender # announcers ds) else sin_addr sender)\<rparr>"
proof -
  note k = discoverServer_knows [OF assms(1)]
  obtain bytes sender where r: "de_received e = Some (bytes, sender)"
    "sin_addr (server_sock_addr c) = sin_addr sender" using k(2) by auto
  have "fst (listenForAnnouncements c l fds2 ds) =
      (if le_create l \<and> le_reuse l \<and> le_bind l (listener_addr (cli_port c0))
       then listener_loop (le_junk l) c ds else c)"
    using listener_socket_cases [of "cli_port c" l fds2] k(3)
    by (auto simp: listenForAnnouncements_def split: prod.splits option.splits)
  then show ?thesis
    using listener_loop_knows [OF k(1) assms(2,3)] k r
    by (intro exI [of _ bytes] exI [of _ sender])
      (auto simp: knows_server_def intro: sockaddr.equality)
qed

definition found :: discovery_env where
  "found = \<lparr>de_create = True, de_option = True, de_send = True, de_junk = replicate PACKET_SIZE 0,
     de_received = Some (bare_packet DISCOVERY_ACK, \<lparr>sin_family = AF_INET, sin_port = 0, sin_addr = 9\<rparr>),
     de_socket = True\<rparr>"

lemma recv_bare: "recv_into (replicate PACKET_SIZE 0) (bare_packet t) = (bare_packet t, PACKET_SIZE)"
  by (intro recv_into_full) (simp_all add: bare_packet_def)

lemma found_server:
  "\<exists>c effs fds'. discoverServer (client_new 4000) found [] = (Inr c, effs, fds')"
  by (simp add: discoverServer_def run_discovery_service_client_def found_def recv_bare
      ClientUDP_setupBroadcast_def ClientUDP_createSocket_def sys_socket_def Let_def)

theorem address_follows_primary_witness:
  "\<exists>c effs fds'. discoverServer (client_new 4000) found [] = (Inr c, effs, fds') \<and>
     sin_addr (server_sock_addr (fst (listenForAnnouncements c
       \<lparr>le_create = True, le_reuse = True, le_bind = (\<lambda>_. True), le_junk = replicate PACKET_SIZE 0\<rparr> []
       [None, Some (id_packet NEW_PRIMARY_ANNOUNCEMENT 5, \<lparr>sin_family = AF_INET, sin_port = 0, sin_addr = 3\<rparr>),
        Some (bare_packet HEARTBEAT, zero_sockaddr)]))) = 3"
proof -
  obtain c effs fds' where c: "discoverServer (client_new 4000) found [] = (Inr c, effs, fds')"
    using found_server by blast
  have "length (id_packet t i) = PACKET_SIZE" "length (bare_packet t) = PACKET_SIZE" for t i
    by (simp_all add: id_packet_def bare_packet_def c_req.enc_width)
  then have w: "whole_packets [None, Some (id_packet NEW_PRIMARY_ANNOUNCEMENT 5,
      \<lparr>sin_family = AF_INET, sin_port = 0, sin_addr = 3\<rparr>), Some (bare_packet HEARTBEAT, zero_sockaddr)]"
    by (auto simp: whole_packets_def)
  show ?thesis
    using c address_follows_primary [OF c _ w, of "\<lparr>le_create = True, le_reuse = True,
        le_bind = (\<lambda>_. True), le_junk = replicate PACKET_SIZE 0\<rparr>" "[]"] by auto
qed

section \<open>Descriptors\<close>

text \<open>A successful discovery closes its descriptor twice, once by hand and once in the destructor.
  Another thread that opens a socket in between gets the same descriptor, and the second \<open>close\<close>
  closes that thread's socket.\<close>

lemma discovery_closes_twice:
  assumes "run_discovery_service_client p e fds = (Inr ip, effs, closes, t)"
  shows "\<exists>fd. closes = [fd, fd] \<and> fd_open fd t \<and>
    (case sys_socket True (sys_close fd t) of
       (other, t2) \<Rightarrow> other = fd \<and> fd_open other t2 \<and> \<not> fd_open other (sys_close fd t2))"
proof -
  obtain fd t0 where s: "sys_socket True fds = (fd, t0)" by (cases "sys_socket True fds")
  note o = sys_socket_open [OF s]
  have "de_create e" using assms
    by (auto simp: run_discovery_service_client_def ClientUDP_setupBroadcast_def
        ClientUDP_createSocket_def sys_socket_def Let_def split: if_splits)
  then have "closes = [fd, fd] \<and> t = t0"
    using assms s o(4)
    by (auto simp: run_discovery_service_client_def ClientUDP_setupBroadcast_def
        ClientUDP_createSocket_def closeSocket_calls_def Let_def split: if_splits option.splits prod.splits)
  then show ?thesis using s o by simp
qed

section \<open>The timeout\<close>

text \<open>The client waits five milliseconds for a reply: the constant is passed as microseconds.\<close>

lemma receive_timeout_five_ms: "receive_timeout_us = 5 * 1000"
  by (simp add: receive_timeout_us_def timeval_us_def TIMEOUT_MS_def)

end
