(* ===== verification/ClientText.thy ===== *)
theory ClientText
  imports ClientTheorems TimeStamp
begin

text \<open>
  What the client writes on its terminal: the log functions of client/clientInterface.cpp and the
  text of each message of \<open>processCommand\<close>, with \<open>logResponse\<close> of transactions/transactionClient.cpp
  and \<open>logTimeout\<close>, which nothing calls. The accented letters are the two bytes of their UTF-8
  form, as in the source files; the time of day is an argument.
\<close>

section \<open>Lines\<close>

datatype terminal_line = Out string | Err string

definition logError :: "string \<Rightarrow> terminal_line" where
  "logError message = Err (''Erro: '' @ message)"

definition client_logInitialMessage :: "tm \<Rightarrow> string \<Rightarrow> terminal_line" where
  "client_logInitialMessage now address = Out (getCurrentFormattedTime now @ '' server addr '' @ address)"

definition client_logResponse ::
    "tm \<Rightarrow> string \<Rightarrow> int \<Rightarrow> string \<Rightarrow> int \<Rightarrow> float32 \<Rightarrow> terminal_line" where
  "client_logResponse now server seqn dest_ip val new_balance =
     Out (getCurrentFormattedTime now @ '' server '' @ server @ '' id_req '' @ show_int seqn @
          '' dest '' @ dest_ip @ '' value '' @ show_int val @ '' new_balance '' @ show_float new_balance)"

definition logResponse :: "tm \<Rightarrow> packet \<Rightarrow> int \<Rightarrow> string \<Rightarrow> string \<Rightarrow> int \<Rightarrow> terminal_line" where
  "logResponse now response seqn server_ip dest_ip val =
     Out (getCurrentFormattedTime now @ '' server '' @ server_ip @ '' id_req '' @ show_int seqn @
          '' dest '' @ dest_ip @ '' value '' @ show_int val @
          '' new_balance '' @ show_float (ak_new_balance (data_ack response)))"

definition cao :: string where  \<comment> \<open>the bytes of the letters c with cedilla and a with tilde\<close>
  "cao = [CHR 0xC3, CHR 0xA7, CHR 0xC3, CHR 0xA3]"

definition logTimeout :: "int \<Rightarrow> int \<Rightarrow> int \<Rightarrow> terminal_line" where
  "logTimeout seqn retry max_retries =
     Out (''Timeout! Reenviando requisi'' @ cao @ ''o #'' @ show_int seqn @ '' ('' @ show_int retry @ ''/'' @
          show_int max_retries @ '')'')"

definition show_u32 :: "u32 \<Rightarrow> string" where
  "show_u32 n = show_nat (unat n)"

section \<open>The messages of processCommand\<close>

definition no_response_text :: "int \<Rightarrow> string" where
  "no_response_text seqn =
     ''N'' @ [CHR 0xC3, CHR 0xA3] @ ''o foi poss'' @ [CHR 0xC3, CHR 0xAD] @
     ''vel obter resposta do servidor para a requisi'' @ cao @ ''o #'' @ show_int seqn"

fun log_text :: "tm \<Rightarrow> client_log \<Rightarrow> terminal_line list" where
  "log_text now (LogServer address) = [client_logInitialMessage now address]"
| "log_text now (LogFatal message) = [logError message]"
| "log_text now (LogResponse server seqn dest_ip val new_balance) =
     [client_logResponse now server seqn dest_ip val new_balance]"
| "log_text now LogInvalidCommand =
     [Err (''Formato de comando inv'' @ [CHR 0xC3, CHR 0xA1] @ ''lido. Use: IP_DESTINO VALOR'')]"
| "log_text now LogInsufficientFunds =
     [logError (''Saldo insuficiente para realizar a transa'' @ cao @ ''o.'')]"
| "log_text now (LogDuplicate seqn last_req) =
     [logError (''Requisi'' @ cao @ ''o duplicada (ID '' @ show_int seqn @ ''). O servidor j'' @
        [CHR 0xC3, CHR 0xA1] @ '' processou esta requisi'' @ cao @ ''o.''),
      logError (''O '' @ [CHR 0xC3, CHR 0xBA] @ ''ltimo ID de requisi'' @ cao @
        ''o processado pelo servidor foi: '' @ show_u32 last_req @ ''. Avan'' @ [CHR 0xC3, CHR 0xA7] @
        ''ando para a pr'' @ [CHR 0xC3, CHR 0xB3] @ ''xima.'')]"
| "log_text now (LogOutOfSequence seqn last_req expected) =
     [logError (''Requisi'' @ cao @ ''o fora de ordem (ID '' @ show_int seqn @ '').''),
      logError (''O '' @ [CHR 0xC3, CHR 0xBA] @ ''ltimo ID processado pelo servidor foi: '' @ show_u32 last_req @
        ''. A pr'' @ [CHR 0xC3, CHR 0xB3] @ ''xima requisi'' @ cao @ ''o esperada '' @ [CHR 0xC3, CHR 0xA9] @
        '' a de ID: '' @ show_u32 expected @ ''.'')]"
| "log_text now (LogNoResponse seqn) = [logError (no_response_text seqn)]"
| "log_text now LogSearching = [Out ''Tentando localizar novo servidor...'']"
| "log_text now (LogRediscoveryFailed message) = [Err (''Falha na redescoberta: '' @ message)]"

definition terminal :: "tm \<Rightarrow> client_log list \<Rightarrow> terminal_line list" where
  "terminal now logs = concat (map (log_text now) logs)"

section \<open>Properties\<close>

lemma response_fields:
  assumes "valid_tm now" "no_space server" "no_space dest"
  obtains day clock line where "client_logResponse now server seqn dest v (whole n) = Out line"
    "read_time day clock = Some now"
    "line_fields line =
      [day, clock, ''server'', server, ''id_req'', show_int seqn, ''dest'', dest, ''value'', show_int v,
       ''new_balance'', show_float (whole n)]"
proof -
  obtain day clock where t: "getCurrentFormattedTime now = day @ '' '' @ clock" "no_space day" "no_space clock"
    "read_time day clock = Some now" using assms(1) by (rule time_stamp_read)
  have "line_fields (getCurrentFormattedTime now @ '' server '' @ server @ '' id_req '' @ show_int seqn @
      '' dest '' @ dest @ '' value '' @ show_int v @ '' new_balance '' @ show_float (whole n)) =
      [day, clock, ''server'', server, ''id_req'', show_int seqn, ''dest'', dest, ''value'', show_int v,
       ''new_balance'', show_float (whole n)]"
    using t(2,3) assms(2,3) by (simp add: t(1) line_fields_last)
  with t(4) show ?thesis by (intro that [OF client_logResponse_def])
qed

lemma terminal_success:
  assumes "rp_status r = SUCCESS" "rp_balance r = whole n" "\<bar>n\<bar> \<le> 2 ^ 24"
    and "handle_ack c fds dest v (data_ack (ack_packet q r)) e = (c', fds', msgs, logs)"
  shows "terminal now logs =
    [client_logResponse now (server_address c) (sequence_number c) dest v (whole n)]"
proof -
  have "canonical (rp_balance r)" using assms(2,3) by simp
  then show ?thesis using handle_ack_reply [of r c fds dest v q e] assms(1,2,4) by (auto simp: terminal_def)
qed

text \<open>C19. What the user reads after an accepted request. The reply of the server, in wire format,
  puts one line on the terminal, which cut at its spaces is the day and the time, from which the
  time of day can be read back, the server, the number of the request, its destination, its value
  and the new balance. A balance below a million is printed as it is. From a million to 9999994
  the text is that of the nearest multiple of ten, the even one of two, as a stream prints six
  digits of a \<open>float\<close>: the user does not read the last digit.\<close>

theorem user_reads_balance:
  assumes "rp_status r = SUCCESS" "rp_balance r = whole n" "\<bar>n\<bar> \<le> 2 ^ 24" "valid_tm now"
    and "no_space (server_address c)" "no_space dest"
    and "handle_ack c fds dest v (data_ack (ack_packet q r)) e = (c', fds', msgs, logs)"
  shows "\<exists>day clock line shown_balance. terminal now logs = [Out line] \<and> read_time day clock = Some now \<and>
    line_fields line =
      [day, clock, ''server'', server_address c, ''id_req'', show_int (sequence_number c), ''dest'', dest,
       ''value'', show_int v, ''new_balance'', shown_balance] \<and>
    (\<bar>n\<bar> < 10 ^ 6 \<longrightarrow> shown_balance = show_int n) \<and>
    (10 ^ 6 \<le> n \<and> n < 9999995 \<longrightarrow> shown_balance = show_float (whole (int (10 * div_even (nat n) 10))))"
proof -
  obtain day clock line where l: "client_logResponse now (server_address c) (sequence_number c) dest v (whole n) = Out line"
    "read_time day clock = Some now"
    "line_fields line =
      [day, clock, ''server'', server_address c, ''id_req'', show_int (sequence_number c), ''dest'', dest,
       ''value'', show_int v, ''new_balance'', show_float (whole n)]"
    using assms(4-6) by (rule response_fields)
  have "show_float (whole n) = show_float (whole (int (10 * div_even (nat n) 10)))"
    if "10 ^ 6 \<le> n" "n < 9999995"
    using show_float_million [of "nat n"] that by (simp add: nat_le_eq_zle nat_less_iff)
  moreover have "terminal now logs = [Out line]" using terminal_success [OF assms(1-3,7), of now] l(1) by simp
  moreover have "\<bar>n\<bar> < 10 ^ 6 \<Longrightarrow> show_float (whole n) = show_int n" by (rule show_float_whole)
  ultimately show ?thesis
    using l(2,3) by (intro exI [of _ day] exI [of _ clock] exI [of _ line] exI [of _ "show_float (whole n)"]) simp
qed

definition noon :: tm where
  "noon = \<lparr>tm_sec = 0, tm_min = 0, tm_hour = 12, tm_mday = 1, tm_mon = 0, tm_year = 125\<rparr>"

definition at_bank :: client where
  "at_bank = (client_new 4000)\<lparr>server_address := ''10.0.0.1''\<rparr>"

theorem user_reads_balance_witness:
  "\<forall>e. \<exists>day clock line day2 clock2 line2 c1 c2 logs1 logs2.
     handle_ack at_bank [] ''10.0.0.2'' 100
       (data_ack (ack_packet 1 \<lparr>rp_status = SUCCESS, rp_balance = whole 900, rp_last_req = 1\<rparr>)) e =
       (c1, [], [], logs1) \<and>
     terminal noon logs1 = [Out line] \<and> read_time day clock = Some noon \<and>
     line_fields line = [day, clock, ''server'', ''10.0.0.1'', ''id_req'', show_int 1, ''dest'', ''10.0.0.2'',
       ''value'', show_int 100, ''new_balance'', show_int 900] \<and>
     handle_ack at_bank [] ''10.0.0.2'' 100
       (data_ack (ack_packet 1 \<lparr>rp_status = SUCCESS, rp_balance = whole 1234567, rp_last_req = 1\<rparr>)) e =
       (c2, [], [], logs2) \<and>
     terminal noon logs2 = [Out line2] \<and>
     line_fields line2 = [day2, clock2, ''server'', ''10.0.0.1'', ''id_req'', show_int 1, ''dest'', ''10.0.0.2'',
       ''value'', show_int 100, ''new_balance'', show_float (whole 1234570)]"
proof
  fix e
  let ?r = "\<lambda>n. \<lparr>rp_status = SUCCESS, rp_balance = whole n, rp_last_req = 1\<rparr>"
  let ?l = "\<lambda>day clock b. [day, clock, ''server'', ''10.0.0.1'', ''id_req'', show_int 1, ''dest'', ''10.0.0.2'',
       ''value'', show_int 100, ''new_balance'', b]"
  have f: "server_address at_bank = ''10.0.0.1''" "sequence_number at_bank = 1"
    by (simp_all add: at_bank_def client_new_def)
  have h: "handle_ack at_bank [] ''10.0.0.2'' 100 (data_ack (ack_packet 1 (?r n))) e =
      (incrementSequenceNumber at_bank, [], [], [LogResponse ''10.0.0.1'' 1 ''10.0.0.2'' 100 (whole n)])"
    if "\<bar>n\<bar> \<le> 2 ^ 24" for n
    using handle_ack_reply [of "?r n" at_bank "[]" "''10.0.0.2''" 100 1 e] that by (simp add: f)
  have t: "div_even 1234567 10 = 123457" by (simp add: div_even_def)
  have v: "valid_tm noon" by (simp add: valid_tm_def noon_def in_i32_def)
  obtain day clock line where a: "terminal noon [LogResponse ''10.0.0.1'' 1 ''10.0.0.2'' 100 (whole 900)] = [Out line]"
    "read_time day clock = Some noon" "line_fields line = ?l day clock (show_int 900)"
    using user_reads_balance [OF _ _ _ v _ _ h [of 900]] by (auto simp: f)
  obtain day2 clock2 line2 where b: "terminal noon [LogResponse ''10.0.0.1'' 1 ''10.0.0.2'' 100 (whole 1234567)] = [Out line2]"
    "line_fields line2 = ?l day2 clock2 (show_float (whole 1234570))"
    using user_reads_balance [OF _ _ _ v _ _ h [of 1234567]] by (auto simp: f t)
  have "handle_ack at_bank [] ''10.0.0.2'' 100 (data_ack (ack_packet 1 (?r 900))) e =
      (incrementSequenceNumber at_bank, [], [], [LogResponse ''10.0.0.1'' 1 ''10.0.0.2'' 100 (whole 900)])"
    "handle_ack at_bank [] ''10.0.0.2'' 100 (data_ack (ack_packet 1 (?r 1234567))) e =
      (incrementSequenceNumber at_bank, [], [], [LogResponse ''10.0.0.1'' 1 ''10.0.0.2'' 100 (whole 1234567)])"
    by (rule h, simp)+
  with a b show "\<exists>day clock line day2 clock2 line2 c1 c2 logs1 logs2.
     handle_ack at_bank [] ''10.0.0.2'' 100 (data_ack (ack_packet 1 (?r 900))) e = (c1, [], [], logs1) \<and>
     terminal noon logs1 = [Out line] \<and> read_time day clock = Some noon \<and>
     line_fields line = ?l day clock (show_int 900) \<and>
     handle_ack at_bank [] ''10.0.0.2'' 100 (data_ack (ack_packet 1 (?r 1234567))) e = (c2, [], [], logs2) \<and>
     terminal noon logs2 = [Out line2] \<and> line_fields line2 = ?l day2 clock2 (show_float (whole 1234570))"
    by (intro exI conjI)
qed

end
