(* ===== verification/ClientInterface.thy ===== *)
theory ClientInterface
  imports Client
begin

text \<open>
  client/clientInterface.cpp: the thread that reads commands, the thread that executes them and
  the queue between them. The locale \<open>fifo\<close> is the contract of the queue; it is interpreted on
  the fields of \<open>ClientInterface\<close>.
\<close>

section \<open>Queues\<close>

locale fifo =
  fixes items :: "'q \<Rightarrow> 'a list"
    and push :: "'a \<Rightarrow> 'q \<Rightarrow> 'q"
    and pop :: "'q \<Rightarrow> ('a \<times> 'q) option"
  assumes items_push: "items (push x q) = items q @ [x]"
    and pop_Some: "pop q = Some (x, q') \<Longrightarrow> items q = x # items q'"
    and pop_None: "pop q = None \<longleftrightarrow> items q = []"
begin

text \<open>What has come out, what is inside and what is still to be put in stay in order.\<close>

definition in_order :: "'a list \<Rightarrow> 'q \<Rightarrow> 'a list \<Rightarrow> 'a list \<Rightarrow> bool" where
  "in_order out q todo orig \<longleftrightarrow> out @ items q @ todo = orig"

lemma in_order_push: "in_order out q (x # todo) orig \<Longrightarrow> in_order out (push x q) todo orig"
  by (simp add: in_order_def items_push)

lemma in_order_pop:
  "in_order out q todo orig \<Longrightarrow> pop q = Some (x, q') \<Longrightarrow> in_order (out @ [x]) q' todo orig"
  using pop_Some by (simp add: in_order_def)

lemma in_order_prefix: "in_order out q todo orig \<Longrightarrow> \<exists>rest. orig = out @ rest"
  by (auto simp: in_order_def)

lemma in_order_done: "in_order out q [] orig \<Longrightarrow> pop q = None \<Longrightarrow> out = orig"
  by (simp add: in_order_def pop_None)

end

section \<open>The shared state\<close>

record client_ui =
  command_queue :: "string list"
  finished :: bool

definition ui_new :: client_ui where
  "ui_new = \<lparr>command_queue = [], finished = False\<rparr>"

definition shutdown :: "client_ui \<Rightarrow> client_ui" where
  "shutdown u = u\<lparr>finished := True\<rparr>"

definition queue_push :: "string \<Rightarrow> client_ui \<Rightarrow> client_ui" where
  "queue_push line u = u\<lparr>command_queue := command_queue u @ [line]\<rparr>"

definition queue_pop :: "client_ui \<Rightarrow> (string \<times> client_ui) option" where
  "queue_pop u =
     (case command_queue u of [] \<Rightarrow> None | c # cs \<Rightarrow> Some (c, u\<lparr>command_queue := cs\<rparr>))"

interpretation ui_queue: fifo command_queue queue_push queue_pop
  by unfold_locales (auto simp: queue_push_def queue_pop_def split: list.splits)

text \<open>One line that \<open>userInputThread\<close> has read.\<close>

definition userInput :: "string \<Rightarrow> client_ui \<Rightarrow> client_ui" where
  "userInput line u = (if line = [] then u else queue_push line u)"

text \<open>
  \<open>tryGetCommandFromQueue\<close>: the wait goes on, or it is over and returns \<open>false\<close>, or it returns
  \<open>true\<close> with the command in front.
\<close>

datatype fetched = Waiting | Finished | Got string client_ui

definition tryGetCommandFromQueue :: "client_ui \<Rightarrow> fetched" where
  "tryGetCommandFromQueue u =
     (if \<not> (command_queue u \<noteq> [] \<or> finished u) then Waiting
      else (case queue_pop u of None \<Rightarrow> Finished | Some (c, u') \<Rightarrow> Got c u'))"

section \<open>The two threads\<close>

text \<open>
  \<open>to_read\<close> are the lines that standard input still holds, \<open>taken\<close> the commands that
  \<open>communicationThread\<close> has taken so far; a SIGINT calls \<open>shutdown\<close> at any moment.
\<close>

record ui_run =
  to_read :: "string list"
  input_done :: bool
  shared :: client_ui
  taken :: "string list"
  comm_done :: bool
  interrupted :: bool

definition ui_start :: "string list \<Rightarrow> ui_run" where
  "ui_start lines =
     \<lparr>to_read = lines, input_done = False, shared = ui_new, taken = [], comm_done = False,
      interrupted = False\<rparr>"

inductive ui_step :: "ui_run \<Rightarrow> ui_run \<Rightarrow> bool" where
  read_line: "to_read r = line # rest \<Longrightarrow>
     ui_step r (r\<lparr>to_read := rest, shared := userInput line (shared r)\<rparr>)"
| end_of_input: "to_read r = [] \<Longrightarrow> \<not> input_done r \<Longrightarrow>
     ui_step r (r\<lparr>input_done := True, shared := shutdown (shared r)\<rparr>)"
| sigint: "ui_step r (r\<lparr>interrupted := True, shared := shutdown (shared r)\<rparr>)"
| take_command: "\<not> comm_done r \<Longrightarrow> tryGetCommandFromQueue (shared r) = Got c u \<Longrightarrow>
     ui_step r (r\<lparr>shared := u, taken := taken r @ [c]\<rparr>)"
| leave: "\<not> comm_done r \<Longrightarrow> tryGetCommandFromQueue (shared r) = Finished \<Longrightarrow>
     ui_step r (r\<lparr>comm_done := True\<rparr>)"

inductive ui_reach :: "string list \<Rightarrow> ui_run \<Rightarrow> bool" for lines where
  init: "ui_reach lines (ui_start lines)"
| step: "ui_reach lines r \<Longrightarrow> ui_step r r' \<Longrightarrow> ui_reach lines r'"

definition commands :: "string list \<Rightarrow> string list" where
  "commands lines = filter (\<lambda>l. l \<noteq> []) lines"

definition ui_inv :: "string list \<Rightarrow> ui_run \<Rightarrow> bool" where
  "ui_inv lines r \<longleftrightarrow>
     ui_queue.in_order (taken r) (shared r) (commands (to_read r)) (commands lines) \<and>
     (finished (shared r) \<longrightarrow> input_done r \<or> interrupted r) \<and>
     (input_done r \<longrightarrow> to_read r = [] \<and> finished (shared r)) \<and>
     (comm_done r \<and> \<not> interrupted r \<longrightarrow> taken r = commands lines)"

lemma Got_iff: "tryGetCommandFromQueue u = Got c u' \<longleftrightarrow> queue_pop u = Some (c, u')"
  by (auto simp: tryGetCommandFromQueue_def queue_pop_def split: list.splits)

lemma Finished_iff: "tryGetCommandFromQueue u = Finished \<longleftrightarrow> queue_pop u = None \<and> finished u"
  by (auto simp: tryGetCommandFromQueue_def queue_pop_def split: list.splits)

lemma queue_pop_finished: "queue_pop u = Some (c, u') \<Longrightarrow> finished u' = finished u"
  by (auto simp: queue_pop_def split: list.splits)

lemma in_order_shutdown [simp]:
  "ui_queue.in_order out (shutdown u) todo orig \<longleftrightarrow> ui_queue.in_order out u todo orig"
  by (simp add: ui_queue.in_order_def shutdown_def)

lemma ui_step_inv:
  assumes "ui_step r r'" "ui_inv lines r" shows "ui_inv lines r'"
  using assms
proof (cases rule: ui_step.cases)
  case (read_line line rest)
  then have "\<not> input_done r" using assms(2) by (auto simp: ui_inv_def)
  moreover have "finished (userInput line (shared r)) = finished (shared r)"
    by (simp add: userInput_def queue_push_def)
  moreover have "ui_queue.in_order (taken r) (userInput line (shared r)) (commands rest) (commands lines)"
    using read_line assms(2) ui_queue.in_order_push
    by (auto simp: ui_inv_def userInput_def commands_def)
  ultimately show ?thesis using read_line assms(2) by (simp add: ui_inv_def)
next
  case (take_command c u)
  then have "queue_pop (shared r) = Some (c, u)" by (simp add: Got_iff)
  then show ?thesis
    using take_command assms(2) ui_queue.in_order_pop queue_pop_finished by (auto simp: ui_inv_def)
next
  case leave
  then have "queue_pop (shared r) = None" "finished (shared r)" by (simp_all add: Finished_iff)
  then show ?thesis
    using leave assms(2) ui_queue.in_order_done by (auto simp: ui_inv_def commands_def)
qed (auto simp: ui_inv_def shutdown_def [of "shared r"] ui_queue.in_order_def)

lemma ui_reach_inv: "ui_reach lines r \<Longrightarrow> ui_inv lines r"
proof (induction rule: ui_reach.induct)
  case init
  then show ?case by (simp add: ui_inv_def ui_start_def ui_new_def ui_queue.in_order_def)
qed (rule ui_step_inv)

section \<open>Properties\<close>

text \<open>C26. The commands are executed in the order in which they were typed, none twice and none
  skipped: at any moment the ones taken are a prefix of the non-empty lines. When the second
  thread ends without an interrupt, it has taken them all.\<close>

theorem commands_in_order:
  assumes "ui_reach lines r"
  shows "(\<exists>rest. filter (\<lambda>l. l \<noteq> []) lines = taken r @ rest) \<and>
    (comm_done r \<and> \<not> interrupted r \<longrightarrow> taken r = filter (\<lambda>l. l \<noteq> []) lines)"
  using ui_reach_inv [OF assms] ui_queue.in_order_prefix by (auto simp: ui_inv_def commands_def)

lemma ui_demo:
  "ui_reach [''a'', [], ''b''] \<lparr>to_read = [], input_done = False,
     shared = \<lparr>command_queue = [''b''], finished = False\<rparr>, taken = [''a''], comm_done = False,
     interrupted = False\<rparr>" (is "ui_reach ?l ?r")
proof -
  let ?q = "\<lambda>i q t. \<lparr>to_read = i, input_done = False, shared = \<lparr>command_queue = q, finished = False\<rparr>,
     taken = t, comm_done = False, interrupted = False\<rparr>"
  have "ui_reach ?l (?q ?l [] [])" using ui_reach.init [of ?l] by (simp add: ui_start_def ui_new_def)
  then have "ui_reach ?l (?q [[], ''b''] [''a''] [])"
    using ui_step.read_line [of "?q ?l [] []" "''a''" "[[], ''b'']"]
    by (auto simp: userInput_def queue_push_def intro: ui_reach.step)
  then have "ui_reach ?l (?q [[], ''b''] [] [''a''])"
    using ui_step.take_command [of "?q [[], ''b''] [''a''] []" "''a''" "\<lparr>command_queue = [], finished = False\<rparr>"]
    by (auto simp: tryGetCommandFromQueue_def queue_pop_def intro: ui_reach.step)
  then have "ui_reach ?l (?q [''b''] [] [''a''])"
    using ui_step.read_line [of "?q [[], ''b''] [] [''a'']" "[]" "[''b'']"]
    by (auto simp: userInput_def intro: ui_reach.step)
  then show ?thesis
    using ui_step.read_line [of "?q [''b''] [] [''a'']" "''b''" "[]"]
    by (auto simp: userInput_def queue_push_def intro: ui_reach.step)
qed

text \<open>The rest of that run: the input ends, the second command is taken, and the second thread leaves.\<close>

lemma ui_demo_ends:
  obtains r where "ui_reach [''a'', [], ''b''] r" "comm_done r" "\<not> interrupted r"
proof -
  let ?l = "[''a'', [], ''b'']"
  let ?q = "\<lambda>q t c. \<lparr>to_read = [], input_done = True, shared = \<lparr>command_queue = q, finished = True\<rparr>,
     taken = t, comm_done = c, interrupted = False\<rparr>"
  have "ui_reach ?l (?q [''b''] [''a''] False)"
    using ui_reach.step [OF ui_demo ui_step.end_of_input] by (simp add: shutdown_def)
  then have "ui_reach ?l (?q [] [''a'', ''b''] False)"
    using ui_step.take_command [of "?q [''b''] [''a''] False" "''b''" "\<lparr>command_queue = [], finished = True\<rparr>"]
    by (auto simp: tryGetCommandFromQueue_def queue_pop_def intro: ui_reach.step)
  then have "ui_reach ?l (?q [] [''a'', ''b''] True)"
    using ui_step.leave [of "?q [] [''a'', ''b''] False"]
    by (auto simp: tryGetCommandFromQueue_def queue_pop_def intro: ui_reach.step)
  then show ?thesis by (rule that) simp_all
qed

theorem commands_in_order_witness:
  "\<exists>r. ui_reach [''a'', [], ''b''] r \<and> comm_done r \<and> taken r = [''a'', ''b'']"
proof -
  obtain r where r: "ui_reach [''a'', [], ''b''] r" "comm_done r" "\<not> interrupted r" by (rule ui_demo_ends)
  with commands_in_order [OF r(1)] show ?thesis by auto
qed

text \<open>The consumer never waits for ever with work to do: while it has not ended, either it can
  take a step, or the queue is empty, the input has not ended and nobody has interrupted it.\<close>

lemma consumer_not_stuck:
  assumes "ui_reach lines r" "\<not> comm_done r"
  shows "(\<exists>r'. ui_step r r' \<and> (comm_done r' \<or> length (taken r') = Suc (length (taken r)))) \<or>
    (command_queue (shared r) = [] \<and> \<not> input_done r \<and> \<not> finished (shared r))"
proof (cases "tryGetCommandFromQueue (shared r)")
  case Waiting
  then show ?thesis
    using ui_reach_inv [OF assms(1)]
    by (auto simp: tryGetCommandFromQueue_def ui_inv_def split: if_splits option.splits)
next
  case Finished
  then have "ui_step r (r\<lparr>comm_done := True\<rparr>)" using assms(2) by (intro ui_step.leave)
  then show ?thesis by (intro disjI1 exI [of _ "r\<lparr>comm_done := True\<rparr>"]) simp
next
  case (Got c u)
  then have "ui_step r (r\<lparr>shared := u, taken := taken r @ [c]\<rparr>)"
    using assms(2) by (intro ui_step.take_command)
  then show ?thesis by (intro disjI1 exI [of _ "r\<lparr>shared := u, taken := taken r @ [c]\<rparr>"]) simp
qed

end
