(* ===== verification/Exchange.thy ===== *)
theory Exchange
  imports BankTheorems ClientTheorems
begin

text \<open>
  One exchange between a client and the server, over the bytes of the two packets: what the
  server's thread makes of a request that \<open>sendRequestPacket\<close> built, and what \<open>receiveResponse\<close>
  and \<open>handle_ack\<close> make of the thread's reply.
\<close>

section \<open>The request\<close>

text \<open>The account that a request names: the one the user typed, or whatever the packet's memory held
  when that was not an address.\<close>

abbreviation asked_dest :: "packet \<Rightarrow> string \<Rightarrow> u32" where
  "asked_dest junk dest \<equiv> inet_pton_into dest (rq_dest_addr (data_req junk))"

lemma request_thread_served:
  assumes wf: "server_wf s" and i: "in_i32 v" "in_i32 q"
  obtains effs rp where
    "processTransaction s (inet_ntop (sin_addr addr)) (asked_dest junk dest) v q =
       Some (outcome s (inet_ntop (sin_addr addr)) (inet_ntop (asked_dest junk dest)) v q, effs, rp)"
    "request_thread s (request_packet junk q dest v) addr =
       Some (outcome s (inet_ntop (sin_addr addr)) (inet_ntop (asked_dest junk dest)) v q,
             effs @ [Send (ack_packet q rp) addr])"
    "rp_status rp = verdict s (inet_ntop (sin_addr addr)) (inet_ntop (asked_dest junk dest)) v q"
    "canonical (rp_balance rp)"
proof -
  let ?a = "inet_ntop (sin_addr addr)" and ?x = "asked_dest junk dest"
  obtain s' effs rp where p: "processTransaction s ?a ?x v q = Some (s', effs, rp)"
    using processTransaction_eq [OF wf i(2)] by (simp add: Let_def)
  note D = processTransactionD [OF wf i(2) p]
  have "server_wf s'" unfolding D(1) by (rule server_wf_outcome [OF wf i])
  then have c: "canonical (rp_balance rp)"
    unfolding D(3) using account_valid [of s' ?a]
    by (auto simp: balance_of_def valid_client_def split: option.splits)
  have r: "request_thread s (request_packet junk q dest v) addr =
      Some (outcome s ?a (inet_ntop ?x) v q, effs @ [Send (ack_packet q rp) addr])"
    using p i D(1) by (simp add: request_thread_def)
  have p': "processTransaction s ?a ?x v q = Some (outcome s ?a (inet_ntop ?x) v q, effs, rp)"
    using p D(1) by simp
  show ?thesis using p' r D(2) c by (rule that)
qed

text \<open>The same, from a given result and with a destination that is an address.\<close>

lemma exchange_steps:
  assumes wf: "server_wf s" and i: "in_i32 v" "in_i32 q" and d: "inet_pton dest = Some x"
    and r: "request_thread s (request_packet junk q dest v) addr = Some (s', effs)"
  obtains effs' rp where
    "processTransaction s (inet_ntop (sin_addr addr)) x v q = Some (s', effs', rp)"
    "effs = effs' @ [Send (ack_packet q rp) addr]" "canonical (rp_balance rp)"
proof (rule request_thread_served [OF wf i, where addr = addr and junk = junk and dest = dest])
  fix effs1 rp
  assume "processTransaction s (inet_ntop (sin_addr addr)) (asked_dest junk dest) v q =
      Some (outcome s (inet_ntop (sin_addr addr)) (inet_ntop (asked_dest junk dest)) v q, effs1, rp)"
    and "request_thread s (request_packet junk q dest v) addr =
      Some (outcome s (inet_ntop (sin_addr addr)) (inet_ntop (asked_dest junk dest)) v q,
            effs1 @ [Send (ack_packet q rp) addr])"
    and "canonical (rp_balance rp)"
  then show thesis using r d by (intro that) (auto simp: inet_pton_into_def)
qed

section \<open>The reply\<close>

lemma receive_ack:
  assumes "length junk = PACKET_SIZE" "canonical (rp_balance rp)"
  shows "receiveResponse junk (Some (ack_packet q rp, sender)) n =
    (ack_packet q rp, u32_of_int q = u32_of_int n)"
    "data_ack (ack_packet q rp) =
      \<lparr>ak_seqn = htonl (u32_of_int q), ak_new_balance = rp_balance rp,
       ak_status = htonl (status_code (rp_status rp)), ak_last_req = htonl (u32_of_int (rp_last_req rp))\<rparr>"
proof -
  show d: "data_ack (ack_packet q rp) =
      \<lparr>ak_seqn = htonl (u32_of_int q), ak_new_balance = rp_balance rp,
       ak_status = htonl (status_code (rp_status rp)), ak_last_req = htonl (u32_of_int (rp_last_req rp))\<rparr>"
    using assms(2) by (simp add: ack_packet_def valid_ack_def)
  have "length (ack_packet q rp) = PACKET_SIZE" "packet_label (ack_packet q rp) = Some TRANSACTION_ACK"
    using assms(2) by (simp_all add: ack_packet_def c_ack.enc_width valid_ack_def)
  then show "receiveResponse junk (Some (ack_packet q rp, sender)) n =
      (ack_packet q rp, u32_of_int q = u32_of_int n)"
    using d by (simp add: receiveResponse_def recv_into_full [OF assms(1)])
qed

lemma ack_status:
  "canonical (rp_balance rp) \<Longrightarrow>
     status_of_code (ntohl (ak_status (data_ack (ack_packet q rp)))) = Some (rp_status rp)"
  by (simp add: ack_packet_def valid_ack_def)

lemma u32_of_int_inject: "in_i32 a \<Longrightarrow> in_i32 b \<Longrightarrow> u32_of_int a = u32_of_int b \<longleftrightarrow> a = b"
  by (metis int_of_u32_of_int)

text \<open>What the client does with a reply: whether its number advances, and that nothing else of it
  changes.\<close>

lemma handle_ack_client:
  assumes "canonical (rp_balance rp)"
  shows "fst (handle_ack c fds dest v (data_ack (ack_packet q rp)) e) =
    (if rp_status rp \<in> {SUCCESS, ERROR_DUPLICATE_REQUEST} then incrementSequenceNumber c else c)"
  using ack_status [OF assms, of q] by (cases "rp_status rp") (simp_all add: handle_ack_def Let_def)

lemma processCommand_answered:
  assumes "validateInput cmd = Some (dest, v)" "answered (sequence_number c) (env 0)"
    and "at_heard (env 0) = []"
    and "receiveResponse (at_response_junk (env 0)) (at_reply (env 0)) (sequence_number c) = (ack, ok)"
  shows "\<exists>effs. processCommand c fds cmd env e =
    (case handle_ack c fds dest v (data_ack ack) e of
       (c', fds', effs2, logs) \<Rightarrow> (c', fds', effs @ effs2, logs))"
  using exec_loop_answered [of 0 c env dest v, OF _ assms(2)] assms(1,3,4)
  by (auto simp: processCommand_def executeRequestWithRetries_def MAX_RETRIES_def Let_def)

end
