(* ===== verification/Mains.thy ===== *)
theory Mains
  imports ClientInterface Exchange
begin

text \<open>
  The two programs: \<open>ClientInterface::start\<close> with the thread that executes the commands, and the
  functions \<open>main\<close> of client/main.cpp and server/main.cpp. The signal handler is the step \<open>sigint\<close>
  of \<open>ui_step\<close>.
\<close>

section \<open>The client\<close>

text \<open>\<open>start\<close>: the log and whether the two threads are started; an exception is logged.\<close>

definition interface_start ::
    "client \<Rightarrow> discovery_env \<Rightarrow> fd_table \<Rightarrow> client \<times> fd_table \<times> effect list \<times> client_log list \<times> bool" where
  "interface_start c e fds =
     (case discoverServer c e fds of
        (Inr c1, effs, fds1) \<Rightarrow> (c1, fds1, effs, [LogServer (server_address c1)], True)
      | (Inl err, effs, fds1) \<Rightarrow> (c, fds1, effs, [LogFatal err], False))"

text \<open>The commands in the order in which they leave the queue, each with what happens around it.\<close>

type_synonym command = "string \<times> (nat \<Rightarrow> attempt) \<times> discovery_env"

fun communicationThread ::
    "client \<Rightarrow> fd_table \<Rightarrow> command list \<Rightarrow> client \<times> fd_table \<times> effect list \<times> client_log list" where
  "communicationThread c fds [] = (c, fds, [], [])"
| "communicationThread c fds ((line, env, e) # cmds) =
     (case processCommand c fds line env e of (c1, fds1, effs1, logs1) \<Rightarrow>
        case communicationThread c1 fds1 cmds of (c2, fds2, effs2, logs2) \<Rightarrow>
          (c2, fds2, effs1 @ effs2, logs1 @ logs2))"

text \<open>The exit status, the packets sent and the log; the queue is drained when the threads are joined.\<close>

definition client_main ::
    "string list \<Rightarrow> discovery_env \<Rightarrow> fd_table \<Rightarrow> command list \<Rightarrow> int \<times> effect list \<times> client_log list" where
  "client_main argv e fds cmds =
     (let port = getValidatedPort argv in
      if port = -1 then (1, [], [])
      else (case interface_start (client_new port) e fds of (c, fds1, effs, logs, started) \<Rightarrow>
              if started then
                (case communicationThread c fds1 cmds of (c2, fds2, effs2, logs2) \<Rightarrow>
                   (0, effs @ effs2, logs @ logs2))
              else (0, effs, logs)))"

section \<open>The server\<close>

text \<open>\<open>init\<close> throws out of \<open>main\<close>, or serves until the process is killed, or still searches.\<close>

datatype server_run = Exit int | Uncaught string | Serving server "effect list" | Searching

definition server_main ::
    "string list \<Rightarrow> ifaddr option list option \<Rightarrow> server_role \<Rightarrow> bool \<Rightarrow> sockaddr \<Rightarrow>
     bool \<Rightarrow> bool \<Rightarrow> (sockaddr \<Rightarrow> bool) \<Rightarrow> fd_table \<Rightarrow> packet \<Rightarrow> (nat \<times> datagram option) list \<Rightarrow> server_run" where
  "server_main argv interfaces role0 alive0 addr0 create_ok broadcast_ok bind_ok fds buf env =
     (let port = getValidatedPort argv in
      if port = -1 then Exit 1
      else (case server_start (server_new port (getIp interfaces) role0 alive0 addr0)
                   create_ok broadcast_ok bind_ok fds port buf env of
              None \<Rightarrow> Searching
            | Some (Inl err) \<Rightarrow> Uncaught err
            | Some (Inr (s, effs)) \<Rightarrow> Serving s effs))"

section \<open>The numbers of a session\<close>

definition advances :: "client_log \<Rightarrow> bool" where
  "advances l \<longleftrightarrow> (\<exists>a n d v b. l = LogResponse a n d v b) \<or> (\<exists>n k. l = LogDuplicate n k)"

text \<open>The numbers of the requests among some packets sent.\<close>

fun request_number :: "effect \<Rightarrow> int option" where
  "request_number (Send p a) =
     (if packet_label p = Some TRANSACTION_REQ
      then Some (int_of_u32 (ntohl (rq_seqn (data_req p)))) else None)"
| "request_number _ = None"

definition numbers :: "effect list \<Rightarrow> int list" where
  "numbers effs = List.map_filter request_number effs"

lemma numbers_simps [simp]:
  "numbers [] = []" "numbers (xs @ ys) = numbers xs @ numbers ys"
  by (simp_all add: numbers_def map_filter_def)

lemma numbers_concat: "numbers (concat xss) = concat (map numbers xss)"
  by (induction xss) simp_all

lemma numbers_requests:
  assumes "\<forall>e\<in>set effs. is_request_for n dest v e" "in_i32 n"
  shows "numbers effs = replicate (length effs) n"
  using assms(1)
proof (induction effs)
  case (Cons e effs)
  then have "request_number e = Some n" using assms(2) by (auto simp: is_request_for_def)
  with Cons show ?case by (simp add: numbers_def List.map_filter_def)
qed simp

lemma numbers_discovery:
  "discoverServer c e fds = (r, effs, fds') \<Longrightarrow> numbers effs = []"
proof -
  have "numbers [Send (bare_packet DISCOVERY) a] = []" for a
    by (simp add: numbers_def List.map_filter_def)
  then show "discoverServer c e fds = (r, effs, fds') \<Longrightarrow> numbers effs = []"
    by (auto simp: discoverServer_def run_discovery_service_client_def Let_def
        split: prod.splits sum.splits if_splits option.splits)
qed

lemma discoverServer_seqn:
  "discoverServer c e fds = (Inr c', effs, fds') \<Longrightarrow> sequence_number c' = sequence_number c"
  by (auto simp: discoverServer_def Let_def split: prod.splits sum.splits)

lemma handle_ack_numbers:
  assumes "handle_ack c fds dest v ack e = (c', fds', effs, logs)"
  shows "numbers effs = []"
    "sequence_number c' = (if \<exists>l\<in>set logs. advances l then wrap32 (sequence_number c + 1) else sequence_number c)"
proof -
  have "numbers effs = [] \<and>
    sequence_number c' = (if \<exists>l\<in>set logs. advances l then wrap32 (sequence_number c + 1) else sequence_number c)"
  proof (cases "status_of_code (ntohl (ak_status ack))")
    case None
    then show ?thesis
      using assms numbers_discovery [of c e fds] discoverServer_seqn [of c e fds]
      by (auto simp: handle_ack_def advances_def Let_def split: prod.splits sum.splits)
  next
    case (Some st)
    then show ?thesis
      using assms by (cases st) (auto simp: handle_ack_def advances_def incrementSequenceNumber_def Let_def)
  qed
  then show "numbers effs = []"
    "sequence_number c' = (if \<exists>l\<in>set logs. advances l then wrap32 (sequence_number c + 1) else sequence_number c)"
    by blast+
qed

text \<open>One command: the numbers of its packets, one for each attempt whose packet can be sent, and the
  number that it leaves.\<close>

definition command_numbers :: "int \<Rightarrow> string \<Rightarrow> (nat \<Rightarrow> attempt) \<Rightarrow> int list" where
  "command_numbers n line env =
     (if validateInput line = None then []
      else replicate (length (filter (\<lambda>i. at_send_ok (env i)) (attempts_from 0 n env))) n)"

lemma processCommand_numbers:
  assumes "processCommand c fds line env e = (c', fds', effs, logs)" "in_i32 (sequence_number c)"
    "in_i32 (sequence_number c + 1)"
  shows "numbers effs = command_numbers (sequence_number c) line env"
    "sequence_number c' = (if \<exists>l\<in>set logs. advances l then sequence_number c + 1 else sequence_number c)"
proof -
  let ?n = "sequence_number c"
  have "numbers effs = command_numbers ?n line env \<and>
    sequence_number c' = (if \<exists>l\<in>set logs. advances l then ?n + 1 else ?n)"
  proof (cases "validateInput line")
    case None
    with assms(1) show ?thesis by (auto simp: processCommand_def advances_def command_numbers_def)
  next
    case (Some t)
    obtain dest v where t: "validateInput line = Some (dest, v)" using Some by (cases t) simp
    obtain c1 effs1 r where x: "executeRequestWithRetries c dest v env = (c1, effs1, r)"
      by (cases "executeRequestWithRetries c dest v env")
    have p: "exec_promise 0 ?n dest v env (c1, effs1, r)"
      using exec_loop_promise [of 0 c dest v env] x by (simp add: executeRequestWithRetries_def)
    then have n1: "sequence_number c1 = ?n" "numbers effs1 = command_numbers ?n line env"
      using numbers_requests assms(2) t by (auto simp: exec_promise_def command_numbers_def)
    show ?thesis
    proof (cases r)
      case None
      then show ?thesis using assms(1) t x n1 by (auto simp: processCommand_def advances_def)
    next
      case (Some ack)
      obtain c2 fds2 effs2 logs2 where h: "handle_ack c1 fds dest v ack e = (c2, fds2, effs2, logs2)"
        by (cases "handle_ack c1 fds dest v ack e")
      then have "c' = c2" "effs = effs1 @ effs2" "logs = logs2"
        using assms(1) t x Some by (simp_all add: processCommand_def)
      then show ?thesis using handle_ack_numbers [OF h] n1 assms(3) by (simp split: if_splits)
    qed
  qed
  then show "numbers effs = command_numbers (sequence_number c) line env"
    "sequence_number c' = (if \<exists>l\<in>set logs. advances l then sequence_number c + 1 else sequence_number c)"
    by blast+
qed

text \<open>What each command of a session sends and logs, in the order of the commands.\<close>

fun outputs :: "client \<Rightarrow> fd_table \<Rightarrow> command list \<Rightarrow> (effect list \<times> client_log list) list" where
  "outputs c fds [] = []"
| "outputs c fds ((line, env, e) # cmds) =
     (case processCommand c fds line env e of (c1, fds1, effs1, logs1) \<Rightarrow>
        (effs1, logs1) # outputs c1 fds1 cmds)"

text \<open>What the numbers are to be: the requests of a command carry the present number, one for each
  attempt, and the next command has the next number when this one was answered as a success or as
  a duplicate, and the same number otherwise.\<close>

fun numbered :: "int \<Rightarrow> command list \<Rightarrow> (effect list \<times> client_log list) list \<Rightarrow> bool" where
  "numbered n [] [] \<longleftrightarrow> True"
| "numbered n ((line, env, e) # cmds) ((effs, logs) # rest) \<longleftrightarrow>
     numbers effs = command_numbers n line env \<and>
     numbered (if \<exists>l\<in>set logs. advances l then n + 1 else n) cmds rest"
| "numbered n _ _ \<longleftrightarrow> False"

lemma communication_outputs:
  "communicationThread c fds cmds = (c', fds', effs, logs) \<Longrightarrow>
     effs = concat (map fst (outputs c fds cmds)) \<and> logs = concat (map snd (outputs c fds cmds))"
  by (induction c fds cmds arbitrary: effs logs rule: communicationThread.induct)
    (auto split: prod.splits)

lemma outputs_numbered:
  assumes "in_i32 (sequence_number c)" "sequence_number c + int (length cmds) < 2 ^ 31"
  shows "numbered (sequence_number c) cmds (outputs c fds cmds)"
  using assms
proof (induction c fds cmds rule: outputs.induct)
  case (2 c fds line env e cmds)
  obtain c1 fds1 effs1 logs1 where p: "processCommand c fds line env e = (c1, fds1, effs1, logs1)"
    by (cases "processCommand c fds line env e")
  have i: "in_i32 (sequence_number c + 1)" using 2(2,3) by (simp add: in_i32_def)
  note P = processCommand_numbers [OF p 2(2) i]
  have "in_i32 (sequence_number c1)" "sequence_number c1 + int (length cmds) < 2 ^ 31"
    using 2(2,3) P(2) by (auto simp: in_i32_def split: if_splits)
  then have "numbered (sequence_number c1) cmds (outputs c1 fds1 cmds)"
    using 2(1) [OF p [symmetric] refl refl] by simp
  then show ?case using p P by simp
qed simp

section \<open>Properties\<close>

text \<open>C27. A run of the client program. It exits with 1, without sending anything, exactly when its
  argument is not a port above 1024, and with 0 otherwise, even when no server was found, in which
  case it sends no request. When a server was found, it sends and logs what its commands do, one
  after the other: one request for each attempt that could be sent, and none for a line that is no
  command; the requests of the first command carry the number 1, and those of each further command
  the number of the one before it, or one more, which is exactly when the one before was answered
  as a success or as a duplicate.\<close>

theorem client_program:
  assumes "client_main argv e fds cmds = (status, effs, logs)" "length cmds < 2 ^ 30"
  shows "status = (if getValidatedPort argv = -1 then 1 else 0) \<and>
    (status = 1 \<longrightarrow> effs = [] \<and> logs = []) \<and>
    (case discoverServer (client_new (getValidatedPort argv)) e fds of
       (Inl err, sent, fds1) \<Rightarrow> numbers effs = []
     | (Inr c, sent, fds1) \<Rightarrow> status = 0 \<longrightarrow>
         effs = sent @ concat (map fst (outputs c fds1 cmds)) \<and> numbers sent = [] \<and>
         logs = LogServer (server_address c) # concat (map snd (outputs c fds1 cmds)) \<and>
         numbered 1 cmds (outputs c fds1 cmds))"
proof (cases "getValidatedPort argv = -1")
  case False
  let ?c = "client_new (getValidatedPort argv)"
  show ?thesis
  proof (cases "discoverServer ?c e fds")
    case (fields r effs1 fds1)
    note n = numbers_discovery [OF fields]
    show ?thesis
    proof (cases r)
      case (Inl err)
      then show ?thesis
        using assms(1) False fields n by (auto simp: client_main_def interface_start_def Let_def)
    next
      case (Inr c1)
      obtain c2 fds2 effs2 logs2 where t: "communicationThread c1 fds1 cmds = (c2, fds2, effs2, logs2)"
        by (cases "communicationThread c1 fds1 cmds")
      have q: "sequence_number c1 = 1"
        using discoverServer_seqn [of ?c e fds c1 effs1 fds1] fields Inr by (simp add: client_new_def)
      have "numbered 1 cmds (outputs c1 fds1 cmds)"
        using outputs_numbered [of c1 cmds fds1] assms(2) by (simp add: q in_i32_def)
      moreover have "effs = effs1 @ effs2" "logs = LogServer (server_address c1) # logs2" "status = 0"
        using assms(1) False fields Inr t by (simp_all add: client_main_def interface_start_def Let_def)
      ultimately show ?thesis using False fields Inr n communication_outputs [OF t] by simp
    qed
  qed
qed (use assms(1) in \<open>auto simp: client_main_def split: prod.split sum.split\<close>)

text \<open>Two commands; the first is answered with a success, the second is not answered.\<close>

definition answered_once :: attempt where
  "answered_once = silent\<lparr>at_reply := Some (ack_packet 1
     \<lparr>rp_status = SUCCESS, rp_balance = whole 900, rp_last_req = 1\<rparr>, zero_sockaddr)\<rparr>"

definition two_commands :: "command list" where
  "two_commands = [(''10.0.0.2 100'', \<lambda>_. answered_once, found), (''10.0.0.2 7'', \<lambda>_. silent, found)]"

lemma two_commands_numbers:
  assumes "sequence_number c = 1"
  shows "numbered 1 two_commands (outputs c fds two_commands) \<Longrightarrow>
    concat (map (\<lambda>x. numbers (fst x)) (outputs c fds two_commands)) = [1, 2, 2, 2, 2, 2]"
proof -
  have v: "validateInput ''10.0.0.2 100'' = Some (''10.0.0.2'', 100)" "validateInput ''10.0.0.2 7'' = Some (''10.0.0.2'', 7)"
    by code_simp+
  let ?r = "\<lparr>rp_status = SUCCESS, rp_balance = whole 900, rp_last_req = 1\<rparr>"
  let ?env = "\<lambda>_ :: nat. answered_once"
  have r: "receiveResponse (at_response_junk (?env 0)) (at_reply (?env 0)) (sequence_number c) = (ack_packet 1 ?r, True)"
    using receive_ack(1) [of "replicate PACKET_SIZE 0" ?r 1 zero_sockaddr 1] assms
    by (simp add: answered_once_def silent_def)
  then have a: "answered (sequence_number c) (?env 0)" by (simp add: answered_def)
  have "at_heard (?env 0) = []" by (simp add: answered_once_def silent_def)
  from processCommand_answered [where env = ?env, OF v(1) a this r, of fds found]
  obtain sent where "processCommand c fds ''10.0.0.2 100'' ?env found =
      (incrementSequenceNumber c, fds, sent, [LogResponse (server_address c) 1 ''10.0.0.2'' 100 (whole 900)])"
    using handle_ack_reply [of ?r c fds "''10.0.0.2''" 100 1 found] assms by auto
  moreover obtain c2 fds2 effs2 logs2 where
    "processCommand (incrementSequenceNumber c) fds ''10.0.0.2 7'' (\<lambda>_. silent) found = (c2, fds2, effs2, logs2)"
    by (cases "processCommand (incrementSequenceNumber c) fds ''10.0.0.2 7'' (\<lambda>_. silent) found")
  moreover have "\<not> answered n silent" for n by (simp add: answered_def silent_def receiveResponse_def)
  moreover have "answered 1 answered_once" using a assms by simp
  moreover have "at_send_ok silent" "at_send_ok answered_once" by (simp_all add: answered_once_def silent_def)
  ultimately show "numbered 1 two_commands (outputs c fds two_commands) \<Longrightarrow>
    concat (map (\<lambda>x. numbers (fst x)) (outputs c fds two_commands)) = [1, 2, 2, 2, 2, 2]"
    using v by (simp add: two_commands_def command_numbers_def advances_def attempts_from_def MAX_RETRIES_def
        upt_conv_Cons Let_def numeral_eq_Suc)
qed

theorem client_program_witness:
  "\<exists>effs logs. client_main [''client'', show_int 4000] found [] two_commands = (0, effs, logs) \<and>
     numbers effs = [1, 2, 2, 2, 2, 2]"
proof -
  have port: "getValidatedPort [''client'', show_int 4000] = 4000"
    using stoi_show_int [of 4000] by (simp add: getValidatedPort_def validatePortArg_def validatePort_def in_i32_def)
  obtain status effs logs where m: "client_main [''client'', show_int 4000] found [] two_commands = (status, effs, logs)"
    by (cases "client_main [''client'', show_int 4000] found [] two_commands")
  obtain c sent fds1 where d: "discoverServer (client_new 4000) found [] = (Inr c, sent, fds1)"
    using found_server by blast
  then have q: "sequence_number c = 1" using discoverServer_seqn by (simp add: client_new_def)
  have "length two_commands < 2 ^ 30" by (simp add: two_commands_def)
  from client_program [OF m this] port d
  have "status = 0" "effs = sent @ concat (map fst (outputs c fds1 two_commands))" "numbers sent = []"
    "numbered 1 two_commands (outputs c fds1 two_commands)" by simp_all
  then show ?thesis
    using m two_commands_numbers [OF q, of fds1] by (simp add: numbers_concat comp_def)
qed

text \<open>The server program exits, with 1, exactly when its argument is not a port above 1024; in every other
  case it searches, serves, or ends with an exception that nothing catches.\<close>

lemma server_exit:
  "server_main argv ifs role0 alive0 addr0 c b d fds buf env = Exit n \<longleftrightarrow>
     getValidatedPort argv = -1 \<and> n = 1"
  by (auto simp: server_main_def Let_def split: option.splits sum.splits)

end
