(* ===== verification/Network.thy ===== *)
theory Network
  imports Exchange
begin

text \<open>
  A client and the server over an unreliable network. UDP may lose, delay, reorder and duplicate
  packets: every request that the client has sent may reach the server at any time and any number
  of times, every reply may reach the client likewise, and between any two of these events other
  clients may be served. The events are the code's own operations on the packets' bytes:
  \<open>sendRequestPacket\<close>, the server's request thread, \<open>receiveResponse\<close> with \<open>handle_ack\<close>, and
  \<open>heed_announcement\<close>. A command that the user gives up after five attempts is one whose
  replies are not received in time.
\<close>

section \<open>The world\<close>

record world =
  w_server :: server
  w_client :: client
  w_requests :: "packet list"  \<comment> \<open>all that the client has sent\<close>
  w_acks :: "packet list"  \<comment> \<open>all that the server has sent to it\<close>

datatype world_event =
    Request packet bool string int
  | Serve nat
  | Others bank_op
  | Reply nat packet sockaddr fd_table string int discovery_env
  | Announced packet sockaddr

text \<open>The packets among some effects, and the last of them.\<close>

definition sent_packets :: "effect list \<Rightarrow> packet list" where
  "sent_packets effs = List.map_filter (\<lambda>e. case e of Send p a \<Rightarrow> Some p | _ \<Rightarrow> None) effs"

definition reply_packets :: "effect list \<Rightarrow> packet list" where
  "reply_packets effs = (case last effs of Send p a \<Rightarrow> [p] | _ \<Rightarrow> [])"

fun world_step :: "sockaddr \<Rightarrow> world \<Rightarrow> world_event \<Rightarrow> world option" where
  "world_step addr w (Request junk ok dest v) =
     (let c = w_client w;
          effs = snd (sendRequestPacket junk ok (sequence_number c) dest v (server_sock_addr c))
      in Some (w\<lparr>w_requests := w_requests w @ sent_packets effs\<rparr>))"
| "world_step addr w (Serve i) =
     (if i < length (w_requests w) then
        map_option (\<lambda>(s', effs). w\<lparr>w_server := s', w_acks := w_acks w @ reply_packets effs\<rparr>)
          (request_thread (w_server w) (w_requests w ! i) addr)
      else Some w)"
| "world_step addr w (Others x) = map_option (\<lambda>s'. w\<lparr>w_server := s'\<rparr>) (bank_step (w_server w) x)"
| "world_step addr w (Reply i junk sender fds dest v e) =
     (if i < length (w_acks w) then
        (case receiveResponse junk (Some (w_acks w ! i, sender)) (sequence_number (w_client w)) of
           (response, ok) \<Rightarrow>
             Some (if ok
                   then w\<lparr>w_client := fst (handle_ack (w_client w) fds dest v (data_ack response) e)\<rparr>
                   else w))
      else Some w)"
| "world_step addr w (Announced p sender) =
     Some (w\<lparr>w_client := heed_announcement (w_client w) (p, sender)\<rparr>)"

abbreviation world_run :: "sockaddr \<Rightarrow> world \<Rightarrow> world_event list \<Rightarrow> world option" where
  "world_run addr \<equiv> run_steps (world_step addr)"

text \<open>
  Values are those of an \<open>int\<close>, buffers are packets, and nobody else sends from the client's
  address.
\<close>

fun event_ok :: "sockaddr \<Rightarrow> world_event \<Rightarrow> bool" where
  "event_ok addr (Request junk ok dest v) \<longleftrightarrow> in_i32 v"
| "event_ok addr (Others (AddClient a)) \<longleftrightarrow> True"
| "event_ok addr (Others (Transact a b v q)) \<longleftrightarrow> a \<noteq> sin_addr addr \<and> in_i32 v \<and> in_i32 q"
| "event_ok addr (Reply i junk sender fds dest v e) \<longleftrightarrow> length junk = PACKET_SIZE"
| "event_ok addr _ \<longleftrightarrow> True"

fun replies :: "world_event \<Rightarrow> nat" where
  "replies (Reply i junk sender fds dest v e) = 1"
| "replies _ = 0"

section \<open>The client and the server in step\<close>

definition known_request :: "int \<Rightarrow> packet \<Rightarrow> bool" where
  "known_request q p \<longleftrightarrow>
     (\<exists>junk q' dest v. p = request_packet junk q' dest v \<and> in_i32 q' \<and> in_i32 v \<and> q' \<le> q)"

definition known_ack :: "int \<Rightarrow> packet \<Rightarrow> bool" where
  "known_ack n p \<longleftrightarrow>
     (\<exists>q' rp. p = ack_packet q' rp \<and> in_i32 q' \<and> canonical (rp_balance rp) \<and>
        rp_status rp \<noteq> ERROR_OUT_OF_SEQUENCE \<and>
        (rp_status rp \<in> {SUCCESS, ERROR_DUPLICATE_REQUEST} \<longrightarrow> q' \<le> n))"

text \<open>The transaction \<open>t\<close> is one that some packet of \<open>ps\<close> asks for.\<close>

definition asked_for :: "packet list \<Rightarrow> transaction \<Rightarrow> bool" where
  "asked_for ps t \<longleftrightarrow>
     (\<exists>junk dest. request_packet junk (tx_client_seqn t) dest (tx_value t) \<in> set ps \<and>
        c_string (tx_dest_ip t) = inet_ntop (asked_dest junk dest))"

definition transfers :: "sockaddr \<Rightarrow> world \<Rightarrow> transaction list" where
  "transfers addr w = sent_by (inet_ntop (sin_addr addr)) (transaction_history (w_server w))"

text \<open>
  \<open>n0\<close> is the number of the client's last transfer, and \<open>h0\<close> the history of its transfers, when
  the world starts; \<open>b\<close> more replies may be received before the client's number overflows.
\<close>

definition in_step :: "sockaddr \<Rightarrow> transaction list \<Rightarrow> int \<Rightarrow> nat \<Rightarrow> world \<Rightarrow> bool" where
  "in_step addr h0 n0 b w \<longleftrightarrow>
     server_wf (w_server w) \<and>
     (\<exists>cl. account (w_server w) (inet_ntop (sin_addr addr)) = Some cl \<and>
        (let n = cl_last_req cl; q = sequence_number (w_client w) in
           n0 \<le> n \<and> n \<le> q \<and> q \<le> n + 1 \<and> q + int b < 2 ^ 31 \<and> in_i32 q \<and>
           (\<forall>p\<in>set (w_requests w). known_request q p) \<and>
           (\<forall>p\<in>set (w_acks w). known_ack n p) \<and>
           (\<exists>new. transfers addr w = h0 @ new \<and> map tx_client_seqn new = [n0 + 1..n] \<and>
              (\<forall>t\<in>set new. asked_for (w_requests w) t))))"

lemma in_stepI:
  assumes "server_wf (w_server w)" "account (w_server w) (inet_ntop (sin_addr addr)) = Some cl"
    and "n0 \<le> cl_last_req cl" "cl_last_req cl \<le> q" "q \<le> cl_last_req cl + 1"
    and "q = sequence_number (w_client w)" "q + int b < 2 ^ 31" "in_i32 q"
    and "\<And>p. p \<in> set (w_requests w) \<Longrightarrow> known_request q p"
    and "\<And>p. p \<in> set (w_acks w) \<Longrightarrow> known_ack (cl_last_req cl) p"
    and "transfers addr w = h0 @ new" "map tx_client_seqn new = [n0 + 1..cl_last_req cl]"
    and "\<And>t. t \<in> set new \<Longrightarrow> asked_for (w_requests w) t"
  shows "in_step addr h0 n0 b w"
  using assms unfolding in_step_def Let_def by (intro conjI exI [of _ cl] exI [of _ new]) auto

lemma in_stepE:
  assumes "in_step addr h0 n0 b w"
  obtains cl new where "server_wf (w_server w)"
    "account (w_server w) (inet_ntop (sin_addr addr)) = Some cl"
    "n0 \<le> cl_last_req cl" "cl_last_req cl \<le> sequence_number (w_client w)"
    "sequence_number (w_client w) \<le> cl_last_req cl + 1"
    "sequence_number (w_client w) + int b < 2 ^ 31" "in_i32 (sequence_number (w_client w))"
    "\<And>p. p \<in> set (w_requests w) \<Longrightarrow> known_request (sequence_number (w_client w)) p"
    "\<And>p. p \<in> set (w_acks w) \<Longrightarrow> known_ack (cl_last_req cl) p"
    "transfers addr w = h0 @ new" "map tx_client_seqn new = [n0 + 1..cl_last_req cl]"
    "\<And>t. t \<in> set new \<Longrightarrow> asked_for (w_requests w) t"
  using assms unfolding in_step_def Let_def by blast


section \<open>Every event keeps it\<close>

lemma asked_for_more: "asked_for ps t \<Longrightarrow> asked_for (ps @ qs) t"
  by (auto simp: asked_for_def)

lemma known_ackI:
  assumes "in_i32 q" "canonical (rp_balance rp)" "rp_status rp \<noteq> ERROR_OUT_OF_SEQUENCE"
    and "rp_status rp \<in> {SUCCESS, ERROR_DUPLICATE_REQUEST} \<Longrightarrow> q \<le> n"
  shows "known_ack n (ack_packet q rp)"
  unfolding known_ack_def using assms by (intro exI [of _ q] exI [of _ rp]) auto

lemma known_ack_mono:
  assumes "known_ack n p" "n \<le> n'" shows "known_ack n' p"
proof -
  obtain q rp where "p = ack_packet q rp" "in_i32 q" "canonical (rp_balance rp)"
    "rp_status rp \<noteq> ERROR_OUT_OF_SEQUENCE"
    "rp_status rp \<in> {SUCCESS, ERROR_DUPLICATE_REQUEST} \<longrightarrow> q \<le> n"
    using assms(1) unfolding known_ack_def by blast
  with assms(2) show ?thesis
    unfolding known_ack_def by (intro exI [of _ q] exI [of _ rp]) auto
qed

lemma known_request_mono:
  assumes "known_request q p" "q \<le> q'" shows "known_request q' p"
proof -
  obtain junk k dest v where "p = request_packet junk k dest v" "in_i32 k" "in_i32 v" "k \<le> q"
    using assms(1) unfolding known_request_def by blast
  with assms(2) show ?thesis
    unfolding known_request_def
    by (intro exI [of _ junk] exI [of _ k] exI [of _ dest] exI [of _ v]) auto
qed

lemma sent_request:
  "sent_packets (snd (sendRequestPacket junk ok q dest v addr)) =
     (if ok then [request_packet junk q dest v] else [])"
  by (simp add: sent_packets_def sendRequestPacket_def sendPacket_def List.map_filter_def)

lemma reply_packets_last [simp]: "reply_packets (effs @ [Send p a]) = [p]"
  by (simp add: reply_packets_def)

lemma in_step_request:
  assumes "in_step addr h0 n0 b w" "in_i32 v"
    and "w' = w\<lparr>w_requests := w_requests w @ sent_packets (snd (sendRequestPacket junk ok
      (sequence_number (w_client w)) dest v a))\<rparr>"
  shows "in_step addr h0 n0 b w'"
  using assms(1)
proof (rule in_stepE)
  fix cl :: client_dto and new
  let ?q = "sequence_number (w_client w)"
  assume a: "in_i32 ?q" "\<And>p. p \<in> set (w_requests w) \<Longrightarrow> known_request ?q p"
    and n: "\<And>t. t \<in> set new \<Longrightarrow> asked_for (w_requests w) t"
  have "known_request ?q (request_packet junk ?q dest v)"
    using a(1) assms(2) by (auto simp: known_request_def)
  then have "known_request ?q p" if "p \<in> set (w_requests w')" for p
    using that a(2) by (auto simp: assms(3) sent_request split: if_splits)
  moreover have "asked_for (w_requests w') t" if "t \<in> set new" for t
    using n [OF that] by (simp add: assms(3) asked_for_more)
  moreover assume "server_wf (w_server w)"
    "account (w_server w) (inet_ntop (sin_addr addr)) = Some cl"
    "n0 \<le> cl_last_req cl" "cl_last_req cl \<le> ?q" "?q \<le> cl_last_req cl + 1" "?q + int b < 2 ^ 31"
    "\<And>p. p \<in> set (w_acks w) \<Longrightarrow> known_ack (cl_last_req cl) p"
    "transfers addr w = h0 @ new" "map tx_client_seqn new = [n0 + 1..cl_last_req cl]"
  ultimately show ?thesis using a(1)
    by (intro in_stepI [where cl = cl and q = ?q and new = new]) (simp_all add: assms(3) transfers_def)
qed

lemma outcome_history:
  "transaction_history (outcome s a b v q) =
     transaction_history s @ (if verdict s a b v q = SUCCESS
       then [\<lparr>tx_id = wrap32 (num_transactions s + 1), tx_source_ip = ip_array a,
              tx_dest_ip = ip_array b, tx_value = v, tx_client_seqn = q\<rparr>] else [])"
  by (rule outcome_cases [of s a b v q]) (auto simp: setupDuplicateRequestLog_def)

lemma sent_by_outcome:
  "sent_by ip (transaction_history (outcome s (inet_ntop a) (inet_ntop b) v q)) =
     sent_by ip (transaction_history s) @
       (if verdict s (inet_ntop a) (inet_ntop b) v q = SUCCESS \<and> ip = inet_ntop a
        then [entry (wrap32 (num_transactions s + 1)) a b v q] else [])"
  by (simp add: outcome_history entry_def [symmetric]) (simp add: sent_by_def)

text \<open>The shapes of three kinds of event, whatever the invariant.\<close>

lemma serve_step:
  assumes "server_wf (w_server w)" "i < length (w_requests w)"
    and "w_requests w ! i = request_packet junk q dest v" "in_i32 v" "in_i32 q"
  obtains rp where "world_step addr w (Serve i) =
      Some (w\<lparr>w_server := outcome (w_server w) (inet_ntop (sin_addr addr)) (inet_ntop (asked_dest junk dest)) v q,
              w_acks := w_acks w @ [ack_packet q rp]\<rparr>)"
    "rp_status rp = verdict (w_server w) (inet_ntop (sin_addr addr)) (inet_ntop (asked_dest junk dest)) v q"
    "canonical (rp_balance rp)"
proof (rule request_thread_served [OF assms(1,4,5), where addr = addr and junk = junk and dest = dest])
  fix effs rp
  assume "request_thread (w_server w) (request_packet junk q dest v) addr =
      Some (outcome (w_server w) (inet_ntop (sin_addr addr)) (inet_ntop (asked_dest junk dest)) v q,
            effs @ [Send (ack_packet q rp) addr])"
    "rp_status rp = verdict (w_server w) (inet_ntop (sin_addr addr)) (inet_ntop (asked_dest junk dest)) v q"
    "canonical (rp_balance rp)"
  then show ?thesis using assms(2,3) by (intro that) simp_all
qed

lemma reply_step:
  assumes "i < length (w_acks w)" "w_acks w ! i = ack_packet q rp" "canonical (rp_balance rp)"
    and "in_i32 q" "in_i32 (sequence_number (w_client w))" "length junk = PACKET_SIZE"
  shows "world_step addr w (Reply i junk sender fds dest v e) =
    Some (if q = sequence_number (w_client w)
          then w\<lparr>w_client := fst (handle_ack (w_client w) fds dest v (data_ack (ack_packet q rp)) e)\<rparr>
          else w)"
  using assms(1) receive_ack(1) [OF assms(6,3), of q sender "sequence_number (w_client w)"]
    u32_of_int_inject [OF assms(4,5)] by (simp add: assms(2))

lemma others_step:
  assumes wf: "server_wf s" and cl: "account s (inet_ntop (sin_addr addr)) = Some cl"
    and x: "event_ok addr (Others x)"
  obtains s' cl' where "bank_step s x = Some s'" "server_wf s'"
    "account s' (inet_ntop (sin_addr addr)) = Some cl'" "cl_last_req cl' = cl_last_req cl"
    "sent_by (inet_ntop (sin_addr addr)) (transaction_history s') =
       sent_by (inet_ntop (sin_addr addr)) (transaction_history s)"
proof (cases x)
  case (AddClient c)
  have "transaction_history (fst (addClient s (inet_ntop c))) = transaction_history s"
    by (rule wasClientAdded_cases [of s "inet_ntop c"]) (simp_all add: addClient_def)
  then show ?thesis
    using AddClient server_wf_addClient [OF wf] account_addClient [OF cl]
    by (intro that [of "fst (addClient s (inet_ntop c))" cl]) auto
next
  case (Transact c d v q)
  then have c: "c \<noteq> sin_addr addr" and i: "in_i32 v" "in_i32 q" using x by simp_all
  then have "inet_ntop (sin_addr addr) \<noteq> inet_ntop c" by (metis inet_pton_ntop option.inject)
  then show ?thesis
    using bank_step_Transact [OF wf i(2), of c d v] server_wf_outcome [OF wf i] cl account_address [OF cl]
    by (intro that [of "outcome s (inet_ntop c) (inet_ntop d) v q"
          "if verdict s (inet_ntop c) (inet_ntop d) v q = SUCCESS
           then settle_row (inet_ntop c) (inet_ntop d) v q cl else cl"])
      (simp_all add: Transact account_outcome last_req_settle_row sent_by_outcome del: bank_step_simps(2))
qed

text \<open>The server, in step with a client whose numbers go up to \<open>q\<close>, serves the request of number \<open>q'\<close>.\<close>

lemma verdict_in_step:
  assumes "account s a = Some cl" "q' \<le> cl_last_req cl + 1"
  shows "verdict s a b v q' \<noteq> ERROR_OUT_OF_SEQUENCE"
    "verdict s a b v q' = SUCCESS \<Longrightarrow> q' = cl_last_req cl + 1"
    "verdict s a b v q' = ERROR_DUPLICATE_REQUEST \<Longrightarrow> q' \<le> cl_last_req cl"
  using assms by (auto simp: verdict_def split: option.splits if_splits)

lemma in_step_refused:
  assumes "in_step addr h0 n0 b w" "in_i32 q" "in_i32 v" "q \<le> sequence_number (w_client w)"
    and "rp_status rp = verdict (w_server w) (inet_ntop (sin_addr addr)) (inet_ntop x) v q"
      "canonical (rp_balance rp)" "rp_status rp \<noteq> SUCCESS"
  shows "in_step addr h0 n0 b
    (w\<lparr>w_server := outcome (w_server w) (inet_ntop (sin_addr addr)) (inet_ntop x) v q,
       w_acks := w_acks w @ [ack_packet q rp]\<rparr>)"
  using assms(1)
proof (rule in_stepE)
  fix cl :: client_dto and new
  let ?q = "sequence_number (w_client w)" and ?a = "inet_ntop (sin_addr addr)"
  assume wf: "server_wf (w_server w)" and cl: "account (w_server w) ?a = Some cl"
    and bounds: "?q \<le> cl_last_req cl + 1"
    and acks: "\<And>p. p \<in> set (w_acks w) \<Longrightarrow> known_ack (cl_last_req cl) p"
    and rest: "n0 \<le> cl_last_req cl" "cl_last_req cl \<le> ?q" "?q + int b < 2 ^ 31" "in_i32 ?q"
      "\<And>p. p \<in> set (w_requests w) \<Longrightarrow> known_request ?q p"
      "transfers addr w = h0 @ new" "map tx_client_seqn new = [n0 + 1..cl_last_req cl]"
      "\<And>t. t \<in> set new \<Longrightarrow> asked_for (w_requests w) t"
  have "q \<le> cl_last_req cl + 1" using assms(4) bounds by simp
  note V = verdict_in_step [OF cl this, of "inet_ntop x" v]
  have "known_ack (cl_last_req cl) (ack_packet q rp)"
    using V assms(2,5-7) by (intro known_ackI) auto
  moreover have "account (outcome (w_server w) ?a (inet_ntop x) v q) ?a = Some cl"
    using cl assms(5,7) by (simp add: account_outcome)
  ultimately show ?thesis
    using server_wf_outcome [OF wf assms(3,2)] bounds acks rest assms(5,7)
    by (intro in_stepI [where cl = cl and q = ?q and new = new]) (auto simp: transfers_def sent_by_outcome)
qed

lemma in_step_committed:
  assumes "in_step addr h0 n0 b w" "in_i32 q" "in_i32 v" "q \<le> sequence_number (w_client w)"
    and "request_packet junk q dest v \<in> set (w_requests w)"
    and "verdict (w_server w) (inet_ntop (sin_addr addr)) (inet_ntop (asked_dest junk dest)) v q = SUCCESS"
    and "rp_status rp = SUCCESS" "canonical (rp_balance rp)"
  shows "in_step addr h0 n0 b
    (w\<lparr>w_server := outcome (w_server w) (inet_ntop (sin_addr addr)) (inet_ntop (asked_dest junk dest)) v q,
       w_acks := w_acks w @ [ack_packet q rp]\<rparr>)"
  using assms(1)
proof (rule in_stepE)
  fix cl :: client_dto and new
  let ?q = "sequence_number (w_client w)" and ?a = "inet_ntop (sin_addr addr)" and ?x = "asked_dest junk dest"
  let ?cl = "settle_row ?a (inet_ntop ?x) v q cl"
  let ?e = "entry (wrap32 (num_transactions (w_server w) + 1)) (sin_addr addr) ?x v q"
  assume wf: "server_wf (w_server w)" and cl: "account (w_server w) ?a = Some cl"
    and bounds: "n0 \<le> cl_last_req cl" "?q \<le> cl_last_req cl + 1"
    and acks: "\<And>p. p \<in> set (w_acks w) \<Longrightarrow> known_ack (cl_last_req cl) p"
    and new: "transfers addr w = h0 @ new" "map tx_client_seqn new = [n0 + 1..cl_last_req cl]"
    and rest: "?q + int b < 2 ^ 31" "in_i32 ?q"
      "\<And>p. p \<in> set (w_requests w) \<Longrightarrow> known_request ?q p"
      "\<And>t. t \<in> set new \<Longrightarrow> asked_for (w_requests w) t"
  have "q \<le> cl_last_req cl + 1" using assms(4) bounds by simp
  then have n: "q = cl_last_req cl + 1" using assms(6) by (rule verdict_in_step(2) [OF cl])
  have cl': "account (outcome (w_server w) ?a (inet_ntop ?x) v q) ?a = Some ?cl" "cl_last_req ?cl = q"
    using cl account_address [OF cl] assms(6) by (simp_all add: account_outcome last_req_settle_row)
  have "known_ack q p" if "p \<in> set (w_acks w)" for p
    using known_ack_mono [OF acks [OF that]] n by simp
  moreover have "known_ack q (ack_packet q rp)" using assms(2,7,8) by (intro known_ackI) auto
  moreover have "asked_for (w_requests w) ?e" using assms(5) by (auto simp: asked_for_def)
  moreover have "map tx_client_seqn (new @ [?e]) = [n0 + 1..q]"
    using new(2) bounds n by (simp add: upto_rec2)
  ultimately show ?thesis
    using server_wf_outcome [OF wf assms(3,2)] cl' bounds new(1) rest assms(4,6) n
    by (intro in_stepI [where cl = ?cl and q = ?q and new = "new @ [?e]"])
      (auto simp: transfers_def sent_by_outcome)
qed

lemma in_step_serve:
  assumes inv: "in_step addr h0 n0 b w" and i: "i < length (w_requests w)"
  shows "\<exists>w'. world_step addr w (Serve i) = Some w' \<and> in_step addr h0 n0 b w'"
proof -
  have wf: "server_wf (w_server w)" and "known_request (sequence_number (w_client w)) (w_requests w ! i)"
    using inv i by (auto elim: in_stepE)
  then obtain junk q dest v where p: "w_requests w ! i = request_packet junk q dest v" "in_i32 q" "in_i32 v"
    "q \<le> sequence_number (w_client w)" by (auto simp: known_request_def)
  from wf i p(1,3,2) obtain rp where rp: "world_step addr w (Serve i) =
      Some (w\<lparr>w_server := outcome (w_server w) (inet_ntop (sin_addr addr)) (inet_ntop (asked_dest junk dest)) v q,
              w_acks := w_acks w @ [ack_packet q rp]\<rparr>)"
    "rp_status rp = verdict (w_server w) (inet_ntop (sin_addr addr)) (inet_ntop (asked_dest junk dest)) v q"
    "canonical (rp_balance rp)" by (rule serve_step)
  have "request_packet junk q dest v \<in> set (w_requests w)" using i p(1) by (metis nth_mem)
  then show ?thesis
    using rp in_step_refused [OF inv p(2-4) rp(2,3)] in_step_committed [OF inv p(2-4)]
    by (cases "rp_status rp = SUCCESS") simp_all
qed

lemma in_step_others:
  assumes inv: "in_step addr h0 n0 b w" and x: "event_ok addr (Others x)"
  shows "\<exists>w'. world_step addr w (Others x) = Some w' \<and> in_step addr h0 n0 b w'"
  using inv
proof (rule in_stepE)
  fix cl :: client_dto and new
  let ?q = "sequence_number (w_client w)" and ?a = "inet_ntop (sin_addr addr)"
  assume wf: "server_wf (w_server w)" and cl: "account (w_server w) ?a = Some cl"
    and rest: "n0 \<le> cl_last_req cl" "cl_last_req cl \<le> ?q" "?q \<le> cl_last_req cl + 1"
      "?q + int b < 2 ^ 31" "in_i32 ?q"
      "\<And>p. p \<in> set (w_requests w) \<Longrightarrow> known_request ?q p"
      "\<And>p. p \<in> set (w_acks w) \<Longrightarrow> known_ack (cl_last_req cl) p"
      "transfers addr w = h0 @ new" "map tx_client_seqn new = [n0 + 1..cl_last_req cl]"
      "\<And>t. t \<in> set new \<Longrightarrow> asked_for (w_requests w) t"
  obtain s' cl' where s': "bank_step (w_server w) x = Some s'" "server_wf s'" "account s' ?a = Some cl'"
      "cl_last_req cl' = cl_last_req cl"
      "sent_by ?a (transaction_history s') = sent_by ?a (transaction_history (w_server w))"
    using wf cl x by (rule others_step)
  have "transfers addr (w\<lparr>w_server := s'\<rparr>) = h0 @ new" using rest(8) s'(5) by (simp add: transfers_def)
  then have "in_step addr h0 n0 b (w\<lparr>w_server := s'\<rparr>)"
    using s'(2-4) rest by (intro in_stepI [where cl = cl' and q = ?q and new = new]) auto
  with s'(1) show ?thesis by simp
qed

text \<open>A change of the client alone.\<close>

lemma in_step_client:
  assumes "in_step addr h0 n0 b w" "sequence_number c' = sequence_number (w_client w)"
  shows "in_step addr h0 n0 b (w\<lparr>w_client := c'\<rparr>)"
  using assms by (simp add: in_step_def transfers_def Let_def)

lemma in_step_budget: "in_step addr h0 n0 b w \<Longrightarrow> b' \<le> b \<Longrightarrow> in_step addr h0 n0 b' w"
  by (force simp: in_step_def Let_def)

lemma in_step_reply:
  assumes inv: "in_step addr h0 n0 (Suc b) w" and i: "i < length (w_acks w)"
    and len: "length junk = PACKET_SIZE"
  shows "\<exists>w'. world_step addr w (Reply i junk sender fds dest v e) = Some w' \<and> in_step addr h0 n0 b w'"
  using inv
proof (rule in_stepE)
  fix cl :: client_dto and new
  let ?q = "sequence_number (w_client w)" and ?c = "w_client w"
  assume wf: "server_wf (w_server w)" and cl: "account (w_server w) (inet_ntop (sin_addr addr)) = Some cl"
    and bounds: "n0 \<le> cl_last_req cl" "cl_last_req cl \<le> ?q" "?q \<le> cl_last_req cl + 1"
      "?q + int (Suc b) < 2 ^ 31" and q: "in_i32 ?q"
    and reqs: "\<And>p. p \<in> set (w_requests w) \<Longrightarrow> known_request ?q p"
    and acks: "\<And>p. p \<in> set (w_acks w) \<Longrightarrow> known_ack (cl_last_req cl) p"
    and hist: "transfers addr w = h0 @ new" "map tx_client_seqn new = [n0 + 1..cl_last_req cl]"
      "\<And>t. t \<in> set new \<Longrightarrow> asked_for (w_requests w) t"
  have keep: "in_step addr h0 n0 b w" using in_step_budget [OF inv] by simp
  obtain q' rp where ack: "w_acks w ! i = ack_packet q' rp" "in_i32 q'" "canonical (rp_balance rp)"
    "rp_status rp \<in> {SUCCESS, ERROR_DUPLICATE_REQUEST} \<longrightarrow> q' \<le> cl_last_req cl"
    using acks [of "w_acks w ! i"] i by (auto simp: known_ack_def)
  let ?c' = "fst (handle_ack ?c fds dest v (data_ack (ack_packet q' rp)) e)"
  note step = reply_step [OF i ack(1,3,2) q len, of addr sender fds dest v e]
  have "in_step addr h0 n0 b (w\<lparr>w_client := ?c'\<rparr>)" if "q' = ?q"
  proof (cases "rp_status rp \<in> {SUCCESS, ERROR_DUPLICATE_REQUEST}")
    case True
    then have n: "cl_last_req cl = ?q" using ack(4) that bounds by simp
    have i': "in_i32 (?q + 1)" using q bounds(4) by (simp add: in_i32_def)
    have c': "sequence_number ?c' = ?q + 1"
      using handle_ack_client [OF ack(3)] True i' by (simp add: incrementSequenceNumber_def)
    have "known_request (?q + 1) p" if "p \<in> set (w_requests w)" for p
      using known_request_mono [OF reqs [OF that]] by simp
    then show ?thesis
      using wf cl bounds c' i' n acks hist
      by (intro in_stepI [where cl = cl and q = "?q + 1" and new = new]) (auto simp: transfers_def)
  next
    case False
    then have "?c' = ?c" using handle_ack_client [OF ack(3)] by simp
    then show ?thesis using keep by simp
  qed
  with step keep show ?thesis by simp
qed

interpretation network: budgeted_run "world_step addr" "event_ok addr" replies "in_step addr h0 n0"
proof
  fix b w x assume inv: "in_step addr h0 n0 b w" and ok: "event_ok addr x" and cost: "replies x \<le> b"
  show "\<exists>w'. world_step addr w x = Some w' \<and> in_step addr h0 n0 (b - replies x) w'"
  proof (cases x)
    case (Request junk k dest v)
    then show ?thesis using in_step_request [OF inv _ refl] ok by (auto simp: Let_def)
  next
    case (Serve i)
    then show ?thesis using in_step_serve [OF inv, of i] inv by (cases "i < length (w_requests w)") auto
  next
    case (Others y)
    then show ?thesis using in_step_others [OF inv] ok by auto
  next
    case (Reply i junk sender fds dest v e)
    then obtain b' where b: "b = Suc b'" using cost by (cases b) auto
    show ?thesis
    proof (cases "i < length (w_acks w)")
      case True
      then show ?thesis
        using in_step_reply [OF inv [unfolded b] True] ok by (simp add: Reply b del: world_step.simps)
    next
      case False
      then show ?thesis using in_step_budget [OF inv] by (simp add: Reply)
    qed
  next
    case (Announced p sender)
    then show ?thesis using in_step_client [OF inv] by simp
  qed
qed


section \<open>The property\<close>

definition world_start :: "server \<Rightarrow> client \<Rightarrow> world" where
  "world_start s c = \<lparr>w_server = s, w_client = c, w_requests = [], w_acks = []\<rparr>"

lemma in_step_start:
  assumes "server_wf s" "account s (inet_ntop (sin_addr addr)) = Some cl"
    and "sequence_number c = cl_last_req cl + 1" "sequence_number c + int b < 2 ^ 31"
  shows "in_step addr (transfers addr (world_start s c)) (cl_last_req cl) b (world_start s c)"
proof -
  have "in_i32 (sequence_number c)"
    using account_valid [OF assms(1,2)] assms(3,4) by (auto simp: valid_client_def in_i32_def)
  then show ?thesis
    using assms by (intro in_stepI [where cl = cl and new = "[]"]) (simp_all add: world_start_def)
qed

lemma known_ack_status:
  assumes "known_ack n p"
  shows "status_of_code (ntohl (ak_status (data_ack p))) \<noteq> Some ERROR_OUT_OF_SEQUENCE"
proof -
  obtain q rp where "p = ack_packet q rp" "canonical (rp_balance rp)" "rp_status rp \<noteq> ERROR_OUT_OF_SEQUENCE"
    using assms unfolding known_ack_def by blast
  then show ?thesis by (simp add: ack_status)
qed

text \<open>C3. Over a network that loses, delays, reorders and duplicates packets, and among other clients, a
  client that starts in step with the server stays in step: its number is never behind the last
  one that the server has accepted, and at most one ahead; the server has executed, in order and
  once each, exactly the numbers up to that last one, each for a destination and a value that the
  client asked for under that number; no step is undefined; and no request is ever answered as
  out of sequence.\<close>

theorem client_and_server_in_step:
  assumes "server_wf s" "account s (inet_ntop (sin_addr addr)) = Some cl0"
    and "sequence_number c = cl_last_req cl0 + 1"
    and "sequence_number c + int (sum_list (map replies evs)) < 2 ^ 31"
    and "\<forall>x\<in>set evs. event_ok addr x"
  shows "\<exists>w cl new. world_run addr (world_start s c) evs = Some w \<and>
    account (w_server w) (inet_ntop (sin_addr addr)) = Some cl \<and>
    cl_last_req cl \<le> sequence_number (w_client w) \<and>
    sequence_number (w_client w) \<le> cl_last_req cl + 1 \<and>
    transfers addr w = transfers addr (world_start s c) @ new \<and>
    map tx_client_seqn new = [cl_last_req cl0 + 1..cl_last_req cl] \<and>
    (\<forall>t\<in>set new. asked_for (w_requests w) t) \<and>
    (\<forall>p\<in>set (w_acks w). status_of_code (ntohl (ak_status (data_ack p))) \<noteq> Some ERROR_OUT_OF_SEQUENCE)"
proof -
  obtain w where w: "world_run addr (world_start s c) evs = Some w"
    and inv: "in_step addr (transfers addr (world_start s c)) (cl_last_req cl0) 0 w"
    using network.run_inv [OF in_step_start [OF assms(1-4)] assms(5)] by auto
  from inv show ?thesis
  proof (rule in_stepE)
    fix cl :: client_dto and new
    assume "account (w_server w) (inet_ntop (sin_addr addr)) = Some cl"
      "cl_last_req cl \<le> sequence_number (w_client w)" "sequence_number (w_client w) \<le> cl_last_req cl + 1"
      "transfers addr w = transfers addr (world_start s c) @ new"
      "map tx_client_seqn new = [cl_last_req cl0 + 1..cl_last_req cl]"
      "\<And>t. t \<in> set new \<Longrightarrow> asked_for (w_requests w) t"
      "\<And>p. p \<in> set (w_acks w) \<Longrightarrow> known_ack (cl_last_req cl) p"
    with w known_ack_status show ?thesis
      by (intro exI [of _ w] exI [of _ cl] exI [of _ new]) auto
  qed
qed

text \<open>A request that reaches the server twice, and both replies of it.\<close>

definition client1_addr :: sockaddr where
  "client1_addr = \<lparr>sin_family = AF_INET, sin_port = 0, sin_addr = 1\<rparr>"

theorem client_and_server_in_step_witness:
  "\<exists>w. world_run client1_addr (world_start demo (client_new 4000))
     [Request (replicate PACKET_SIZE 0) True (inet_ntop 2) 100, Serve 0, Serve 0,
      Others (AddClient 7), Reply 0 (replicate PACKET_SIZE 0) zero_sockaddr [] [] 100 found,
      Reply 1 (replicate PACKET_SIZE 0) zero_sockaddr [] [] 100 found] = Some w \<and>
     (\<forall>p\<in>set (w_acks w). status_of_code (ntohl (ak_status (data_ack p))) \<noteq> Some ERROR_OUT_OF_SEQUENCE)"
proof -
  have "account demo (inet_ntop (sin_addr client1_addr)) = Some (demo_row 1 1000 0)"
    by (simp add: client1_addr_def)
  from client_and_server_in_step [OF demo_wf this, of "client_new 4000"
      "[Request (replicate PACKET_SIZE 0) True (inet_ntop 2) 100, Serve 0, Serve 0,
        Others (AddClient 7), Reply 0 (replicate PACKET_SIZE 0) zero_sockaddr [] [] 100 found,
        Reply 1 (replicate PACKET_SIZE 0) zero_sockaddr [] [] 100 found]"]
  show ?thesis by (auto simp: client_new_def in_i32_def simp del: run_steps.simps)
qed

section \<open>A client ahead of the server\<close>

text \<open>
  The server expects a smaller number than the client sends, as the primary does that took over
  without having received the last updates. Replies of the primary before it may still arrive
  (\<open>old\<close>), its requests do not: they went to another address.
\<close>

definition some_reply :: "packet \<Rightarrow> bool" where
  "some_reply p \<longleftrightarrow> (\<exists>q rp. p = ack_packet q rp \<and> in_i32 q \<and> canonical (rp_balance rp))"

definition refusal :: "packet \<Rightarrow> bool" where
  "refusal p \<longleftrightarrow>
     (\<exists>q rp. p = ack_packet q rp \<and> in_i32 q \<and> canonical (rp_balance rp) \<and>
        rp_status rp \<in> {ERROR_OUT_OF_SEQUENCE, ERROR_CLIENT_NOT_FOUND})"

lemma refusal_status:
  "refusal p \<Longrightarrow> status_of_code (ntohl (ak_status (data_ack p))) \<in>
     {Some ERROR_OUT_OF_SEQUENCE, Some ERROR_CLIENT_NOT_FOUND}"
  by (auto simp: refusal_def ack_status)

lemma refusal_reply: "refusal p \<Longrightarrow> some_reply p"
  unfolding refusal_def some_reply_def by blast

lemma known_ack_reply: "known_ack n p \<Longrightarrow> some_reply p"
  unfolding known_ack_def some_reply_def by blast

definition ahead ::
    "sockaddr \<Rightarrow> transaction list \<Rightarrow> packet list \<Rightarrow> int \<Rightarrow> nat \<Rightarrow> world \<Rightarrow> bool" where
  "ahead addr h old q0 b w \<longleftrightarrow>
     (let q = sequence_number (w_client w) in
      server_wf (w_server w) \<and> in_i32 q0 \<and> q0 \<le> q \<and> q + int b < 2 ^ 31 \<and> (old = [] \<longrightarrow> q = q0) \<and>
      transfers addr w = h \<and>
      (\<exists>cl. account (w_server w) (inet_ntop (sin_addr addr)) = Some cl \<and> cl_last_req cl + 1 < q0) \<and>
      (\<forall>p\<in>set (w_requests w). \<exists>junk k dest v. p = request_packet junk k dest v \<and> in_i32 v \<and> in_i32 k \<and> q0 \<le> k) \<and>
      (\<exists>new. w_acks w = old @ new \<and> (\<forall>p\<in>set old. some_reply p) \<and> (\<forall>p\<in>set new. refusal p)))"

lemma aheadI:
  assumes "server_wf (w_server w)" "in_i32 q0" "q0 \<le> sequence_number (w_client w)"
    and "sequence_number (w_client w) + int b < 2 ^ 31" "old = [] \<Longrightarrow> sequence_number (w_client w) = q0"
    and "transfers addr w = h"
    and "account (w_server w) (inet_ntop (sin_addr addr)) = Some cl" "cl_last_req cl + 1 < q0"
    and "\<And>p. p \<in> set (w_requests w) \<Longrightarrow> \<exists>junk k dest v. p = request_packet junk k dest v \<and> in_i32 v \<and> in_i32 k \<and> q0 \<le> k"
    and "w_acks w = old @ new" "\<And>p. p \<in> set old \<Longrightarrow> some_reply p" "\<And>p. p \<in> set new \<Longrightarrow> refusal p"
  shows "ahead addr h old q0 b w"
  using assms unfolding ahead_def Let_def by (intro conjI exI [of _ cl] exI [of _ new]) auto

lemma aheadE:
  assumes "ahead addr h old q0 b w"
  obtains cl new where "server_wf (w_server w)" "in_i32 q0" "q0 \<le> sequence_number (w_client w)"
    "sequence_number (w_client w) + int b < 2 ^ 31" "old = [] \<Longrightarrow> sequence_number (w_client w) = q0"
    "transfers addr w = h"
    "account (w_server w) (inet_ntop (sin_addr addr)) = Some cl" "cl_last_req cl + 1 < q0"
    "\<And>p. p \<in> set (w_requests w) \<Longrightarrow> \<exists>junk k dest v. p = request_packet junk k dest v \<and> in_i32 v \<and> in_i32 k \<and> q0 \<le> k"
    "w_acks w = old @ new" "\<And>p. p \<in> set old \<Longrightarrow> some_reply p" "\<And>p. p \<in> set new \<Longrightarrow> refusal p"
  using assms unfolding ahead_def Let_def by blast

lemma ahead_budget: "ahead addr h old q0 b w \<Longrightarrow> b' \<le> b \<Longrightarrow> ahead addr h old q0 b' w"
  by (force simp: ahead_def Let_def)

lemma ahead_number: "ahead addr h old q0 b w \<Longrightarrow> in_i32 (sequence_number (w_client w))"
  by (auto simp: ahead_def Let_def in_i32_def)

lemma verdict_ahead:
  assumes "account s a = Some cl" "cl_last_req cl + 1 < q"
  shows "verdict s a b v q \<in> {ERROR_OUT_OF_SEQUENCE, ERROR_CLIENT_NOT_FOUND}"
  using assms by (auto simp: verdict_def split: option.split)

lemma ahead_request:
  assumes "ahead addr h old q0 b w" "in_i32 v"
    and "w' = w\<lparr>w_requests := w_requests w @ sent_packets (snd (sendRequestPacket junk ok
      (sequence_number (w_client w)) dest v a))\<rparr>"
  shows "ahead addr h old q0 b w'"
  using assms(1)
proof (rule aheadE)
  fix cl :: client_dto and new
  let ?q = "sequence_number (w_client w)"
  assume reqs: "\<And>p. p \<in> set (w_requests w) \<Longrightarrow>
      \<exists>junk k dest v. p = request_packet junk k dest v \<and> in_i32 v \<and> in_i32 k \<and> q0 \<le> k"
    and q: "q0 \<le> ?q"
    and rest: "server_wf (w_server w)" "in_i32 q0" "?q + int b < 2 ^ 31" "old = [] \<Longrightarrow> ?q = q0" "transfers addr w = h"
      "account (w_server w) (inet_ntop (sin_addr addr)) = Some cl" "cl_last_req cl + 1 < q0"
      "w_acks w = old @ new" "\<And>p. p \<in> set old \<Longrightarrow> some_reply p" "\<And>p. p \<in> set new \<Longrightarrow> refusal p"
  have "\<exists>junk k dest v. p = request_packet junk k dest v \<and> in_i32 v \<and> in_i32 k \<and> q0 \<le> k"
    if "p \<in> set (w_requests w')" for p
    using that reqs q ahead_number [OF assms(1)] assms(2) by (auto simp: assms(3) sent_request split: if_splits)
  with rest q show ?thesis
    by (intro aheadI [where cl = cl and new = new]) (simp_all add: assms(3) transfers_def)
qed

lemma ahead_serve:
  assumes inv: "ahead addr h old q0 b w" and i: "i < length (w_requests w)"
  shows "\<exists>w'. world_step addr w (Serve i) = Some w' \<and> ahead addr h old q0 b w'"
  using inv
proof (rule aheadE)
  fix cl :: client_dto and new
  let ?q = "sequence_number (w_client w)" and ?a = "inet_ntop (sin_addr addr)"
  assume wf: "server_wf (w_server w)" and cl: "account (w_server w) ?a = Some cl" "cl_last_req cl + 1 < q0"
    and reqs: "\<And>p. p \<in> set (w_requests w) \<Longrightarrow>
      \<exists>junk k dest v. p = request_packet junk k dest v \<and> in_i32 v \<and> in_i32 k \<and> q0 \<le> k"
    and new: "\<And>p. p \<in> set new \<Longrightarrow> refusal p"
    and rest: "in_i32 q0" "q0 \<le> ?q" "?q + int b < 2 ^ 31" "old = [] \<Longrightarrow> ?q = q0" "transfers addr w = h"
      "w_acks w = old @ new" "\<And>p. p \<in> set old \<Longrightarrow> some_reply p"
  obtain junk k dest v where p: "w_requests w ! i = request_packet junk k dest v" "in_i32 v" "in_i32 k" "q0 \<le> k"
    using reqs [OF nth_mem [OF i]] by blast
  let ?x = "asked_dest junk dest"
  from wf i p(1-3) obtain rp where rp: "world_step addr w (Serve i) =
      Some (w\<lparr>w_server := outcome (w_server w) ?a (inet_ntop ?x) v k, w_acks := w_acks w @ [ack_packet k rp]\<rparr>)"
    "rp_status rp = verdict (w_server w) ?a (inet_ntop ?x) v k" "canonical (rp_balance rp)" by (rule serve_step)
  have no: "verdict (w_server w) ?a (inet_ntop ?x) v k \<in> {ERROR_OUT_OF_SEQUENCE, ERROR_CLIENT_NOT_FOUND}"
    using cl(2) p(4) by (intro verdict_ahead [OF cl(1)]) simp
  then have r: "refusal (ack_packet k rp)"
    unfolding refusal_def using rp(2,3) p(3) by (intro exI [of _ k] exI [of _ rp]) simp
  have n: "verdict (w_server w) ?a (inet_ntop ?x) v k \<noteq> SUCCESS" using no by auto
  have "ahead addr h old q0 b
    (w\<lparr>w_server := outcome (w_server w) ?a (inet_ntop ?x) v k, w_acks := w_acks w @ [ack_packet k rp]\<rparr>)"
    using server_wf_outcome [OF wf p(2,3), of ?a "inet_ntop ?x"] n cl reqs new rest r
    by (intro aheadI [where cl = cl and new = "new @ [ack_packet k rp]"])
      (auto simp: transfers_def sent_by_outcome account_outcome)
  with rp(1) show ?thesis by blast
qed

lemma ahead_reply:
  assumes inv: "ahead addr h old q0 (Suc b) w" and i: "i < length (w_acks w)" and len: "length junk = PACKET_SIZE"
  shows "\<exists>w'. world_step addr w (Reply i junk sender fds dest v e) = Some w' \<and> ahead addr h old q0 b w'"
  using inv
proof (rule aheadE)
  fix cl :: client_dto and new
  let ?q = "sequence_number (w_client w)" and ?c = "w_client w"
  assume acks: "w_acks w = old @ new" "\<And>p. p \<in> set old \<Longrightarrow> some_reply p" "\<And>p. p \<in> set new \<Longrightarrow> refusal p"
    and bounds: "q0 \<le> ?q" "?q + int (Suc b) < 2 ^ 31" "old = [] \<Longrightarrow> ?q = q0" "in_i32 q0"
    and rest: "server_wf (w_server w)" "transfers addr w = h"
      "account (w_server w) (inet_ntop (sin_addr addr)) = Some cl" "cl_last_req cl + 1 < q0"
      "\<And>p. p \<in> set (w_requests w) \<Longrightarrow> \<exists>junk k dest v. p = request_packet junk k dest v \<and> in_i32 v \<and> in_i32 k \<and> q0 \<le> k"
  have keep: "ahead addr h old q0 b w" using ahead_budget [OF inv] by simp
  have "w_acks w ! i \<in> set old \<union> set new" using nth_mem [OF i] acks(1) by simp
  then have "some_reply (w_acks w ! i) \<and> (old = [] \<longrightarrow> refusal (w_acks w ! i))"
    using acks refusal_reply by auto
  then obtain k rp where ack: "w_acks w ! i = ack_packet k rp" "in_i32 k" "canonical (rp_balance rp)"
    and ref: "old = [] \<Longrightarrow> refusal (w_acks w ! i)" by (auto simp: some_reply_def)
  have none: "rp_status rp \<notin> {SUCCESS, ERROR_DUPLICATE_REQUEST}" if e: "old = []"
    using refusal_status [OF ref [OF e]] ack_status [OF ack(3), of k] by (auto simp: ack(1))
  let ?c' = "fst (handle_ack ?c fds dest v (data_ack (ack_packet k rp)) e)"
  note step = reply_step [OF i ack(1,3,2) ahead_number [OF inv] len, of addr sender fds dest v e]
  have "in_i32 (?q + 1)" using ahead_number [OF inv] bounds(2) by (simp add: in_i32_def)
  then have "sequence_number ?c' \<in> {?q, ?q + 1}" "old = [] \<Longrightarrow> sequence_number ?c' = ?q"
    using handle_ack_client [OF ack(3)] none by (auto simp: incrementSequenceNumber_def)
  then have "ahead addr h old q0 b (w\<lparr>w_client := ?c'\<rparr>)"
    using bounds rest acks
    by (intro aheadI [where cl = cl and new = new]) (auto simp: transfers_def)
  with keep show ?thesis unfolding step by auto
qed

interpretation stranded: budgeted_run "world_step addr" "event_ok addr" replies "ahead addr h old q0"
proof
  fix b w x assume inv: "ahead addr h old q0 b w" and ok: "event_ok addr x" and cost: "replies x \<le> b"
  show "\<exists>w'. world_step addr w x = Some w' \<and> ahead addr h old q0 (b - replies x) w'"
  proof (cases x)
    case (Request junk k dest v)
    then show ?thesis using ahead_request [OF inv _ refl] ok by (auto simp: Let_def)
  next
    case (Serve i)
    then show ?thesis using ahead_serve [OF inv, of i] inv by (cases "i < length (w_requests w)") auto
  next
    case (Others y)
    obtain cl where cl: "account (w_server w) (inet_ntop (sin_addr addr)) = Some cl" "cl_last_req cl + 1 < q0"
      and wf: "server_wf (w_server w)" using inv by (auto elim: aheadE)
    show ?thesis
      by (rule others_step [OF wf cl(1) ok [unfolded Others]])
        (use inv cl(2) in \<open>auto simp: Others ahead_def transfers_def Let_def\<close>)
  next
    case (Reply i junk sender fds dest v e)
    then obtain b' where b: "b = Suc b'" using cost by (cases b) auto
    show ?thesis
    proof (cases "i < length (w_acks w)")
      case True
      then show ?thesis
        using ahead_reply [OF inv [unfolded b] True] ok by (simp add: Reply b del: world_step.simps)
    next
      case False
      then show ?thesis using ahead_budget [OF inv] by (simp add: Reply)
    qed
  next
    case (Announced p sender)
    then show ?thesis using inv by (simp add: ahead_def transfers_def Let_def)
  qed
qed

text \<open>A client whose number is two or more ahead of the server's is never served again: whatever it
  sends and however often, whatever else happens, and whatever replies of an earlier primary still
  reach it, no transfer of it is executed, its number never goes back (and never changes when no
  such replies are on their way), and every reply of this server is a refusal; the number in the
  reply, which would put it right, is only printed. A primary that took over without the last
  updates leaves its clients there.\<close>

lemma client_ahead_never_served:
  assumes "server_wf s" "account s (inet_ntop (sin_addr addr)) = Some cl"
    and "cl_last_req cl + 1 < sequence_number c"
    and "sequence_number c + int (sum_list (map replies evs)) < 2 ^ 31"
    and "\<forall>p\<in>set old. some_reply p" "\<forall>x\<in>set evs. event_ok addr x"
  shows "\<exists>w new. world_run addr ((world_start s c)\<lparr>w_acks := old\<rparr>) evs = Some w \<and>
    sequence_number c \<le> sequence_number (w_client w) \<and>
    (old = [] \<longrightarrow> sequence_number (w_client w) = sequence_number c) \<and>
    transfers addr w = transfers addr (world_start s c) \<and> w_acks w = old @ new \<and>
    (\<forall>p\<in>set new. status_of_code (ntohl (ak_status (data_ack p))) \<in>
       {Some ERROR_OUT_OF_SEQUENCE, Some ERROR_CLIENT_NOT_FOUND})"
proof -
  have "in_i32 (sequence_number c)"
    using account_valid [OF assms(1,2)] assms(3,4) by (auto simp: valid_client_def in_i32_def)
  then have "ahead addr (transfers addr (world_start s c)) old (sequence_number c)
      (sum_list (map replies evs)) ((world_start s c)\<lparr>w_acks := old\<rparr>)"
    using assms(1-5)
    by (intro aheadI [where cl = cl and new = "[]"]) (auto simp: world_start_def transfers_def)
  then obtain w where w: "world_run addr ((world_start s c)\<lparr>w_acks := old\<rparr>) evs = Some w"
    "ahead addr (transfers addr (world_start s c)) old (sequence_number c) 0 w"
    using stranded.run_inv assms(6) by fastforce
  from w(2) show ?thesis
    by (rule aheadE) (use w(1) refusal_status in blast)
qed

end
