(* ===== verification/BankBook.thy ===== *)
theory BankBook
  imports BankTheorems
begin

text \<open>
  The bank as its clients see it: a book that maps each address to the last number and the balance,
  without vectors, iterators, counters and logs. The server, started in any well-formed state and
  given any sequence of registrations and requests, answers exactly as the book does.
\<close>

section \<open>The book\<close>

type_synonym book = "string \<rightharpoonup> int \<times> float32"

definition book_register :: "string \<Rightarrow> book \<Rightarrow> book" where
  "book_register ip m = (if m ip = None then m(ip \<mapsto> (0, INITIAL_BALANCE)) else m)"

definition book_transfer :: "string \<Rightarrow> string \<Rightarrow> int \<Rightarrow> int \<Rightarrow> book \<Rightarrow> book" where
  "book_transfer a b v q m =
     (let debit = (\<lambda>(n, x). (q, f32_sub x (f32_of_int v)));
          credit = (\<lambda>(n, x). (n, f32_add x (f32_of_int v)));
          m1 = m(a := map_option debit (m a))
      in m1(b := map_option credit (m1 b)))"

definition book_verdict :: "string \<Rightarrow> string \<Rightarrow> int \<Rightarrow> int \<Rightarrow> book \<Rightarrow> transaction_status" where
  "book_verdict a b v q m =
     (case (m a, m b) of
        (Some (n, x), Some _) \<Rightarrow>
          if q \<le> n then ERROR_DUPLICATE_REQUEST
          else if n + 1 < q then ERROR_OUT_OF_SEQUENCE
          else if f32_less x (f32_of_int v) then ERROR_INSUFFICIENT_FUNDS
          else SUCCESS
      | _ \<Rightarrow> ERROR_CLIENT_NOT_FOUND)"

definition book_reply :: "string \<Rightarrow> transaction_status \<Rightarrow> book \<Rightarrow> reply" where
  "book_reply a st m =
     (case m a of
        Some (n, x) \<Rightarrow> \<lparr>rp_status = st, rp_balance = x, rp_last_req = n\<rparr>
      | None \<Rightarrow> \<lparr>rp_status = st, rp_balance = whole (-1), rp_last_req = 0\<rparr>)"

fun book_step :: "book \<Rightarrow> bank_op \<Rightarrow> book \<times> reply option" where
  "book_step m (AddClient a) = (book_register (inet_ntop a) m, None)"
| "book_step m (Transact a b v q) =
     (let st = book_verdict (inet_ntop a) (inet_ntop b) v q m;
          m' = (if st = SUCCESS then book_transfer (inet_ntop a) (inet_ntop b) v q m else m)
      in (m', Some (book_reply (inet_ntop a) st m')))"

fun book_run :: "book \<Rightarrow> bank_op list \<Rightarrow> book \<times> reply option list" where
  "book_run m [] = (m, [])"
| "book_run m (x # xs) =
     (case book_step m x of (m1, r) \<Rightarrow> case book_run m1 xs of (m2, rs) \<Rightarrow> (m2, r # rs))"

section \<open>The server's replies\<close>

fun bank_reply :: "server \<Rightarrow> bank_op \<Rightarrow> (server \<times> reply option) option" where
  "bank_reply s (AddClient a) = Some (fst (addClient s (inet_ntop a)), None)"
| "bank_reply s (Transact a b v q) =
     map_option (\<lambda>(s', effs, r). (s', Some r)) (processTransaction s (inet_ntop a) b v q)"

fun bank_replies :: "server \<Rightarrow> bank_op list \<Rightarrow> (server \<times> reply option list) option" where
  "bank_replies s [] = Some (s, [])"
| "bank_replies s (x # xs) =
     (case bank_reply s x of
        None \<Rightarrow> None
      | Some (s1, r) \<Rightarrow> map_option (\<lambda>(s2, rs). (s2, r # rs)) (bank_replies s1 xs))"

definition book_of :: "server \<Rightarrow> book" where
  "book_of s = (\<lambda>ip. map_option (\<lambda>c. (cl_last_req c, cl_balance c)) (account s ip))"

section \<open>Simulation\<close>

lemma book_verdict_of:
  "verdict s a b v q = book_verdict a b v q (book_of s)"
  by (auto simp: verdict_def book_verdict_def book_of_def split: option.split)

lemma book_of_outcome:
  "book_of (outcome s a b v q) =
     (if verdict s a b v q = SUCCESS then book_transfer a b v q (book_of s) else book_of s)"
proof (cases "verdict s a b v q = SUCCESS")
  case True
  have "map_option (\<lambda>c. (cl_last_req c, cl_balance c)) (map_option (settle_row a b v q) (account s ip)) =
      book_transfer a b v q (book_of s) ip" for ip
  proof (cases "account s ip")
    case (Some c)
    then have "cl_address c = ip" by (rule account_address)
    with Some show ?thesis
      by (auto simp: book_transfer_def book_of_def settle_row_def Let_def)
  qed (auto simp: book_transfer_def book_of_def Let_def)
  with True show ?thesis by (simp add: book_of_def [of "outcome s a b v q"] account_outcome fun_eq_iff)
qed (simp add: book_of_def account_outcome)

lemma book_reply_of:
  "\<lparr>rp_status = st, rp_balance = balance_of s a, rp_last_req = last_req_of s a\<rparr> = book_reply a st (book_of s)"
  by (simp add: balance_of_def last_req_of_def book_reply_def book_of_def split: option.split)

lemma book_of_addClient:
  assumes "server_wf s"
  shows "book_of (fst (addClient s ip)) = book_register ip (book_of s)"
proof (cases "account s ip")
  case None
  with addClient_new [OF assms None] show ?thesis
    by (auto simp: book_of_def book_register_def new_client_def fun_eq_iff)
next
  case (Some c)
  then show ?thesis
    by (rule_tac wasClientAdded_cases [of s ip])
      (simp_all add: addClient_def book_of_def book_register_def)
qed

lemma bank_reply_book:
  assumes "server_wf s" "op_typed x"
  shows "\<exists>s'. bank_reply s x = Some (s', snd (book_step (book_of s) x)) \<and>
    book_of s' = fst (book_step (book_of s) x) \<and> server_wf s'"
proof (cases x)
  case (AddClient a)
  then show ?thesis using assms by (simp add: book_of_addClient server_wf_addClient)
next
  case (Transact a b v q)
  then have i: "in_i32 v" "in_i32 q" using assms(2) by simp_all
  show ?thesis
    using server_wf_outcome [OF assms(1) i]
    by (simp add: Transact processTransaction_eq [OF assms(1) i(2)] Let_def book_reply_of book_of_outcome
        flip: book_verdict_of)
qed

section \<open>The property\<close>

text \<open>C4. To its clients the bank is a map from addresses to numbers and balances: every sequence of
  registrations and requests, of any values and numbers, runs without an undefined step, the
  status, balance and last number of every reply are those of the map, and the accounts end up as
  the map has them.\<close>

theorem bank_answers_as_book:
  assumes "server_wf s" "\<forall>x\<in>set ops. op_typed x"
  shows "\<exists>s'. bank_replies s ops = Some (s', snd (book_run (book_of s) ops)) \<and>
    book_of s' = fst (book_run (book_of s) ops)"
  using assms
proof (induction ops arbitrary: s)
  case (Cons x ops)
  obtain s1 where s1: "bank_reply s x = Some (s1, snd (book_step (book_of s) x))"
    "book_of s1 = fst (book_step (book_of s) x)" "server_wf s1"
    using bank_reply_book [of s x] Cons.prems by auto
  then obtain s' where "bank_replies s1 ops = Some (s', snd (book_run (book_of s1) ops))"
    "book_of s' = fst (book_run (book_of s1) ops)" using Cons.IH [of s1] Cons.prems(2) by auto
  with s1 show ?case by (simp add: case_prod_beta)
qed simp

theorem bank_answers_as_book_witness:
  "\<exists>s'. bank_replies demo [Transact 1 2 100 1, AddClient 3, Transact 1 2 100 1, Transact 3 1 5000 1] =
     Some (s', snd (book_run (book_of demo) [Transact 1 2 100 1, AddClient 3, Transact 1 2 100 1, Transact 3 1 5000 1]))"
  using bank_answers_as_book [OF demo_wf,
      of "[Transact 1 2 100 1, AddClient 3, Transact 1 2 100 1, Transact 3 1 5000 1]"]
  by (simp add: in_i32_def del: book_run.simps bank_replies.simps) blast

end
