(* ===== verification/Cluster.thy ===== *)
theory Cluster
  imports ReplicaTheorems
begin

text \<open>
  The primary and any number of backups, with the packets that are on the way between them. The
  primary serves registrations and requests, sends heartbeats and lets backups join; what it
  sends to a backup waits in that backup's channel, from which the backup takes it whenever its
  receive loop gets there. \<open>registerBackup\<close> adds the address to \<open>backup_servers\<close> under the lock and
  sends its copy of the clients and of the history after it, packet by packet, so a request
  thread can put an update in between: \<open>fo_sending\<close> is what remains of the copy. Any server can
  register, also one that already holds accounts and a history, and a registered one can register
  again. A copy makes an empty backup equal to its primary, but it adds to what any other backup
  holds, and an update that goes out before the copy is sent overtakes it: \<open>fo_astray\<close> records that
  one of these has happened to a follower, of which nothing is claimed from then on.
\<close>

section \<open>The state\<close>

text \<open>A packet in a channel is tagged: \<open>True\<close> when it belongs to the copy sent at registration.\<close>

record follower =
  fo_addr :: sockaddr
  fo_server :: server
  fo_sending :: "packet list"
  fo_channel :: "(bool \<times> packet) list"
  fo_astray :: bool

record cluster =
  leader :: server
  followers :: "follower list"

text \<open>What is still to come for a follower, in the order in which it will take it.\<close>

definition incoming :: "follower \<Rightarrow> (bool \<times> packet) list" where
  "incoming f = fo_channel f @ map (Pair True) (fo_sending f)"

definition cluster_start :: "int \<Rightarrow> u32 \<Rightarrow> bool \<Rightarrow> sockaddr \<Rightarrow> cluster" where
  "cluster_start port ip al ad =
     \<lparr>leader = server_new port ip PRIMARY al ad, followers = []\<rparr>"

section \<open>Steps\<close>

text \<open>What the primary sends to a follower goes to the end of its channel.\<close>

definition hear :: "effect list \<Rightarrow> follower \<Rightarrow> follower" where
  "hear effs f =
     f\<lparr>fo_channel := fo_channel f @ map (Pair False) (sends_to (fo_addr f) effs)\<rparr>"

definition hear_update :: "effect list \<Rightarrow> follower \<Rightarrow> follower" where
  "hear_update effs f =
     (hear effs f)\<lparr>fo_astray :=
        fo_astray f \<or> fo_sending f \<noteq> [] \<and> sends_to (fo_addr f) effs \<noteq> []\<rparr>"

text \<open>A registered follower that registers again is sent a second copy, after what is left of the first.\<close>

definition hear_again :: "sockaddr \<Rightarrow> effect list \<Rightarrow> follower \<Rightarrow> follower" where
  "hear_again addr effs f =
     (if fo_addr f = addr
      then f\<lparr>fo_sending := fo_sending f @ sends_to addr effs, fo_astray := True\<rparr> else f)"

definition send_copy :: "follower \<Rightarrow> follower option" where
  "send_copy f =
     (case fo_sending f of
        [] \<Rightarrow> None
      | p # ps \<Rightarrow> Some (f\<lparr>fo_sending := ps, fo_channel := fo_channel f @ [(True, p)]\<rparr>))"

definition take_packet :: "sockaddr \<Rightarrow> follower \<Rightarrow> follower option" where
  "take_packet sender f =
     (case fo_channel f of
        [] \<Rightarrow> None
      | (t, p) # rest \<Rightarrow>
          map_option (\<lambda>(s, effs). f\<lparr>fo_server := s, fo_channel := rest\<rparr>)
            (server_receive (fo_server f) p sender))"

text \<open>The monitor thread of a follower at the head of its loop.\<close>

definition watch :: "follower \<Rightarrow> follower option" where
  "watch f = map_option (\<lambda>s. f\<lparr>fo_server := s\<rparr>) (monitor_arm (fo_server f))"

definition on_follower ::
    "nat \<Rightarrow> (follower \<Rightarrow> follower option) \<Rightarrow> cluster \<Rightarrow> cluster option" where
  "on_follower i g c =
     (if i < length (followers c)
      then map_option (\<lambda>f. c\<lparr>followers := (followers c)[i := f]\<rparr>) (g (followers c ! i))
      else None)"

datatype cluster_event =
    Serve bank_op
  | Beat
  | Join sockaddr server
  | Rejoin sockaddr
  | SendCopy nat
  | TakePacket nat
  | Watch nat

fun cluster_step :: "sockaddr \<Rightarrow> cluster \<Rightarrow> cluster_event \<Rightarrow> cluster option" where
  "cluster_step sender c (Serve x) =
     map_option (\<lambda>(s, effs). c\<lparr>leader := s, followers := map (hear_update effs) (followers c)\<rparr>)
       (bank_emit (leader c) x)"
| "cluster_step sender c Beat =
     map_option (\<lambda>effs. c\<lparr>followers := map (hear effs) (followers c)\<rparr>) (heartbeat_round (leader c))"
| "cluster_step sender c (Join addr b) =
     (if current_role (leader c) = PRIMARY \<and> addr \<notin> set (backup_servers (leader c))
      then (case registerBackup (leader c) addr of (s, effs) \<Rightarrow>
        Some (c\<lparr>leader := s,
                followers := followers c @
                  [\<lparr>fo_addr = addr, fo_server = b, fo_sending = sends_to addr effs,
                    fo_channel = [], fo_astray = \<not> fresh_backup b\<rparr>]\<rparr>))
      else None)"
| "cluster_step sender c (Rejoin addr) =
     (if current_role (leader c) = PRIMARY \<and> addr \<in> set (backup_servers (leader c))
      then (case registerBackup (leader c) addr of (s, effs) \<Rightarrow>
        Some (c\<lparr>leader := s, followers := map (hear_again addr effs) (followers c)\<rparr>))
      else None)"
| "cluster_step sender c (SendCopy i) = on_follower i send_copy c"
| "cluster_step sender c (TakePacket i) = on_follower i (take_packet sender) c"
| "cluster_step sender c (Watch i) = on_follower i watch c"

abbreviation cluster_run :: "sockaddr \<Rightarrow> cluster \<Rightarrow> cluster_event list \<Rightarrow> cluster option" where
  "cluster_run sender \<equiv> run_steps (cluster_step sender)"

text \<open>The honest requests and the bound on registrations under which the money is exact.\<close>

fun event_honest :: "cluster_event \<Rightarrow> bool" where
  "event_honest (Serve x) \<longleftrightarrow> op_honest x"
| "event_honest _ \<longleftrightarrow> True"

fun event_cost :: "cluster_event \<Rightarrow> nat" where
  "event_cost (Serve x) = registrations x"
| "event_cost _ = 0"

section \<open>Heartbeats change nothing that is replicated\<close>

definition same_but_alive :: "server \<Rightarrow> server \<Rightarrow> bool" where
  "same_but_alive s s' \<longleftrightarrow> s' = s\<lparr>primary_alive := primary_alive s'\<rparr>"

lemma same_but_alive_refl [simp]: "same_but_alive s s"
  by (simp add: same_but_alive_def)

lemma same_but_alive_trans: "same_but_alive s t \<Longrightarrow> same_but_alive t u \<Longrightarrow> same_but_alive s u"
  by (cases s; cases t; cases u) (simp add: same_but_alive_def)

lemma same_but_alive_update: "same_but_alive s (s\<lparr>primary_alive := v\<rparr>)"
  by (simp add: same_but_alive_def)

lemma same_but_aliveE:
  assumes "same_but_alive s s'" obtains v where "s' = s\<lparr>primary_alive := v\<rparr>"
  using assms by (auto simp: same_but_alive_def)

lemma handleStateUpdate_alive:
  "handleStateUpdate (s\<lparr>primary_alive := v\<rparr>) p =
     map_option (\<lambda>(s1, effs). (s1\<lparr>primary_alive := v\<rparr>, effs)) (handleStateUpdate s p)"
  by (cases s) (simp add: handleStateUpdate_def Let_def map_option_bind prod.case_distrib [of "map_option _"] comp_def)

lemma handleClientUpdate_alive:
  "handleClientUpdate (s\<lparr>primary_alive := v\<rparr>) p =
     (case handleClientUpdate s p of (s1, effs) \<Rightarrow> (s1\<lparr>primary_alive := v\<rparr>, effs))"
  by (cases s) (simp add: handleClientUpdate_def findClient_def Let_def)

lemma handleHistoryEntry_alive:
  "handleHistoryEntry (s\<lparr>primary_alive := v\<rparr>) p =
     (case handleHistoryEntry s p of (s1, effs) \<Rightarrow> (s1\<lparr>primary_alive := v\<rparr>, effs))"
  by (cases s) (simp add: handleHistoryEntry_def Let_def)

text \<open>The packets that a primary sends to its backups.\<close>

definition replication_traffic :: "packet \<Rightarrow> bool" where
  "replication_traffic p \<longleftrightarrow>
     packet_label p \<in> Some ` {STATE_UPDATE, ADD_CLIENT_UPDATE, ADD_HISTORY_ENTRY, HEARTBEAT}"

lemma server_receive_alive:
  assumes "replication_traffic p" "server_receive s p a = Some (s1, effs)"
  shows "\<exists>v'. server_receive (s\<lparr>primary_alive := v\<rparr>) p a = Some (s1\<lparr>primary_alive := v'\<rparr>, effs)"
proof -
  consider "packet_label p = Some STATE_UPDATE" | "packet_label p = Some ADD_CLIENT_UPDATE"
    | "packet_label p = Some ADD_HISTORY_ENTRY" | "packet_label p = Some HEARTBEAT"
    using assms(1) by (auto simp: replication_traffic_def)
  then show ?thesis
    using assms(2)
    by cases (auto simp: server_receive_def handleStateUpdate_alive handleClientUpdate_alive
        handleHistoryEntry_alive handleHeartbeatPacket_def split: if_splits prod.splits)
qed
lemma receive_all_alive:
  assumes "\<forall>p\<in>set ps. replication_traffic p" "receive_all s a ps = Some s1" "same_but_alive s t"
  shows "\<exists>t1. receive_all t a ps = Some t1 \<and> same_but_alive s1 t1"
  using assms
proof (induction ps arbitrary: s t)
  case (Cons p ps)
  obtain s2 effs where s2: "server_receive s p a = Some (s2, effs)" "receive_all s2 a ps = Some s1"
    using Cons.prems(2) by (auto simp: bind_eq_Some_conv)
  obtain v where "t = s\<lparr>primary_alive := v\<rparr>" using Cons.prems(3) by (rule same_but_aliveE)
  then obtain v' where "server_receive t p a = Some (s2\<lparr>primary_alive := v'\<rparr>, effs)"
    using server_receive_alive [OF _ s2(1)] Cons.prems(1) by auto
  with Cons.IH [OF _ s2(2) same_but_alive_update [of s2 v']] Cons.prems(1) show ?case by simp
qed simp

lemma receive_heartbeat:
  "\<exists>t. server_receive s (bare_packet HEARTBEAT) a = Some (t, []) \<and> same_but_alive s t"
  by (simp add: server_receive_def handleHeartbeatPacket_def same_but_alive_update)

text \<open>Heartbeats may come at any place of a stream.\<close>

lemma receive_heartbeats:
  "\<exists>t. receive_all s a (replicate n (bare_packet HEARTBEAT)) = Some t \<and> same_but_alive s t"
proof (induction n arbitrary: s)
  case (Suc n)
  obtain t where t: "server_receive s (bare_packet HEARTBEAT) a = Some (t, [])" "same_but_alive s t"
    using receive_heartbeat by blast
  then show ?case using Suc [of t] same_but_alive_trans by auto
qed simp

lemma receive_all_insert_heartbeats:
  assumes "\<forall>p\<in>set qs. replication_traffic p" "receive_all s a (ps @ qs) = Some s1"
  shows "\<exists>t1. receive_all s a (ps @ replicate n (bare_packet HEARTBEAT) @ qs) = Some t1 \<and> same_but_alive s1 t1"
proof -
  obtain s2 where s2: "receive_all s a ps = Some s2" "receive_all s2 a qs = Some s1"
    using assms(2) by (auto simp: receive_all_append bind_eq_Some_conv)
  obtain t where "receive_all s2 a (replicate n (bare_packet HEARTBEAT)) = Some t" "same_but_alive s2 t"
    using receive_heartbeats by blast
  with receive_all_alive [OF assms(1) s2(2)] s2(1) show ?thesis by (auto simp: receive_all_append)
qed

section \<open>The invariant of a follower\<close>

text \<open>What a backup holds when it is up with a state of the primary.\<close>

definition holds :: "server \<Rightarrow> server \<Rightarrow> bool" where
  "holds p b \<longleftrightarrow> replica_of p b \<and> current_role b = BACKUP \<and> table_wf cl_address (clients b)"

lemma holds_alive: "same_but_alive b b' \<Longrightarrow> holds p b \<Longrightarrow> holds p b'"
  by (erule same_but_aliveE) (simp add: holds_def replica_of_def)

lemma replicating_holds:
  "replicating addr (p, b) \<longleftrightarrow>
     server_wf p \<and> dotted_clients p \<and> current_role p = PRIMARY \<and>
     count_list (backup_servers p) addr = 1 \<and> holds p b"
  by (auto simp: replicating_def holds_def)

text \<open>
  A follower that has not gone astray: everything that is on the way makes it hold the
  primary's present state, and, as soon as the copy is in, each packet it takes makes it hold a
  state that the primary has been in (\<open>past\<close>).
\<close>

definition follows :: "sockaddr \<Rightarrow> server set \<Rightarrow> server \<Rightarrow> follower \<Rightarrow> bool" where
  "follows sender past p f \<longleftrightarrow>
     (\<forall>m\<in>set (incoming f). replication_traffic (snd m)) \<and>
     (\<exists>b. receive_all (fo_server f) sender (map snd (incoming f)) = Some b \<and>
          replicating (fo_addr f) (p, b)) \<and>
     (\<forall>pre post. incoming f = pre @ post \<and> (\<forall>m\<in>set post. \<not> fst m) \<longrightarrow>
        (\<exists>b p0. p0 \<in> past \<and> receive_all (fo_server f) sender (map snd pre) = Some b \<and> holds p0 b))"

definition follower_ok :: "sockaddr \<Rightarrow> server set \<Rightarrow> server \<Rightarrow> follower \<Rightarrow> bool" where
  "follower_ok sender past p f \<longleftrightarrow> fo_astray f \<or> follows sender past p f"

lemma followsE:
  assumes "follows sender past p f"
  obtains b where "receive_all (fo_server f) sender (map snd (incoming f)) = Some b"
    "replicating (fo_addr f) (p, b)" "\<forall>m\<in>set (incoming f). replication_traffic (snd m)"
  using assms by (auto simp: follows_def)

lemma follows_past:
  assumes "follows sender past p f" "incoming f = pre @ post" "\<forall>m\<in>set post. \<not> fst m"
  obtains b p0 where "p0 \<in> past" "receive_all (fo_server f) sender (map snd pre) = Some b" "holds p0 b"
  using assms unfolding follows_def by blast

text \<open>A step of the primary's that sends nothing to this follower.\<close>

lemma follows_silent:
  assumes f: "follows sender past p f" and "past \<subseteq> past'"
    and "fo_server f' = fo_server f" "incoming f' = incoming f" "fo_addr f' = fo_addr f"
    and rep: "\<And>b. replicating (fo_addr f) (p, b) \<Longrightarrow> replicating (fo_addr f) (p', b)"
  shows "follows sender past' p' f'"
proof -
  obtain b where "receive_all (fo_server f) sender (map snd (incoming f)) = Some b"
    "replicating (fo_addr f) (p, b)" "\<forall>m\<in>set (incoming f). replication_traffic (snd m)"
    using f by (rule followsE)
  moreover have "\<exists>b p0. p0 \<in> past' \<and> receive_all (fo_server f) sender (map snd pre) = Some b \<and> holds p0 b"
    if "incoming f = pre @ post" "\<forall>m\<in>set post. \<not> fst m" for pre post
    using f that by (rule follows_past) (use assms(2) in blast)
  ultimately show ?thesis using rep [of b] by (simp add: follows_def assms(3-5))
qed

text \<open>An update that goes to the end of what is on the way.\<close>

lemma follows_update:
  assumes f: "follows sender past p f" and past: "past \<subseteq> past'" "p' \<in> past'"
    and f': "fo_server f' = fo_server f" "incoming f' = incoming f @ [(False, m)]" "fo_addr f' = fo_addr f"
    and m: "replication_traffic m"
    and rep: "\<And>b. replicating (fo_addr f) (p, b) \<Longrightarrow>
      \<exists>b'. receive_all b sender [m] = Some b' \<and> replicating (fo_addr f) (p', b')"
  shows "follows sender past' p' f'"
proof -
  obtain b where b: "receive_all (fo_server f) sender (map snd (incoming f)) = Some b"
    "replicating (fo_addr f) (p, b)" "\<forall>m\<in>set (incoming f). replication_traffic (snd m)"
    using f by (rule followsE)
  obtain b' where b': "receive_all b sender [m] = Some b'" "replicating (fo_addr f) (p', b')"
    using rep [OF b(2)] by blast
  have all: "receive_all (fo_server f) sender (map snd (incoming f')) = Some b'"
    using b(1) b'(1) by (simp add: f' receive_all_append)
  have "\<exists>b p0. p0 \<in> past' \<and> receive_all (fo_server f) sender (map snd pre) = Some b \<and> holds p0 b"
    if "incoming f' = pre @ post" "\<forall>m\<in>set post. \<not> fst m" for pre post
  proof (cases post rule: rev_cases)
    case Nil
    with that all b'(2) past(2) show ?thesis by (auto simp: replicating_holds)
  next
    case (snoc post0 x)
    with that f'(2) have "incoming f = pre @ post0" "\<forall>m\<in>set post0. \<not> fst m" by simp_all
    with f obtain b0 p0 where "p0 \<in> past" "receive_all (fo_server f) sender (map snd pre) = Some b0" "holds p0 b0"
      by (rule follows_past)
    with past(1) show ?thesis by blast
  qed
  with all b'(2) b(3) m show ?thesis by (auto simp: follows_def f')
qed

text \<open>The follower takes the next packet: the code never goes wrong on it.\<close>

lemma follows_receive:
  assumes f: "follows sender past p f" and m: "incoming f = (t, m) # rest"
  obtains s effs where "server_receive (fo_server f) m sender = Some (s, effs)"
    "\<And>f'. \<lbrakk>fo_server f' = s; incoming f' = rest; fo_addr f' = fo_addr f\<rbrakk> \<Longrightarrow> follows sender past p f'"
proof -
  obtain b where b: "receive_all (fo_server f) sender (map snd (incoming f)) = Some b"
    "replicating (fo_addr f) (p, b)" "\<forall>m\<in>set (incoming f). replication_traffic (snd m)"
    using f by (rule followsE)
  then obtain s effs where s: "server_receive (fo_server f) m sender = Some (s, effs)"
    "receive_all s sender (map snd rest) = Some b"
    by (auto simp: m bind_eq_Some_conv)
  have "follows sender past p f'"
    if "fo_server f' = s" "incoming f' = rest" "fo_addr f' = fo_addr f" for f'
    unfolding follows_def that
  proof (intro conjI allI impI)
    fix pre post assume "rest = pre @ post \<and> (\<forall>m\<in>set post. \<not> fst m)"
    then have "incoming f = ((t, m) # pre) @ post" "\<forall>m\<in>set post. \<not> fst m" by (simp_all add: m)
    with f obtain b0 p0 where "p0 \<in> past" "holds p0 b0"
      "receive_all (fo_server f) sender (map snd ((t, m) # pre)) = Some b0" by (rule follows_past)
    with s(1) show "\<exists>b p0. p0 \<in> past \<and> receive_all s sender (map snd pre) = Some b \<and> holds p0 b" by auto
  qed (use b s m in auto)
  with s(1) show ?thesis by (rule that)
qed

text \<open>The follower's own threads touch only the flag of the failure detector.\<close>

lemma follows_alive:
  assumes f: "follows sender past p f"
    and f': "same_but_alive (fo_server f) (fo_server f')" "incoming f' = incoming f" "fo_addr f' = fo_addr f"
  shows "follows sender past p f'"
proof -
  obtain b where b: "receive_all (fo_server f) sender (map snd (incoming f)) = Some b"
    "replicating (fo_addr f) (p, b)" "\<forall>m\<in>set (incoming f). replication_traffic (snd m)"
    using f by (rule followsE)
  have lift: "\<exists>b'. receive_all (fo_server f') sender (map snd pre) = Some b' \<and> same_but_alive b0 b'"
    if "receive_all (fo_server f) sender (map snd pre) = Some b0" "set pre \<subseteq> set (incoming f)" for pre b0
    using that b(3) f'(1) by (intro receive_all_alive [where s = "fo_server f"]) auto
  have "\<exists>b p0. p0 \<in> past \<and> receive_all (fo_server f') sender (map snd pre) = Some b \<and> holds p0 b"
    if split: "incoming f = pre @ post" "\<forall>m\<in>set post. \<not> fst m" for pre post
  proof -
    obtain b0 p0 where "p0 \<in> past" "receive_all (fo_server f) sender (map snd pre) = Some b0" "holds p0 b0"
      using f split by (rule follows_past)
    with lift [of pre b0] split holds_alive show ?thesis by fastforce
  qed
  moreover obtain b' where "receive_all (fo_server f') sender (map snd (incoming f)) = Some b'"
    "same_but_alive b b'" using lift [OF b(1)] by blast
  ultimately show ?thesis
    using b holds_alive by (auto simp: follows_def f' replicating_holds)
qed

text \<open>Heartbeats go behind what is in the channel and before the rest of the copy.\<close>

lemma follows_beat:
  assumes f: "follows sender past p f"
    and f': "fo_server f' = fo_server f" "fo_addr f' = fo_addr f" "fo_sending f' = fo_sending f"
      "fo_channel f' = fo_channel f @ replicate n (False, bare_packet HEARTBEAT)"
  shows "follows sender past p f'"
proof -
  let ?hbs = "replicate n (bare_packet HEARTBEAT)" and ?copy = "map (Pair True) (fo_sending f)"
  have inc: "incoming f = fo_channel f @ ?copy"
    "incoming f' = fo_channel f @ map (Pair False) ?hbs @ ?copy" by (simp_all add: incoming_def f')
  obtain b where b: "receive_all (fo_server f) sender (map snd (incoming f)) = Some b"
    "replicating (fo_addr f) (p, b)" "\<forall>m\<in>set (incoming f). replication_traffic (snd m)"
    using f by (rule followsE)
  have insert: "\<exists>b'. receive_all (fo_server f) sender (map snd (xs @ map (Pair False) (replicate k (bare_packet HEARTBEAT)) @ ys)) = Some b' \<and>
      same_but_alive b0 b'"
    if "receive_all (fo_server f) sender (map snd (xs @ ys)) = Some b0" "set ys \<subseteq> set (incoming f)" for xs ys b0 k
    using that b(3) receive_all_insert_heartbeats [of "map snd ys" "fo_server f" sender "map snd xs" b0 k]
    by (auto simp: comp_def)
  have whole: "\<exists>b p0. p0 \<in> past \<and> receive_all (fo_server f) sender (map snd (incoming f)) = Some b \<and> holds p0 b"
    using follows_past [OF f, of "incoming f" "[]"] by (metis append_Nil2 empty_iff empty_set)
  have "\<exists>b p0. p0 \<in> past \<and> receive_all (fo_server f) sender (map snd pre) = Some b \<and> holds p0 b"
    if split: "incoming f' = pre @ post" "\<forall>m\<in>set post. \<not> fst m" for pre post
  proof (cases "post = []")
    case True
    with insert [of "fo_channel f" ?copy _ n] whole inc split holds_alive show ?thesis by fastforce
  next
    case False
    then have "last (incoming f') \<in> set post" using split(1) by simp
    then have "fo_sending f = []" using split(2) by (auto simp: inc(2) last_append last_map split: if_splits)
    then consider us where "fo_channel f = pre @ us" "post = us @ map (Pair False) ?hbs"
      | us where "pre = fo_channel f @ us" "map (Pair False) ?hbs = us @ post"
      using split(1) by (auto simp: inc append_eq_append_conv2)
    then show ?thesis
    proof cases
      case 1
      with split(2) have "incoming f = pre @ us" "\<forall>m\<in>set us. \<not> fst m"
        using \<open>fo_sending f = []\<close> by (simp_all add: inc)
      with f obtain b0 p0 where "p0 \<in> past" "receive_all (fo_server f) sender (map snd pre) = Some b0" "holds p0 b0"
        by (rule follows_past)
      then show ?thesis by blast
    next
      case 2
      then have us: "us = map (Pair False) (replicate (length us) (bare_packet HEARTBEAT))"
        by (metis append_eq_conv_conj length_map length_replicate map_replicate take_replicate)
      with insert [of "fo_channel f" "[]" _ "length us"] whole 2(1) \<open>fo_sending f = []\<close> inc holds_alive
      show ?thesis by fastforce
    qed
  qed
  moreover obtain b' where "receive_all (fo_server f) sender (map snd (incoming f')) = Some b'" "same_but_alive b b'"
    using insert [of "fo_channel f" ?copy b n] b(1) inc by auto
  ultimately show ?thesis
    using b holds_alive by (auto simp: follows_def f' inc replicating_holds replication_traffic_def)
qed

section \<open>The invariant of the cluster\<close>

lemma sends_to_Notify_list [simp]: "sends_to a (WriterLock # es) = sends_to a es"
  by simp

lemma bank_emit_sends:
  assumes "server_wf p" "op_typed x" "bank_emit p x = Some (p', effs)"
  obtains "sends_to a effs = []"
  | m where "sends_to a effs = replicate (count_list (backup_servers p) a) m" "replication_traffic m"
proof (cases x)
  case (AddClient ip)
  show ?thesis
  proof (rule wasClientAdded_cases [of p "inet_ntop ip"])
    fix c assume "wasClientAdded p (inet_ntop ip) = (p, [], False)"
    then show ?thesis using assms(3) AddClient that(1) by (auto simp: addClient_def)
  next
    fix p1 sends
    let ?c = "new_client (inet_ntop ip)"
    assume "wasClientAdded p (inet_ntop ip) = (p1, sends, True)"
      and "p1 = p\<lparr>clients := push_back (clients p) ?c,
        total_balance := add_balance (total_balance p) INITIAL_BALANCE\<rparr>"
      and "sends = (if current_role p = PRIMARY then propagateClientAddition p1 ?c else [])"
    then show ?thesis using assms(3) AddClient that(1) that(2) [of "client_update_packet ?c"]
      by (auto simp: addClient_def propagateClientAddition_def replication_traffic_def split: if_splits)
  qed
next
  case (Transact s d v q)
  let ?o = "outcome p (inet_ntop s) (inet_ntop d) v q" and ?v = "verdict p (inet_ntop s) (inet_ntop d) v q"
  have e: "sends_to a effs = sends_to a (propagated ?o (inet_ntop s) (inet_ntop d) ?v)"
    using assms Transact by (auto simp: processTransaction_eq Let_def)
  show ?thesis
    using propagated_send_all [of ?o "inet_ntop s" "inet_ntop d" ?v]
  proof
    assume "\<exists>c d'. propagated ?o (inet_ntop s) (inet_ntop d) ?v =
        send_all (state_update_packet (last (transaction_history ?o)) c d') (backup_servers ?o)"
    then obtain c d' where "propagated ?o (inet_ntop s) (inet_ntop d) ?v =
        send_all (state_update_packet (last (transaction_history ?o)) c d') (backup_servers ?o)" by blast
    then have "sends_to a effs =
        replicate (count_list (backup_servers p) a) (state_update_packet (last (transaction_history ?o)) c d')"
      by (simp add: e outcome_frame)
    then show ?thesis by (rule that(2)) (simp add: replication_traffic_def)
  qed (simp add: e that(1))
qed

lemma ledger_inv_fewer: "ledger_inv n s \<Longrightarrow> k \<le> n \<Longrightarrow> ledger_inv k s"
  by (auto simp: ledger_inv_def)

lemma ledger_inv_backups [simp]: "ledger_inv n (s\<lparr>backup_servers := bs\<rparr>) = ledger_inv n s"
  by (simp add: ledger_inv_def server_wf_def account_def ledger_sum_def client_count_def)

lemma replicating_registered:
  assumes "replicating addr (p, b)" "addr' \<noteq> addr"
  shows "replicating addr (fst (registerBackup p addr'), b)"
  using assms by (simp add: replicating_def registerBackup_def server_wf_def dotted_clients_def replica_of_def)

lemma hear_simps [simp]:
  "fo_server (hear effs f) = fo_server f" "fo_addr (hear effs f) = fo_addr f"
  "fo_sending (hear effs f) = fo_sending f" "fo_astray (hear effs f) = fo_astray f"
  by (simp_all add: hear_def)

lemma incoming_hear:
  "fo_sending f = [] \<Longrightarrow> incoming (hear effs f) = incoming f @ map (Pair False) (sends_to (fo_addr f) effs)"
  by (simp add: incoming_def hear_def)

text \<open>A request or a registration that the primary serves.\<close>

lemma follower_ok_serve:
  assumes ok: "follower_ok sender past p f" and past: "past \<subseteq> past'" "p' \<in> past'"
    and x: "op_typed x" "bank_emit p x = Some (p', effs)" and wf: "server_wf p"
  shows "follower_ok sender past' p' (hear_update effs f)"
proof (cases "fo_astray (hear_update effs f)")
  case False
  then have f: "follows sender past p f" and n: "fo_sending f = [] \<or> sends_to (fo_addr f) effs = []"
    using ok by (auto simp: hear_update_def follower_ok_def)
  have step: "\<exists>b'. receive_all b sender (sends_to (fo_addr f) effs) = Some b' \<and> replicating (fo_addr f) (p', b')"
    if "replicating (fo_addr f) (p, b)" for b
    using replicated_runs.step_inv [OF that x(1), of 0 sender] x(2)
    by (auto simp: pair_step_def bind_eq_Some_conv)
  obtain b where "replicating (fo_addr f) (p, b)" using f by (rule followsE)
  then have one: "count_list (backup_servers p) (fo_addr f) = 1" by (simp add: replicating_def)
  have "follows sender past' p' (hear_update effs f)"
  proof (rule bank_emit_sends [OF wf x, of "fo_addr f"])
    assume "sends_to (fo_addr f) effs = []"
    then show ?thesis using step past(1)
      by (intro follows_silent [OF f]) (simp_all add: hear_update_def incoming_def hear_def)
  next
    fix m assume m: "sends_to (fo_addr f) effs = replicate (count_list (backup_servers p) (fo_addr f)) m"
      "replication_traffic m"
    with n one have s: "fo_sending f = []" "sends_to (fo_addr f) effs = [m]" by simp_all
    show ?thesis
    proof (rule follows_update [OF f past _ _ _ m(2)])
      show "incoming (hear_update effs f) = incoming f @ [(False, m)]"
        using incoming_hear [OF s(1), of effs] s(2) by (simp add: hear_update_def incoming_def)
    qed (use step s in \<open>simp_all add: hear_update_def\<close>)
  qed
  then show ?thesis by (simp add: follower_ok_def)
qed (simp add: follower_ok_def)

lemma follower_ok_beat:
  assumes ok: "follower_ok sender past p f" and effs: "heartbeat_round p = Some effs"
  shows "follower_ok sender past p (hear effs f)"
proof (cases "fo_astray f")
  case False
  then have f: "follows sender past p f" using ok by (simp add: follower_ok_def)
  have "sends_to (fo_addr f) effs = replicate (count_list (backup_servers p) (fo_addr f)) (bare_packet HEARTBEAT)"
    using effs by (auto simp: heartbeat_round_def split: if_splits)
  then have "follows sender past p (hear effs f)"
    by (intro follows_beat [OF f]) (simp_all add: hear_def)
  then show ?thesis by (simp add: follower_ok_def)
qed (simp add: follower_ok_def)

text \<open>\<open>past\<close> are the states that the primary has been in.\<close>

definition cluster_inv :: "sockaddr \<Rightarrow> server set \<Rightarrow> nat \<Rightarrow> cluster \<Rightarrow> bool" where
  "cluster_inv sender past n c \<longleftrightarrow>
     ledger_inv n (leader c) \<and> current_role (leader c) = PRIMARY \<and> leader c \<in> past \<and>
     (\<forall>p\<in>past. ledger_inv n p) \<and>
     (\<forall>f\<in>set (followers c). fo_addr f \<in> set (backup_servers (leader c)) \<and>
        follower_ok sender past (leader c) f)"

lemma cluster_inv_start: "cluster_inv sender {server_new port ip PRIMARY al ad} CLIENT_LIMIT (cluster_start port ip al ad)"
  using ledger_inv_new [of port ip PRIMARY al ad]
  by (auto simp: cluster_inv_def cluster_start_def server_new_def)

lemma cluster_inv_on_follower:
  assumes inv: "cluster_inv sender past n c" and r: "on_follower i g c = Some c'"
    and g: "\<And>f f'. follower_ok sender past (leader c) f \<Longrightarrow> g f = Some f' \<Longrightarrow>
      fo_addr f' = fo_addr f \<and> follower_ok sender past (leader c) f'"
  shows "leader c' = leader c \<and> cluster_inv sender past n c'"
proof -
  obtain f' where i: "i < length (followers c)" and f': "g (followers c ! i) = Some f'"
    and c': "c' = c\<lparr>followers := (followers c)[i := f']\<rparr>"
    using r by (auto simp: on_follower_def split: if_splits)
  have "fo_addr f' = fo_addr (followers c ! i) \<and> follower_ok sender past (leader c) f'"
    using g [OF _ f'] inv nth_mem [OF i] by (simp add: cluster_inv_def)
  moreover have "fo_addr (followers c ! i) \<in> set (backup_servers (leader c))"
    using inv nth_mem [OF i] by (simp add: cluster_inv_def)
  ultimately show ?thesis
    using inv set_update_subset_insert [of "followers c" i f']
    by (auto simp: cluster_inv_def c')
qed

lemma follower_ok_send_copy:
  assumes "follower_ok sender past p f" "send_copy f = Some f'"
  shows "fo_addr f' = fo_addr f \<and> follower_ok sender past p f'"
proof -
  obtain m ms where m: "fo_sending f = m # ms"
    and f': "f' = f\<lparr>fo_sending := ms, fo_channel := fo_channel f @ [(True, m)]\<rparr>"
    using assms(2) by (auto simp: send_copy_def split: list.splits)
  have "incoming f' = incoming f" by (simp add: f' m incoming_def)
  then show ?thesis using assms(1) by (auto simp: follower_ok_def follows_def f')
qed

lemma follower_ok_take:
  assumes "follower_ok sender past p f" "take_packet sender f = Some f'"
  shows "fo_addr f' = fo_addr f \<and> follower_ok sender past p f'"
proof -
  obtain t m rest s effs where c: "fo_channel f = (t, m) # rest"
    and s: "server_receive (fo_server f) m sender = Some (s, effs)"
    and f': "f' = f\<lparr>fo_server := s, fo_channel := rest\<rparr>"
    using assms(2) by (auto simp: take_packet_def split: list.splits)
  have m: "incoming f = (t, m) # incoming f'" by (simp add: incoming_def c f')
  have "follows sender past p f'" if f: "follows sender past p f"
  proof (rule follows_receive [OF f m])
    fix s1 e1
    assume "server_receive (fo_server f) m sender = Some (s1, e1)"
      and next_f: "\<And>g. \<lbrakk>fo_server g = s1; incoming g = incoming f'; fo_addr g = fo_addr f\<rbrakk> \<Longrightarrow>
        follows sender past p g"
    with s show ?thesis by (intro next_f) (simp_all add: f')
  qed
  then show ?thesis using assms(1) by (auto simp: follower_ok_def f')
qed

lemma follower_ok_watch:
  assumes "follower_ok sender past p f" "watch f = Some f'"
  shows "fo_addr f' = fo_addr f \<and> follower_ok sender past p f'"
proof -
  have f': "f' = f\<lparr>fo_server := (fo_server f)\<lparr>primary_alive := False\<rparr>\<rparr>"
    using assms(2) by (auto simp: watch_def monitor_arm_def split: if_splits)
  have "follows sender past p f \<Longrightarrow> follows sender past p f'"
    by (erule follows_alive) (simp_all add: f' incoming_def same_but_alive_update)
  then show ?thesis using assms(1) by (auto simp: follower_ok_def f')
qed

lemma follower_ok_silent:
  assumes ok: "follower_ok sender past p f" and "past \<subseteq> past'"
    and "\<And>b. replicating (fo_addr f) (p, b) \<Longrightarrow> replicating (fo_addr f) (p', b)"
  shows "follower_ok sender past' p' f"
  using ok follows_silent [OF _ assms(2) refl refl refl assms(3)] by (auto simp: follower_ok_def)

lemma follower_ok_new:
  assumes "ledger_inv n p" "current_role p = PRIMARY" "addr \<notin> set (backup_servers p)"
    and reg: "registerBackup p addr = (p', effs)" and "p' \<in> past"
  shows "follower_ok sender past p'
    \<lparr>fo_addr = addr, fo_server = b, fo_sending = sends_to addr effs, fo_channel = [], fo_astray = \<not> fresh_backup b\<rparr>"
proof (cases "fresh_backup b")
  case True
  have e: "sends_to addr effs = snapshot_packets p" "p' = fst (registerBackup p addr)"
    using sends_to_registerBackup [of addr p] by (simp_all add: reg)
  obtain b' where b': "receive_all b sender (snapshot_packets p) = Some b'" "replicating addr (p', b')"
    using registered_replica [OF assms(1-3) True] e(2) by blast
  have "\<forall>m\<in>set (snapshot_packets p). replication_traffic m"
    by (auto simp: snapshot_packets_def replication_traffic_def)
  moreover have "\<exists>b2 p0. p0 \<in> past \<and> receive_all b sender (map snd pre) = Some b2 \<and> holds p0 b2"
    if "map (Pair True) (snapshot_packets p) = pre @ post" "\<forall>m\<in>set post. \<not> fst m" for pre post
  proof -
    have "post = []" using that by (cases post) (auto simp: map_eq_append_conv)
    then have "pre = map (Pair True) (snapshot_packets p)" using that(1) by simp
    then have "map snd pre = snapshot_packets p" by (simp add: comp_def)
    then show ?thesis using b' assms(5) by (auto simp: replicating_holds)
  qed
  ultimately show ?thesis
    using b' by (simp add: follower_ok_def follows_def incoming_def e(1) comp_def)
qed (simp add: follower_ok_def)

lemma bank_emit_frame:
  assumes "server_wf p" "op_typed x" "bank_emit p x = Some (p', effs)"
  shows "current_role p' = current_role p \<and> backup_servers p' = backup_servers p"
proof (cases x)
  case (AddClient a)
  then show ?thesis
    using assms(3) by (rule_tac wasClientAdded_cases [of p "inet_ntop a"]) (auto simp: addClient_def)
next
  case (Transact a b v q)
  then show ?thesis using assms by (auto simp: processTransaction_eq outcome_frame Let_def)
qed

text \<open>One lemma for each kind of step.\<close>

lemma cluster_invD:
  assumes "cluster_inv sender past n c"
  shows "ledger_inv n (leader c)" "current_role (leader c) = PRIMARY" "leader c \<in> past"
    "p \<in> past \<Longrightarrow> ledger_inv n p"
    "f \<in> set (followers c) \<Longrightarrow> fo_addr f \<in> set (backup_servers (leader c))"
    "f \<in> set (followers c) \<Longrightarrow> follower_ok sender past (leader c) f"
  using assms by (simp_all add: cluster_inv_def)

lemma cluster_inv_serve:
  assumes inv: "cluster_inv sender past n c" and x: "op_honest x" "registrations x \<le> n"
    and b: "bank_emit (leader c) x = Some (p', effs)"
  shows "cluster_inv sender (insert p' past) (n - registrations x)
    (c\<lparr>leader := p', followers := map (hear_update effs) (followers c)\<rparr>)"
proof -
  note D = cluster_invD [OF inv]
  note wf = ledger_inv_wf [OF D(1)] and t = op_honest_typed [OF x(1)]
  have l: "ledger_inv (n - registrations x) p'"
    using honest_runs.step_inv [OF D(1) x] b by (auto simp: bank_step_def simp del: bank_step_simps)
  have frame: "current_role p' = PRIMARY" "backup_servers p' = backup_servers (leader c)"
    using bank_emit_frame [OF wf t b] D(2) by simp_all
  have "fo_addr (hear_update effs f) \<in> set (backup_servers p') \<and>
      follower_ok sender (insert p' past) p' (hear_update effs f)" if "f \<in> set (followers c)" for f
    using follower_ok_serve [OF D(6) [OF that] _ _ t b wf, of "insert p' past"] D(5) [OF that] frame
    by (auto simp: hear_update_def)
  moreover have "ledger_inv (n - registrations x) q" if "q \<in> past" for q
    using D(4) [OF that] by (rule ledger_inv_fewer) simp
  ultimately show ?thesis using l frame(1) by (auto simp: cluster_inv_def)
qed

lemma cluster_inv_beat:
  assumes inv: "cluster_inv sender past n c" and e: "heartbeat_round (leader c) = Some effs"
  shows "cluster_inv sender past n (c\<lparr>followers := map (hear effs) (followers c)\<rparr>)"
proof -
  note D = cluster_invD [OF inv]
  have "fo_addr (hear effs f) \<in> set (backup_servers (leader c)) \<and>
      follower_ok sender past (leader c) (hear effs f)" if "f \<in> set (followers c)" for f
    using follower_ok_beat [OF D(6) [OF that] e] D(5) [OF that] by simp
  then show ?thesis using D(1-4) by (auto simp: cluster_inv_def)
qed

lemma cluster_inv_join:
  assumes inv: "cluster_inv sender past n c"
    and a: "addr \<notin> set (backup_servers (leader c))"
    and reg: "registerBackup (leader c) addr = (p', effs)"
  shows "cluster_inv sender (insert p' past) n (c\<lparr>leader := p', followers := followers c @
    [\<lparr>fo_addr = addr, fo_server = b, fo_sending = sends_to addr effs, fo_channel = [],
      fo_astray = \<not> fresh_backup b\<rparr>]\<rparr>)"
proof -
  note D = cluster_invD [OF inv]
  have p': "p' = (leader c)\<lparr>backup_servers := backup_servers (leader c) @ [addr]\<rparr>"
    using reg by (simp add: registerBackup_def)
  have f: "fo_addr f \<in> set (backup_servers p') \<and> follower_ok sender (insert p' past) p' f"
    if "f \<in> set (followers c)" for f
  proof
    have "fo_addr f \<noteq> addr" using D(5) [OF that] a by auto
    then show "follower_ok sender (insert p' past) p' f"
      using replicating_registered [of "fo_addr f" "leader c" _ addr] reg
      by (intro follower_ok_silent [OF D(6) [OF that]]) auto
  qed (use D(5) [OF that] in \<open>simp add: p'\<close>)
  have l: "ledger_inv n p'" "current_role p' = PRIMARY" "addr \<in> set (backup_servers p')"
    using D(1,2) by (simp_all add: p')
  note new = follower_ok_new [OF D(1,2) a reg, of "insert p' past" sender b]
  have "ledger_inv n q" if "q \<in> insert p' past" for q using that l(1) D(4) by blast
  then show ?thesis using f l new by (simp add: cluster_inv_def ball_Un)
qed

lemma cluster_inv_rejoin:
  assumes inv: "cluster_inv sender past n c" and reg: "registerBackup (leader c) addr = (p', effs)"
  shows "cluster_inv sender (insert p' past) n
    (c\<lparr>leader := p', followers := map (hear_again addr effs) (followers c)\<rparr>)"
proof -
  note D = cluster_invD [OF inv]
  have p': "p' = (leader c)\<lparr>backup_servers := backup_servers (leader c) @ [addr]\<rparr>"
    using reg by (simp add: registerBackup_def)
  have f: "fo_addr (hear_again addr effs f) \<in> set (backup_servers p') \<and>
      follower_ok sender (insert p' past) p' (hear_again addr effs f)" if "f \<in> set (followers c)" for f
  proof (cases "fo_addr f = addr")
    case True
    then show ?thesis using D(5) [OF that] by (simp add: hear_again_def follower_ok_def p')
  next
    case False
    then have "follower_ok sender (insert p' past) p' f"
      using replicating_registered [of "fo_addr f" "leader c" _ addr] reg
      by (intro follower_ok_silent [OF D(6) [OF that]]) auto
    then show ?thesis using False D(5) [OF that] by (simp add: hear_again_def p')
  qed
  have l: "ledger_inv n p'" "current_role p' = PRIMARY" using D(1,2) by (simp_all add: p')
  have "ledger_inv n q" if "q \<in> insert p' past" for q using that l(1) D(4) by blast
  then show ?thesis using f l by (simp add: cluster_inv_def)
qed

lemma cluster_inv_same:
  assumes "leader c' = leader c \<and> cluster_inv sender past n c'"
  shows "cluster_inv sender (insert (leader c') past) n c'"
proof -
  have "insert (leader c') past = past" using assms by (auto simp: cluster_inv_def)
  with assms show ?thesis by simp
qed

lemma cluster_step_inv:
  assumes inv: "cluster_inv sender past n c" and ev: "event_honest ev" "event_cost ev \<le> n"
    and step: "cluster_step sender c ev = Some c'"
  shows "cluster_inv sender (insert (leader c') past) (n - event_cost ev) c'"
proof (cases ev)
  case (Serve x)
  then obtain p' effs where "bank_emit (leader c) x = Some (p', effs)"
    "c' = c\<lparr>leader := p', followers := map (hear_update effs) (followers c)\<rparr>"
    using step by auto
  with cluster_inv_serve [OF inv] ev Serve show ?thesis by simp
next
  case Beat
  then obtain effs where "heartbeat_round (leader c) = Some effs"
    "c' = c\<lparr>followers := map (hear effs) (followers c)\<rparr>" using step by auto
  with cluster_inv_beat [OF inv] Beat cluster_inv_same [of c' c] show ?thesis by simp
next
  case (Join addr b)
  obtain p' effs where "registerBackup (leader c) addr = (p', effs)"
    by (cases "registerBackup (leader c) addr")
  with cluster_inv_join [OF inv _ this] Join step show ?thesis by (auto split: if_splits)
next
  case (Rejoin addr)
  obtain p' effs where "registerBackup (leader c) addr = (p', effs)"
    by (cases "registerBackup (leader c) addr")
  with cluster_inv_rejoin [OF inv this] Rejoin step show ?thesis by (auto split: if_splits)
next
  case (SendCopy i)
  then have "on_follower i send_copy c = Some c'" using step by simp
  then show ?thesis using cluster_inv_same [OF cluster_inv_on_follower [OF inv _ follower_ok_send_copy]] SendCopy
    by simp
next
  case (TakePacket i)
  then have "on_follower i (take_packet sender) c = Some c'" using step by simp
  then show ?thesis using cluster_inv_same [OF cluster_inv_on_follower [OF inv _ follower_ok_take]] TakePacket
    by simp
next
  case (Watch i)
  then have "on_follower i watch c = Some c'" using step by simp
  then show ?thesis using cluster_inv_same [OF cluster_inv_on_follower [OF inv _ follower_ok_watch]] Watch
    by simp
qed

text \<open>The states the primary has been in, of a run: its states after the prefixes of the run.\<close>

definition past_leaders :: "sockaddr \<Rightarrow> cluster \<Rightarrow> cluster_event list \<Rightarrow> server set" where
  "past_leaders sender c evs =
     {p. \<exists>evs1 evs2 c1. evs = evs1 @ evs2 \<and> cluster_run sender c evs1 = Some c1 \<and> p = leader c1}"

lemma past_leaders_snoc:
  assumes "cluster_run sender c (evs @ [ev]) = Some c'"
  shows "past_leaders sender c (evs @ [ev]) = insert (leader c') (past_leaders sender c evs)"
proof -
  have split: "evs @ [ev] = evs1 @ evs2 \<longleftrightarrow>
      evs1 = evs @ [ev] \<and> evs2 = [] \<or> (\<exists>evs3. evs = evs1 @ evs3 \<and> evs2 = evs3 @ [ev])" for evs1 evs2
    by (cases evs2 rule: rev_cases) auto
  show ?thesis
  proof (intro equalityI subsetI)
    fix p assume "p \<in> past_leaders sender c (evs @ [ev])"
    then obtain evs1 evs2 c1 where "evs @ [ev] = evs1 @ evs2" "cluster_run sender c evs1 = Some c1" "p = leader c1"
      by (auto simp: past_leaders_def)
    with assms show "p \<in> insert (leader c') (past_leaders sender c evs)"
      unfolding split by (auto simp: past_leaders_def)
  next
    fix p assume "p \<in> insert (leader c') (past_leaders sender c evs)"
    with assms show "p \<in> past_leaders sender c (evs @ [ev])"
      unfolding past_leaders_def split by blast
  qed
qed

lemma cluster_run_inv:
  assumes "cluster_run sender (cluster_start port ip al ad) evs = Some c"
    and "\<forall>ev\<in>set evs. event_honest ev" "sum_list (map event_cost evs) \<le> CLIENT_LIMIT"
  shows "cluster_inv sender (past_leaders sender (cluster_start port ip al ad) evs)
    (CLIENT_LIMIT - sum_list (map event_cost evs)) c"
  using assms
proof (induction evs arbitrary: c rule: rev_induct)
  case Nil
  have "past_leaders sender (cluster_start port ip al ad) [] = {server_new port ip PRIMARY al ad}"
    by (auto simp: past_leaders_def cluster_start_def)
  with Nil cluster_inv_start [of sender port ip al ad] show ?case by simp
next
  case (snoc ev evs)
  obtain c1 where c1: "cluster_run sender (cluster_start port ip al ad) evs = Some c1"
    "cluster_step sender c1 ev = Some c"
    using snoc.prems(1) by (auto simp: run_steps_append bind_eq_Some_conv split: option.splits)
  have "cluster_inv sender (past_leaders sender (cluster_start port ip al ad) evs)
      (CLIENT_LIMIT - sum_list (map event_cost evs)) c1"
    using snoc.prems by (intro snoc.IH c1(1)) simp_all
  from cluster_step_inv [OF this _ _ c1(2)] snoc.prems past_leaders_snoc [OF snoc.prems(1)]
  show ?case by (simp add: diff_diff_add)
qed

end
