(* ===== verification/ClusterTheorems.thy ===== *)
theory ClusterTheorems
  imports Cluster HandlerTheorems BankTheorems
begin

text \<open>
  The properties of a primary with its backups: every backup that joined empty, once, and was not
  overtaken meanwhile follows the primary in order, and one that is promoted, however far behind, goes on as a
  bank whose books are right.
\<close>

section \<open>Promotion\<close>

text \<open>What the invariant of the bank says of a server it says of every server with the same rows,
  history and counters.\<close>

lemma ledger_inv_replica:
  assumes p: "ledger_inv n p" and b: "replica_of p b" "table_wf cl_address (clients b)"
  shows "ledger_inv n b"
proof -
  have acc: "account b ip = account p ip" for ip
    using b(1) by (intro account_same_elems) (simp add: replica_of_def)
  have "server_wf b" using ledger_inv_wf [OF p] b by (simp add: server_wf_def replica_of_def)
  then show ?thesis using p b(1) acc by (simp add: ledger_inv_def replica_of_def ledger_sum_def client_count_def)
qed

lemma promoted_backup:
  assumes "current_role b = BACKUP"
  shows "fst (promoteToPrimary b) = b\<lparr>current_role := PRIMARY, backup_servers := []\<rparr>"
  using assms by (simp add: promoteToPrimary_def Let_def)

lemma promoted_ledger:
  assumes "ledger_inv n p" "holds p b"
  shows "ledger_inv n (fst (promoteToPrimary b))" "current_role (fst (promoteToPrimary b)) = PRIMARY"
    "replica_of p (fst (promoteToPrimary b))"
proof -
  have b: "replica_of p b" "current_role b = BACKUP" "table_wf cl_address (clients b)"
    using assms(2) by (simp_all add: holds_def)
  show "current_role (fst (promoteToPrimary b)) = PRIMARY" by (simp add: promoted_backup [OF b(2)])
  show r: "replica_of p (fst (promoteToPrimary b))"
    using b(1) by (simp add: promoted_backup [OF b(2)] replica_of_def)
  show "ledger_inv n (fst (promoteToPrimary b))"
    using r b(3) by (intro ledger_inv_replica [OF assms(1)]) (simp_all add: promoted_backup [OF b(2)])
qed

section \<open>Properties\<close>

text \<open>A backup joins and a client registers; the backup has not taken the update yet.\<close>

definition joining :: server where
  "joining = server_new 4000 9 BACKUP False zero_sockaddr"

definition lagging_events :: "cluster_event list" where
  "lagging_events = [Join demo_addr joining, Serve (AddClient 1), Beat]"

lemma lagging_run:
  "\<exists>c f m. cluster_run zero_sockaddr (cluster_start 4000 7 False zero_sockaddr) lagging_events = Some c \<and>
     followers c = [f] \<and> fo_server f = joining \<and> \<not> fo_astray f \<and>
     incoming f = [(False, m), (False, bare_packet HEARTBEAT)] \<and> client_count (leader c) = 1"
  by (simp add: lagging_events_def cluster_start_def registerBackup_def snapshot_packets_def
      server_new_def vec_empty_def addClient_def wasClientAdded_def findClient_def vec_end_def find_if_def
      vec_size_def push_back_def propagateClientAddition_def hear_update_def hear_def heartbeat_round_def
      incoming_def client_count_def Let_def joining_def fresh_backup_def vec_wf_def)

text \<open>The backups follow the primary in order, however far behind they are. Whatever the
  primary serves, whoever joins and however the packets wait: the code never goes wrong on what
  is on the way to a backup and that leads to the primary's present state; and as soon as the
  copy of its registration is in, the backup holds a state that the primary has been in. The
  exception is a backup that has gone astray.\<close>

lemma followers_in_order:
  assumes "cluster_run sender (cluster_start port ip al ad) evs = Some c"
    and "\<forall>ev\<in>set evs. event_honest ev" "sum_list (map event_cost evs) \<le> CLIENT_LIMIT"
    and "f \<in> set (followers c)" "\<not> fo_astray f"
  shows "(\<exists>b. receive_all (fo_server f) sender (map snd (incoming f)) = Some b \<and> replica_of (leader c) b) \<and>
    ((\<forall>m\<in>set (incoming f). \<not> fst m) \<longrightarrow>
      (\<exists>evs1 evs2 c1. evs = evs1 @ evs2 \<and>
         cluster_run sender (cluster_start port ip al ad) evs1 = Some c1 \<and>
         replica_of (leader c1) (fo_server f)))"
proof -
  have f: "follows sender (past_leaders sender (cluster_start port ip al ad) evs) (leader c) f"
    using cluster_run_inv [OF assms(1-3)] assms(4,5) by (auto simp: cluster_inv_def follower_ok_def)
  obtain b where "receive_all (fo_server f) sender (map snd (incoming f)) = Some b"
    "replicating (fo_addr f) (leader c, b)" using f by (rule followsE)
  moreover have "\<exists>p. p \<in> past_leaders sender (cluster_start port ip al ad) evs \<and> replica_of p (fo_server f)"
    if "\<forall>m\<in>set (incoming f). \<not> fst m"
    using follows_past [OF f _ that, of "[]"] by (auto simp: holds_def)
  ultimately show ?thesis by (auto simp: replicating_def past_leaders_def)
qed

lemma followers_in_order_witness:
  "\<exists>c f b (c1 :: cluster). cluster_run zero_sockaddr (cluster_start 4000 7 False zero_sockaddr) lagging_events = Some c \<and>
     f \<in> set (followers c) \<and> client_count (leader c) = 1 \<and>
     receive_all (fo_server f) zero_sockaddr (map snd (incoming f)) = Some b \<and> replica_of (leader c) b \<and>
     replica_of (leader c1) (fo_server f)"
proof -
  obtain c f m where c: "cluster_run zero_sockaddr (cluster_start 4000 7 False zero_sockaddr) lagging_events = Some c"
    "followers c = [f]" "\<not> fo_astray f" "incoming f = [(False, m), (False, bare_packet HEARTBEAT)]"
    "client_count (leader c) = 1"
    using lagging_run by blast
  have "\<forall>ev\<in>set lagging_events. event_honest ev" "sum_list (map event_cost lagging_events) \<le> CLIENT_LIMIT"
    by (simp_all add: lagging_events_def CLIENT_LIMIT_def)
  from followers_in_order [OF c(1) this, of f] c show ?thesis by auto
qed

text \<open>A failover at any moment keeps the books: a backup that is promoted while updates are
  still on their way serves from a state that the old primary has been in, every request of an
  honest run is answered from there, and after it the money adds up to 1000 for each client, each
  balance is what the history says, and the numbers of each client are 1, 2, 3, ... without a gap.\<close>

lemma failover_keeps_the_books:
  assumes "cluster_run sender (cluster_start port ip al ad) evs = Some c"
    and "\<forall>ev\<in>set evs. event_honest ev" "\<forall>x\<in>set ops. op_honest x"
    and "sum_list (map event_cost evs) + sum_list (map registrations ops) \<le> CLIENT_LIMIT"
    and "f \<in> set (followers c)" "\<not> fo_astray f" "\<forall>m\<in>set (incoming f). \<not> fst m"
  shows "\<exists>evs1 evs2 c1 s. evs = evs1 @ evs2 \<and>
    cluster_run sender (cluster_start port ip al ad) evs1 = Some c1 \<and>
    current_role (fst (promoteToPrimary (fo_server f))) = PRIMARY \<and>
    replica_of (leader c1) (fst (promoteToPrimary (fo_server f))) \<and>
    bank_run (fst (promoteToPrimary (fo_server f))) ops = Some s \<and>
    sum_list (map (\<lambda>c. f32_to_int (cl_balance c)) (elems (clients s))) = 1000 * int (client_count s) \<and>
    (\<forall>who c. account s who = Some c \<longrightarrow>
       cl_balance c = whole (ledger_balance (transaction_history s) who) \<and>
       map tx_client_seqn (sent_by who (transaction_history s)) = [1..cl_last_req c])"
proof -
  let ?start = "cluster_start port ip al ad" and ?n = "CLIENT_LIMIT - sum_list (map event_cost evs)"
  have inv: "cluster_inv sender (past_leaders sender ?start evs) ?n c"
    using assms(1,2,4) by (intro cluster_run_inv) simp_all
  then have f: "follows sender (past_leaders sender ?start evs) (leader c) f"
    using assms(5,6) by (auto simp: cluster_inv_def follower_ok_def)
  obtain p where p: "p \<in> past_leaders sender ?start evs" "holds p (fo_server f)"
    using follows_past [OF f _ assms(7), of "[]"] by auto
  note P = promoted_ledger [OF cluster_invD(4) [OF inv p(1)] p(2)]
  have "sum_list (map registrations ops) \<le> ?n" using assms(4) by simp
  then obtain s where s: "bank_run (fst (promoteToPrimary (fo_server f))) ops = Some s"
    "ledger_inv (?n - sum_list (map registrations ops)) s"
    using honest_runs.run_inv [OF P(1) assms(3)] by blast
  obtain evs1 evs2 c1 where "evs = evs1 @ evs2" "cluster_run sender ?start evs1 = Some c1" "p = leader c1"
    using p(1) by (auto simp: past_leaders_def)
  then show ?thesis using P(2,3) s(1) ledger_money [OF s(2)] ledger_account [OF s(2)] by blast
qed

lemma failover_keeps_the_books_witness:
  "\<exists>c f s. cluster_run zero_sockaddr (cluster_start 4000 7 False zero_sockaddr) lagging_events = Some c \<and>
     f \<in> set (followers c) \<and> bank_run (fst (promoteToPrimary (fo_server f))) [AddClient 3] = Some s \<and>
     sum_list (map (\<lambda>c. f32_to_int (cl_balance c)) (elems (clients s))) = 1000 * int (client_count s)"
proof -
  obtain c f m where c: "cluster_run zero_sockaddr (cluster_start 4000 7 False zero_sockaddr) lagging_events = Some c"
    "followers c = [f]" "\<not> fo_astray f" "incoming f = [(False, m), (False, bare_packet HEARTBEAT)]"
    using lagging_run by blast
  have e: "\<forall>ev\<in>set lagging_events. event_honest ev" "\<forall>x\<in>set [AddClient 3]. op_honest x"
    "sum_list (map event_cost lagging_events) + sum_list (map registrations [AddClient 3]) \<le> CLIENT_LIMIT"
    by (simp_all add: lagging_events_def CLIENT_LIMIT_def)
  have "f \<in> set (followers c)" "\<forall>m\<in>set (incoming f). \<not> fst m" using c by simp_all
  with failover_keeps_the_books [OF c(1) e, of f] c(1,3) show ?thesis by blast
qed

section \<open>An update before the copy\<close>

text \<open>C25. The exception of a backup that was overtaken is real, and undefined behaviour. While an
  empty backup joins, a transfer between two clients is accepted before the first packet of the
  copy is sent: the update is what the backup receives first, and it is undefined.\<close>

theorem update_overtakes_copy:
  assumes "server_wf p" "current_role p = PRIMARY" "addr \<notin> set (backup_servers p)"
    and "fresh_backup b" "clients b = vec_empty"
    and "in_i32 v" "in_i32 q" "a \<noteq> d"
    and "processTransaction p (inet_ntop a) d v q = Some (p', effs, r)" "rp_status r = SUCCESS"
  shows "\<exists>c. cluster_run sender \<lparr>leader = p, followers = []\<rparr> [Join addr b, Serve (Transact a d v q)] = Some c \<and>
    cluster_step sender c (TakePacket 0) = None"
proof -
  let ?x = "inet_ntop a" and ?y = "inet_ntop d" and ?p = "fst (registerBackup p addr)"
  have ok: "verdict p ?x ?y v q = SUCCESS" using processTransactionD(2) [OF assms(1,7,9)] assms(10) by simp
  have reg: "clients ?p = clients p" "backup_servers ?p = backup_servers p @ [addr]" "current_role ?p = PRIMARY"
    "server_wf ?p" using assms(1,2) by (simp_all add: registerBackup_def server_wf_def)
  have ok': "verdict ?p ?x ?y v q = SUCCESS"
    using ok account_same_clients [OF reg(1)] by (simp add: verdict_def)
  have one: "count_list (backup_servers ?p) addr = 1" using assms(3) reg(2) by (simp add: count_list_0_iff)
  obtain c e tx where ce: "account ?p ?x = Some c" "account ?p ?y = Some e"
    and valid: "valid_client (settle_row ?x ?y v q c)" "valid_client (settle_row ?x ?y v q e)" "valid_transaction tx"
    and sent: "sends_to addr (propagated (committed ?p ?x ?y v q) ?x ?y SUCCESS) =
       [state_update_packet tx (settle_row ?x ?y v q c) (settle_row ?x ?y v q e)]"
    using reg(4,3) one ok' assms(6,7) by (rule commit_packet)
  have "server_receive b (state_update_packet tx (settle_row ?x ?y v q c) (settle_row ?x ?y v q e)) sender = None"
    using assms(4,5,8) valid account_address [OF ce(1)] account_address [OF ce(2)]
    by (intro update_before_snapshot_undefined [of b _ _ _ a d]) (simp_all add: fresh_backup_def)
  moreover have "bank_emit ?p (Transact a d v q) = Some (committed ?p ?x ?y v q,
      [WriterLock] @ propagated (committed ?p ?x ?y v q) ?x ?y SUCCESS @ [WriterUnlock, Notify])"
    using processTransaction_eq [OF reg(4) assms(7)] ok'
    by (simp add: outcome_def should_notify_def Let_def)
  ultimately show ?thesis
    using assms(2,3,4) sent
    by (auto simp: hear_update_def hear_def on_follower_def take_packet_def case_prod_beta
        simp del: bank_emit.simps)
qed

theorem update_overtakes_copy_witness:
  "\<exists>c. cluster_run zero_sockaddr \<lparr>leader = demo, followers = []\<rparr>
       [Join demo_addr joining, Serve (Transact 1 2 100 1)] = Some c \<and>
     cluster_step zero_sockaddr c (TakePacket 0) = None"
proof -
  obtain s effs r where t: "processTransaction demo (inet_ntop 1) 2 100 1 = Some (s, effs, r)" "rp_status r = SUCCESS"
    by (rule demo_transfer)
  have "current_role demo = PRIMARY" "backup_servers demo = []" by (simp_all add: demo_simps)
  moreover have "fresh_backup joining" "clients joining = vec_empty"
    using fresh_new by (simp_all add: joining_def server_new_def)
  ultimately show ?thesis
    using update_overtakes_copy [OF demo_wf _ _ _ _ _ _ _ t, of demo_addr joining zero_sockaddr]
    by (simp add: in_i32_def del: cluster_step.simps run_steps.simps)
qed

end
