(* ===== verification/Reigns.thy ===== *)
theory Reigns
  imports ClusterTheorems
begin

text \<open>
  Primaries that follow one another. A reign is the time of one primary: it serves, backups join
  and follow it as in \<open>Cluster\<close>, and it ends when a backup is promoted, with whatever is still on
  the way to it.
\<close>

section \<open>Reigns\<close>

text \<open>
  A backup that has not gone astray and whose copy is in; updates may still be on their way to it.
  It joined this reign with nothing of its own and registered once. A survivor of an earlier
  reign, which registers with what it holds, may follow and may be promoted in the code, but the
  reigns below do not go on from it: \<open>registration_refreshes_nothing\<close> is what it would serve from.
\<close>

definition can_take_over :: "follower \<Rightarrow> bool" where
  "can_take_over f \<longleftrightarrow> \<not> fo_astray f \<and> (\<forall>m\<in>set (incoming f). \<not> fst m)"

lemma can_take_over_hear: "can_take_over f \<Longrightarrow> can_take_over (hear_update effs f)"
  by (cases "fo_sending f") (auto simp: can_take_over_def hear_update_def hear_def incoming_def)

text \<open>The promotion empties \<open>backup_servers\<close>: the new primary starts alone.\<close>

definition succession :: "follower \<Rightarrow> cluster" where
  "succession f = \<lparr>leader = fst (promoteToPrimary (fo_server f)), followers = []\<rparr>"

text \<open>
  \<open>reigns sender past n c\<close>: the servers can have come to the state \<open>c\<close>, in a reign whose primary
  has been in the states \<open>past\<close>, and \<open>n\<close> more clients may register.
\<close>

inductive reigns :: "sockaddr \<Rightarrow> server set \<Rightarrow> nat \<Rightarrow> cluster \<Rightarrow> bool" for sender where
  first_primary: "reigns sender {server_new port ip PRIMARY al ad} CLIENT_LIMIT (cluster_start port ip al ad)"
| goes_on: "reigns sender past n c \<Longrightarrow> event_honest ev \<Longrightarrow> event_cost ev \<le> n \<Longrightarrow>
    cluster_step sender c ev = Some c' \<Longrightarrow>
    reigns sender (insert (leader c') past) (n - event_cost ev) c'"
| takes_over: "reigns sender past n c \<Longrightarrow> f \<in> set (followers c) \<Longrightarrow> can_take_over f \<Longrightarrow>
    reigns sender {leader (succession f)} n (succession f)"

lemma cluster_inv_alone:
  "ledger_inv n (leader c) \<Longrightarrow> current_role (leader c) = PRIMARY \<Longrightarrow> followers c = [] \<Longrightarrow>
     cluster_inv sender {leader c} n c"
  by (simp add: cluster_inv_def)

lemma account_succession [simp]: "account (leader (succession f)) = account (fo_server f)"
  by (rule account_same_clients) (simp add: succession_def promoteToPrimary_def Let_def)

text \<open>A backup that can take over holds a state that the primary has been in.\<close>

lemma successor_holds:
  assumes inv: "cluster_inv sender past n c" and f: "f \<in> set (followers c)" "can_take_over f"
  obtains p where "p \<in> past" "holds p (fo_server f)"
proof -
  have "follows sender past (leader c) f"
    using cluster_invD(6) [OF inv f(1)] f(2) by (simp add: follower_ok_def can_take_over_def)
  then obtain p b where "p \<in> past" "receive_all (fo_server f) sender (map snd []) = Some b" "holds p b"
    using f(2) by (rule_tac follows_past [of sender past "leader c" f "[]" "incoming f"])
      (simp_all add: can_take_over_def)
  with that show ?thesis by simp
qed

lemma succession_inv:
  assumes "cluster_inv sender past n c" "f \<in> set (followers c)" "can_take_over f"
  shows "cluster_inv sender {leader (succession f)} n (succession f)"
proof -
  obtain p where p: "p \<in> past" "holds p (fo_server f)" using assms by (rule successor_holds)
  note P = promoted_ledger [OF cluster_invD(4) [OF assms(1) p(1)] p(2)]
  show ?thesis using P(1,2) by (intro cluster_inv_alone) (simp_all add: succession_def)
qed

lemma reigns_inv: "reigns sender past n c \<Longrightarrow> cluster_inv sender past n c"
proof (induction rule: reigns.induct)
  case (first_primary port ip al ad)
  show ?case by (rule cluster_inv_start)
next
  case (goes_on past n c ev c')
  then show ?case by (intro cluster_step_inv)
next
  case (takes_over past n c f)
  then show ?case by (intro succession_inv)
qed

lemma honest_served:
  assumes "cluster_inv sender past n c" "op_honest x" "registrations x \<le> n"
  shows "\<exists>c'. cluster_step sender c (cluster_event.Serve x) = Some c'"
proof -
  obtain s where "bank_step (leader c) x = Some s"
    using honest_runs.step_inv [OF cluster_invD(1) [OF assms(1)] assms(2,3)] by blast
  then show ?thesis by (auto simp: bank_step_def simp del: bank_step_simps)
qed

text \<open>C7. The books are kept through any number of failovers, at any moments, under these conditions:
  amounts are not negative and at most 16777 clients register in all; the channels from a primary
  to its backups lose nothing and keep their order, however long packets wait in them; and a backup
  takes over only if it registered with its primary once, while it was empty, no update overtook
  its copy, and the copy is in. Backups that hold something of their own may register as well, and
  registered ones may register again, but such a backup does not take over. Then no such request
  or registration is undefined; the money adds up to 1000 for each client, each balance is what the
  history says, and the numbers of each client are 1, 2, 3, ... without a gap; what is on the way
  to a backup that joined as described leads it to the primary's present state; and when it takes
  over, it holds a state that its primary has been in.\<close>

theorem books_through_failovers:
  assumes "reigns sender past n c"
  shows "(\<forall>x. op_honest x \<and> registrations x \<le> n \<longrightarrow>
      (\<exists>c'. cluster_step sender c (cluster_event.Serve x) = Some c')) \<and>
    sum_list (map (\<lambda>r. f32_to_int (cl_balance r)) (elems (clients (leader c)))) =
      1000 * int (client_count (leader c)) \<and>
    (\<forall>who r. account (leader c) who = Some r \<longrightarrow>
      cl_balance r = whole (ledger_balance (transaction_history (leader c)) who) \<and>
      map tx_client_seqn (sent_by who (transaction_history (leader c))) = [1..cl_last_req r]) \<and>
    (\<forall>f\<in>set (followers c). \<not> fo_astray f \<longrightarrow>
      (\<exists>b. receive_all (fo_server f) sender (map snd (incoming f)) = Some b \<and> replica_of (leader c) b)) \<and>
    (\<forall>f\<in>set (followers c). can_take_over f \<longrightarrow>
      current_role (leader (succession f)) = PRIMARY \<and>
      (\<exists>p\<in>past. replica_of p (leader (succession f))))"
proof -
  have inv: "cluster_inv sender past n c" using assms by (rule reigns_inv)
  note led = cluster_invD(1) [OF inv]
  have "\<exists>b. receive_all (fo_server f) sender (map snd (incoming f)) = Some b \<and> replica_of (leader c) b"
    if "f \<in> set (followers c)" "\<not> fo_astray f" for f
  proof -
    have "follows sender past (leader c) f"
      using cluster_invD(6) [OF inv that(1)] that(2) by (simp add: follower_ok_def)
    then show ?thesis by (rule followsE) (auto simp: replicating_def)
  qed
  moreover have "current_role (leader (succession f)) = PRIMARY \<and>
      (\<exists>p\<in>past. replica_of p (leader (succession f)))"
    if f: "f \<in> set (followers c)" "can_take_over f" for f
  proof -
    obtain p where p: "p \<in> past" "holds p (fo_server f)" using inv f by (rule successor_holds)
    from promoted_ledger [OF cluster_invD(4) [OF inv p(1)] p(2)] p(1) show ?thesis
      by (auto simp: succession_def)
  qed
  ultimately show ?thesis
    using honest_served [OF inv] ledger_money [OF led] ledger_account [OF led] by blast
qed

lemma reigns_run:
  assumes "reigns sender past n c" "cluster_run sender c evs = Some c'"
    and "\<forall>ev\<in>set evs. event_honest ev" "sum_list (map event_cost evs) \<le> n"
  shows "\<exists>past'. reigns sender past' (n - sum_list (map event_cost evs)) c'"
  using assms
proof (induction evs arbitrary: past n c)
  case (Cons ev evs)
  obtain c1 where c1: "cluster_step sender c ev = Some c1" "cluster_run sender c1 evs = Some c'"
    using Cons.prems(2) by (auto split: option.splits)
  have "reigns sender (insert (leader c1) past) (n - event_cost ev) c1"
    using Cons.prems c1(1) by (intro goes_on) simp_all
  from Cons.IH [OF this c1(2)] Cons.prems show ?case by (auto simp: diff_diff_left)
qed auto

lemma lagging_reign:
  obtains c f m past where
    "cluster_run zero_sockaddr (cluster_start 4000 7 False zero_sockaddr) lagging_events = Some c"
    "followers c = [f]" "\<not> fo_astray f" "incoming f = [(False, m), (False, bare_packet HEARTBEAT)]"
    "reigns zero_sockaddr past (CLIENT_LIMIT - 1) c"
proof -
  obtain c f m where c: "cluster_run zero_sockaddr (cluster_start 4000 7 False zero_sockaddr) lagging_events = Some c"
    "followers c = [f]" "\<not> fo_astray f" "incoming f = [(False, m), (False, bare_packet HEARTBEAT)]"
    using lagging_run by blast
  have "\<forall>ev\<in>set lagging_events. event_honest ev" "sum_list (map event_cost lagging_events) = 1"
    by (simp_all add: lagging_events_def)
  with reigns_run [OF first_primary c(1)] that c show ?thesis by (auto simp: CLIENT_LIMIT_def)
qed

text \<open>A primary dies while its first client's update is on the way to the backup, and the backup
  registers another client.\<close>

theorem books_through_failovers_witness:
  "\<exists>c f past n c2. cluster_run zero_sockaddr (cluster_start 4000 7 False zero_sockaddr) lagging_events = Some c \<and>
     f \<in> set (followers c) \<and> incoming f \<noteq> [] \<and>
     cluster_step zero_sockaddr (succession f) (cluster_event.Serve (AddClient 3)) = Some c2 \<and>
     reigns zero_sockaddr past n c2 \<and>
     sum_list (map (\<lambda>r. f32_to_int (cl_balance r)) (elems (clients (leader c2)))) =
       1000 * int (client_count (leader c2))"
proof -
  obtain c f m past where c: "cluster_run zero_sockaddr (cluster_start 4000 7 False zero_sockaddr) lagging_events = Some c"
    "followers c = [f]" "\<not> fo_astray f" "incoming f = [(False, m), (False, bare_packet HEARTBEAT)]"
    and past: "reigns zero_sockaddr past (CLIENT_LIMIT - 1) c" by (rule lagging_reign)
  have r: "reigns zero_sockaddr {leader (succession f)} (CLIENT_LIMIT - 1) (succession f)"
    using c(2-4) by (intro takes_over [OF past]) (simp_all add: can_take_over_def)
  obtain c2 where c2: "cluster_step zero_sockaddr (succession f) (cluster_event.Serve (AddClient 3)) = Some c2"
    by simp
  with r have "reigns zero_sockaddr (insert (leader c2) {leader (succession f)})
      (CLIENT_LIMIT - 1 - event_cost (cluster_event.Serve (AddClient 3))) c2"
    by (intro goes_on) (simp_all add: CLIENT_LIMIT_def)
  with books_through_failovers [OF this] c c2 show ?thesis by fastforce
qed

section \<open>Catching up\<close>

text \<open>A backup that gets to take what is in its channel catches up.\<close>

lemma take_all:
  assumes "receive_all (fo_server f) sender (map snd (fo_channel f)) = Some b"
    and "i < length (followers c)" "followers c ! i = f"
  shows "cluster_run sender c (replicate (length (fo_channel f)) (TakePacket i)) =
    Some (c\<lparr>followers := (followers c)[i := f\<lparr>fo_server := b, fo_channel := []\<rparr>]\<rparr>)"
  using assms
proof (induction "fo_channel f" arbitrary: f c)
  case Nil
  then have "f\<lparr>fo_server := b, fo_channel := []\<rparr> = f" by simp
  moreover have "(followers c)[i := f] = followers c" using Nil.prems(3) list_update_id by metis
  ultimately show ?case using Nil.hyps by simp
next
  case (Cons m ms)
  obtain s effs where s: "server_receive (fo_server f) (snd m) sender = Some (s, effs)"
    "receive_all s sender (map snd ms) = Some b"
    using Cons.prems(1) by (auto simp: Cons.hyps(2) [symmetric] bind_eq_Some_conv)
  let ?f = "f\<lparr>fo_server := s, fo_channel := ms\<rparr>" and ?c = "c\<lparr>followers := (followers c)[i := f\<lparr>fo_server := s, fo_channel := ms\<rparr>]\<rparr>"
  have "cluster_step sender c (TakePacket i) = Some ?c"
    using Cons.prems(2,3) s(1) by (cases m) (simp add: on_follower_def take_packet_def Cons.hyps(2) [symmetric])
  moreover have "cluster_run sender ?c (replicate (length (fo_channel ?f)) (TakePacket i)) =
      Some (?c\<lparr>followers := (followers ?c)[i := ?f\<lparr>fo_server := b, fo_channel := []\<rparr>]\<rparr>)"
    using Cons.prems s(2) by (intro Cons.hyps(1)) simp_all
  ultimately show ?case by (simp add: Cons.hyps(2) [symmetric])
qed

lemma send_rest:
  assumes "i < length (followers c)" "followers c ! i = f"
  shows "cluster_run sender c (replicate (length (fo_sending f)) (SendCopy i)) =
    Some (c\<lparr>followers := (followers c)[i := f\<lparr>fo_sending := [], fo_channel := incoming f\<rparr>]\<rparr>)"
  using assms
proof (induction "fo_sending f" arbitrary: f c)
  case Nil
  then have "f\<lparr>fo_sending := [], fo_channel := incoming f\<rparr> = f" by (simp add: incoming_def)
  moreover have "(followers c)[i := f] = followers c" using Nil.prems(2) list_update_id by metis
  ultimately show ?case using Nil.hyps by simp
next
  case (Cons m ms)
  let ?f = "f\<lparr>fo_sending := ms, fo_channel := fo_channel f @ [(True, m)]\<rparr>"
  let ?c = "c\<lparr>followers := (followers c)[i := ?f]\<rparr>"
  have "cluster_step sender c (SendCopy i) = Some ?c"
    using Cons.prems by (simp add: on_follower_def send_copy_def Cons.hyps(2) [symmetric])
  moreover have "cluster_run sender ?c (replicate (length (fo_sending ?f)) (SendCopy i)) =
      Some (?c\<lparr>followers := (followers ?c)[i := ?f\<lparr>fo_sending := [], fo_channel := incoming ?f\<rparr>]\<rparr>)"
    using Cons.prems by (intro Cons.hyps(1)) simp_all
  ultimately show ?case by (simp add: Cons.hyps(2) [symmetric] incoming_def)
qed

lemma cluster_inv_catches_up:
  assumes inv: "cluster_inv sender past n c" and i: "i < length (followers c)" "\<not> fo_astray (followers c ! i)"
  shows "\<exists>k m c'. cluster_run sender c (replicate k (SendCopy i) @ replicate m (TakePacket i)) = Some c' \<and>
    leader c' = leader c \<and> length (followers c') = length (followers c) \<and>
    incoming (followers c' ! i) = [] \<and> can_take_over (followers c' ! i) \<and>
    replica_of (leader c) (fo_server (followers c' ! i))"
proof -
  let ?f = "followers c ! i"
  have "follows sender past (leader c) ?f"
    using cluster_invD(6) [OF inv nth_mem [OF assms(2)]] assms(3) by (simp add: follower_ok_def)
  then obtain b where b: "receive_all (fo_server ?f) sender (map snd (incoming ?f)) = Some b"
    "replicating (fo_addr ?f) (leader c, b)" by (rule followsE)
  let ?g = "?f\<lparr>fo_sending := [], fo_channel := incoming ?f\<rparr>"
  let ?c = "c\<lparr>followers := (followers c)[i := ?g]\<rparr>"
  let ?d = "?c\<lparr>followers := (followers ?c)[i := ?g\<lparr>fo_server := b, fo_channel := []\<rparr>]\<rparr>"
  have "cluster_run sender ?c (replicate (length (fo_channel ?g)) (TakePacket i)) = Some ?d"
    using b(1) assms(2) by (intro take_all) simp_all
  then have "cluster_run sender c (replicate (length (fo_sending ?f)) (SendCopy i) @
      replicate (length (fo_channel ?g)) (TakePacket i)) = Some ?d"
    using send_rest [OF assms(2) refl, of sender] by (simp add: run_steps_append)
  moreover have "replica_of (leader c) b" using b(2) by (simp add: replicating_def)
  ultimately show ?thesis
    using assms(2,3)
    by (intro exI [of _ "length (fo_sending ?f)"] exI [of _ "length (fo_channel ?g)"] exI [of _ ?d])
      (simp add: incoming_def can_take_over_def)
qed

text \<open>C15. A backup that registered with its primary once, while it was empty, and whose copy no update
  overtook, can always catch up, provided the channel to it loses nothing and keeps its order. In
  any state of any reign, however much of the copy is still unsent and however many packets wait
  for it, such a backup reaches the primary's present state by two kinds of step alone, the
  primary's thread sending the rest of the copy and the backup's loop taking what has arrived; then
  nothing is on the way to it, and it can take over. (A backup that registers with something of its
  own does not: \<open>registration_refreshes_nothing\<close>.)\<close>

theorem backup_catches_up:
  assumes "reigns sender past n c" "i < length (followers c)" "\<not> fo_astray (followers c ! i)"
  shows "\<exists>k m c'. cluster_run sender c (replicate k (SendCopy i) @ replicate m (TakePacket i)) = Some c' \<and>
    leader c' = leader c \<and> length (followers c') = length (followers c) \<and>
    incoming (followers c' ! i) = [] \<and> can_take_over (followers c' ! i) \<and>
    replica_of (leader c) (fo_server (followers c' ! i))"
  using reigns_inv [OF assms(1)] assms(2,3) by (rule cluster_inv_catches_up)

theorem backup_catches_up_witness:
  "\<exists>c k m c'. cluster_run zero_sockaddr (cluster_start 4000 7 False zero_sockaddr) lagging_events = Some c \<and>
     incoming (followers c ! 0) \<noteq> [] \<and>
     cluster_run zero_sockaddr c (replicate k (SendCopy 0) @ replicate m (TakePacket 0)) = Some c' \<and>
     incoming (followers c' ! 0) = [] \<and> replica_of (leader c) (fo_server (followers c' ! 0))"
proof -
  obtain c f m past where c: "cluster_run zero_sockaddr (cluster_start 4000 7 False zero_sockaddr) lagging_events = Some c"
    "followers c = [f]" "\<not> fo_astray f" "incoming f = [(False, m), (False, bare_packet HEARTBEAT)]"
    and past: "reigns zero_sockaddr past (CLIENT_LIMIT - 1) c" by (rule lagging_reign)
  from backup_catches_up [OF past, of 0] c show ?thesis by auto
qed

end
