(* ===== verification/Failover.thy ===== *)
theory Failover
  imports Reigns Network
begin

text \<open>
  A client in front of the primaries of \<open>Reigns\<close>, with the network of \<open>Network\<close> between: the client
  stays in step through failovers to backups that have received its transfers, and a backup that
  lacks some of them leaves it behind.
\<close>

section \<open>A client in front of the primaries\<close>

record system =
  sy_cluster :: cluster
  sy_client :: client
  sy_requests :: "packet list"
  sy_acks :: "packet list"

definition world_of :: "system \<Rightarrow> world" where
  "world_of y =
     \<lparr>w_server = leader (sy_cluster y), w_client = sy_client y,
      w_requests = sy_requests y, w_acks = sy_acks y\<rparr>"

text \<open>
  A request of the client reaches the primary, and what the primary's thread sends goes to the
  backups and to the client; something happens at the client; or something happens in the cluster.
\<close>

datatype system_event =
    Deliver nat
  | AtClient world_event
  | InCluster cluster_event

fun system_step :: "sockaddr \<Rightarrow> sockaddr \<Rightarrow> system \<Rightarrow> system_event \<Rightarrow> system option" where
  "system_step addr sender y (Deliver i) =
     (if i < length (sy_requests y) then
        map_option (\<lambda>(s, effs).
            y\<lparr>sy_cluster := (sy_cluster y)\<lparr>leader := s,
                followers := map (hear_update effs) (followers (sy_cluster y))\<rparr>,
              sy_acks := sy_acks y @ reply_packets effs\<rparr>)
          (request_thread (leader (sy_cluster y)) (sy_requests y ! i) addr)
      else Some y)"
| "system_step addr sender y (AtClient ev) =
     map_option (\<lambda>w. y\<lparr>sy_client := w_client w, sy_requests := w_requests w\<rparr>)
       (world_step addr (world_of y) ev)"
| "system_step addr sender y (InCluster ev) =
     map_option (\<lambda>c. y\<lparr>sy_cluster := c\<rparr>) (cluster_step sender (sy_cluster y) ev)"

text \<open>
  The amounts are those of honest users; nobody else sends from the client's address, and no
  backup receives at it.
\<close>

fun system_ok :: "sockaddr \<Rightarrow> system_event \<Rightarrow> bool" where
  "system_ok addr (Deliver i) \<longleftrightarrow> True"
| "system_ok addr (AtClient (Request junk ok dest v)) \<longleftrightarrow> 0 \<le> v \<and> in_i32 v"
| "system_ok addr (AtClient (Reply i junk sender fds dest v e)) \<longleftrightarrow> length junk = PACKET_SIZE"
| "system_ok addr (AtClient (Announced p sender)) \<longleftrightarrow> True"
| "system_ok addr (AtClient _) \<longleftrightarrow> False"
| "system_ok addr (InCluster (cluster_event.Serve x)) \<longleftrightarrow> op_honest x \<and> event_ok addr (Others x)"
| "system_ok addr (InCluster (Join a b)) \<longleftrightarrow> a \<noteq> addr"
| "system_ok addr (InCluster _) \<longleftrightarrow> True"

fun system_cost :: "system_event \<Rightarrow> nat" where
  "system_cost (InCluster ev) = event_cost ev"
| "system_cost _ = 0"

fun system_replies :: "system_event \<Rightarrow> nat" where
  "system_replies (AtClient ev) = replies ev"
| "system_replies _ = 0"

definition client_number :: "sockaddr \<Rightarrow> server \<Rightarrow> int option" where
  "client_number addr s = map_option cl_last_req (account s (inet_ntop (sin_addr addr)))"

text \<open>
  The runs: after any history of the servers the client starts and is registered, by a primary that
  has not known it. In a failover the backup that takes over has received the updates of this
  client, though not necessarily those of others. \<open>b\<close> more replies may be received before the
  client's number overflows.
\<close>

inductive steady :: "sockaddr \<Rightarrow> sockaddr \<Rightarrow> server set \<Rightarrow> nat \<Rightarrow> nat \<Rightarrow> system \<Rightarrow> bool" for addr sender where
  client_starts: "reigns sender past (Suc n) k \<Longrightarrow>
    \<forall>p\<in>past. account p (inet_ntop (sin_addr addr)) = None \<Longrightarrow>
    \<forall>f\<in>set (followers k). fo_addr f \<noteq> addr \<Longrightarrow>
    cluster_step sender k (cluster_event.Serve (AddClient (sin_addr addr))) = Some k' \<Longrightarrow>
    sequence_number c = 1 \<Longrightarrow> 1 + int b < 2 ^ 31 \<Longrightarrow>
    steady addr sender (insert (leader k') past) n b
      \<lparr>sy_cluster = k', sy_client = c, sy_requests = [], sy_acks = []\<rparr>"
| event: "steady addr sender past n b y \<Longrightarrow> system_ok addr ev \<Longrightarrow>
    system_cost ev \<le> n \<Longrightarrow> system_replies ev \<le> b \<Longrightarrow> system_step addr sender y ev = Some y' \<Longrightarrow>
    steady addr sender (insert (leader (sy_cluster y')) past) (n - system_cost ev) (b - system_replies ev) y'"
| new_primary: "steady addr sender past n b y \<Longrightarrow>
    f \<in> set (followers (sy_cluster y)) \<Longrightarrow> can_take_over f \<Longrightarrow>
    client_number addr (fo_server f) = client_number addr (leader (sy_cluster y)) \<Longrightarrow>
    steady addr sender {leader (succession f)} n b (y\<lparr>sy_cluster := succession f\<rparr>)"

section \<open>What every step keeps\<close>

definition honest_request :: "packet \<Rightarrow> bool" where
  "honest_request p \<longleftrightarrow>
     (\<exists>junk q dest v. p = request_packet junk q dest v \<and> 0 \<le> v \<and> in_i32 v \<and> in_i32 q)"

definition sent_in :: "sockaddr \<Rightarrow> server \<Rightarrow> transaction list" where
  "sent_in addr s = sent_by (inet_ntop (sin_addr addr)) (transaction_history s)"

definition steady_inv :: "sockaddr \<Rightarrow> sockaddr \<Rightarrow> server set \<Rightarrow> nat \<Rightarrow> nat \<Rightarrow> system \<Rightarrow> bool" where
  "steady_inv addr sender past n b y \<longleftrightarrow>
     cluster_inv sender past n (sy_cluster y) \<and> in_step addr [] 0 b (world_of y) \<and>
     (\<forall>p\<in>past. \<forall>t\<in>set (sent_in addr p). asked_for (sy_requests y) t) \<and>
     (\<forall>p\<in>set (sy_requests y). honest_request p) \<and>
     (\<forall>f\<in>set (followers (sy_cluster y)). fo_addr f \<noteq> addr)"

lemma steady_invD:
  assumes "steady_inv addr sender past n b y"
  shows "cluster_inv sender past n (sy_cluster y)" "in_step addr [] 0 b (world_of y)"
    "p \<in> past \<Longrightarrow> t \<in> set (sent_in addr p) \<Longrightarrow> asked_for (sy_requests y) t"
    "r \<in> set (sy_requests y) \<Longrightarrow> honest_request r"
    "f \<in> set (followers (sy_cluster y)) \<Longrightarrow> fo_addr f \<noteq> addr"
  using assms by (simp_all add: steady_inv_def)

lemma world_of_simps [simp]:
  "w_server (world_of y) = leader (sy_cluster y)" "w_client (world_of y) = sy_client y"
  "w_requests (world_of y) = sy_requests y" "w_acks (world_of y) = sy_acks y"
  by (simp_all add: world_of_def)

lemma in_step_asked:
  assumes "in_step addr [] 0 b w" "t \<in> set (sent_in addr (w_server w))"
  shows "asked_for (w_requests w) t"
  using assms by (auto simp: transfers_def sent_in_def elim: in_stepE)

text \<open>A step of the servers: the new state of the primary joins the past.\<close>

lemma steady_invI:
  assumes "cluster_inv sender (insert (leader (sy_cluster y')) past) n (sy_cluster y')"
    and "in_step addr [] 0 b (world_of y')"
    and "steady_inv addr sender past n0 b0 y" "set (sy_requests y) \<subseteq> set (sy_requests y')"
    and "\<And>r. r \<in> set (sy_requests y') \<Longrightarrow> honest_request r"
    and "\<And>f. f \<in> set (followers (sy_cluster y')) \<Longrightarrow> fo_addr f \<noteq> addr"
  shows "steady_inv addr sender (insert (leader (sy_cluster y')) past) n b y'"
proof -
  have "asked_for (sy_requests y') t" if "p \<in> past" "t \<in> set (sent_in addr p)" for p t
    using steady_invD(3) [OF assms(3) that] assms(4) by (auto simp: asked_for_def)
  then show ?thesis
    using assms(1,2,5,6) in_step_asked [OF assms(2)] by (auto simp: steady_inv_def)
qed

lemma hear_ack:
  "fo_addr f \<noteq> addr \<Longrightarrow> hear_update (effs @ [Send ack addr]) f = hear_update effs f"
  by (auto simp: hear_update_def hear_def)

lemma steady_deliver:
  assumes inv: "steady_inv addr sender past n b y"
  shows "\<exists>y'. system_step addr sender y (Deliver i) = Some y' \<and>
    steady_inv addr sender (insert (leader (sy_cluster y')) past) n b y'"
proof (cases "i < length (sy_requests y)")
  case False
  have "insert (leader (sy_cluster y)) past = past"
    using cluster_invD(3) [OF steady_invD(1) [OF inv]] by blast
  with False inv show ?thesis by simp
next
  case True
  let ?k = "sy_cluster y" and ?a = "inet_ntop (sin_addr addr)"
  note D = steady_invD [OF inv]
  have wf: "server_wf (leader ?k)" using cluster_invD(1) [OF D(1)] by (rule ledger_inv_wf)
  obtain junk q dest v where r: "sy_requests y ! i = request_packet junk q dest v" "0 \<le> v" "in_i32 v" "in_i32 q"
    using D(4) [OF nth_mem [OF True]] by (auto simp: honest_request_def)
  let ?x = "Transact (sin_addr addr) (asked_dest junk dest) v q"
  let ?s = "outcome (leader ?k) ?a (inet_ntop (asked_dest junk dest)) v q"
  obtain effs rp where p: "processTransaction (leader ?k) ?a (asked_dest junk dest) v q = Some (?s, effs, rp)"
    and t: "request_thread (leader ?k) (request_packet junk q dest v) addr = Some (?s, effs @ [Send (ack_packet q rp) addr])"
    using wf r(3,4) by (rule request_thread_served)
  have hear: "map (hear_update (effs @ [Send (ack_packet q rp) addr])) (followers ?k) = map (hear_update effs) (followers ?k)"
    using D(5) by (simp add: hear_ack)
  let ?y = "y\<lparr>sy_cluster := ?k\<lparr>leader := ?s, followers := map (hear_update effs) (followers ?k)\<rparr>,
      sy_acks := sy_acks y @ [ack_packet q rp]\<rparr>"
  have step: "system_step addr sender y (Deliver i) = Some ?y"
    using True r(1) t hear by simp
  have "bank_emit (leader ?k) ?x = Some (?s, effs)" using p by simp
  from cluster_inv_serve [OF D(1) _ _ this] r(2-4)
  have k: "cluster_inv sender (insert ?s past) n (sy_cluster ?y)" by simp
  have "world_step addr (world_of y) (world_event.Serve i) = Some (world_of ?y)"
    using True r(1) t by (simp add: world_of_def)
  then have w: "in_step addr [] 0 b (world_of ?y)"
    using in_step_serve [OF D(2), of i] True by (simp del: world_step.simps)
  have "steady_inv addr sender (insert (leader (sy_cluster ?y)) past) n b ?y"
  proof (rule steady_invI [OF _ w inv])
    fix f assume "f \<in> set (followers (sy_cluster ?y))"
    then obtain g where "g \<in> set (followers ?k)" "f = hear_update effs g" by auto
    with D(5) show "fo_addr f \<noteq> addr" by (simp add: hear_update_def)
  qed (use k D(4) in simp_all)
  with step show ?thesis by blast
qed

lemma steady_client:
  assumes inv: "steady_inv addr sender past n b y" and ok: "system_ok addr (AtClient ev)" "replies ev \<le> b"
  shows "\<exists>y'. system_step addr sender y (AtClient ev) = Some y' \<and>
    steady_inv addr sender (insert (leader (sy_cluster y')) past) n (b - replies ev) y'"
proof -
  note D = steady_invD [OF inv]
  have "event_ok addr ev" using ok(1) by (cases ev) simp_all
  then obtain w where w: "world_step addr (world_of y) ev = Some w" "in_step addr [] 0 (b - replies ev) w"
    using network.step_inv [OF D(2) _ ok(2)] by blast
  let ?y = "y\<lparr>sy_client := w_client w, sy_requests := w_requests w\<rparr>"
  have same: "w_server w = leader (sy_cluster y)" "w_acks w = sy_acks y"
    using w(1) ok(1) by (cases ev; auto simp: Let_def split: if_splits prod.splits)+
  have reqs: "set (sy_requests y) \<subseteq> set (w_requests w)"
    using w(1) ok(1) by (cases ev; auto simp: Let_def split: if_splits prod.splits)
  have new: "honest_request r" if "r \<in> set (w_requests w)" for r
  proof (cases "r \<in> set (sy_requests y)")
    case False
    have "in_i32 (sequence_number (sy_client y))" using D(2) by (auto elim: in_stepE)
    with False that w(1) ok(1) show ?thesis
      by (cases ev) (auto simp: Let_def sent_request honest_request_def split: if_splits prod.splits, blast)
  qed (use D(4) in blast)
  have "world_of ?y = w" using same(1,2) by (simp add: world_of_def)
  moreover have "insert (leader (sy_cluster y)) past = past" using cluster_invD(3) [OF D(1)] by blast
  ultimately have "steady_inv addr sender (insert (leader (sy_cluster ?y)) past) n (b - replies ev) ?y"
    by (intro steady_invI [OF _ _ inv]) (use w(2) reqs new D(1,5) in auto)
  with w(1) show ?thesis by auto
qed

text \<open>Steps of the cluster.\<close>

lemma cluster_step_addrs:
  assumes "cluster_step sender c ev = Some c'" "f \<in> set (followers c')"
  shows "fo_addr f \<in> fo_addr ` set (followers c) \<or> (\<exists>b. ev = Join (fo_addr f) b)"
proof -
  have change: "fo_addr f \<in> fo_addr ` set (followers c)"
    if on: "on_follower i g c = Some c'" and g: "\<And>h h'. g h = Some h' \<Longrightarrow> fo_addr h' = fo_addr h" for i g
  proof -
    obtain h' where i: "i < length (followers c)" and h': "g (followers c ! i) = Some h'"
      and c': "c' = c\<lparr>followers := (followers c)[i := h']\<rparr>"
      using on by (auto simp: on_follower_def split: if_splits)
    have "f = h' \<or> f \<in> set (followers c)"
      using assms(2) set_update_subset_insert [of "followers c" i h'] by (auto simp: c')
    then show ?thesis using g [OF h'] nth_mem [OF i] by auto
  qed
  have "fo_addr h' = fo_addr h" if "send_copy h = Some h'" for h h'
    using that by (auto simp: send_copy_def split: list.splits)
  moreover have "fo_addr h' = fo_addr h" if "take_packet sender h = Some h'" for h h'
    using that by (auto simp: take_packet_def split: list.splits)
  moreover have "fo_addr h' = fo_addr h" if "watch h = Some h'" for h h'
    using that by (auto simp: watch_def)
  ultimately show ?thesis
    using assms change by (cases ev) (auto simp: hear_update_def hear_again_def split: if_splits prod.splits)
qed

lemma cluster_step_books:
  assumes "cluster_step sender c ev = Some c'" "\<nexists>x. ev = cluster_event.Serve x"
  shows "clients (leader c') = clients (leader c)"
    "transaction_history (leader c') = transaction_history (leader c)"
  using assms
  by (cases ev; auto simp: on_follower_def registerBackup_def split: if_splits)+

lemma in_step_server:
  assumes "in_step addr h0 n0 b w" "server_wf s" "clients s = clients (w_server w)"
    and "transaction_history s = transaction_history (w_server w)"
  shows "in_step addr h0 n0 b (w\<lparr>w_server := s\<rparr>)"
  using assms account_same_clients [OF assms(3)] by (simp add: in_step_def transfers_def)

lemma steady_cluster:
  assumes inv: "steady_inv addr sender past n b y" and ok: "system_ok addr (InCluster ev)" "event_cost ev \<le> n"
    and step: "cluster_step sender (sy_cluster y) ev = Some k"
  shows "steady_inv addr sender (insert (leader k) past) (n - event_cost ev) b (y\<lparr>sy_cluster := k\<rparr>)"
proof -
  note D = steady_invD [OF inv]
  let ?y = "y\<lparr>sy_cluster := k\<rparr>"
  have h: "event_honest ev" using ok(1) by (cases ev) simp_all
  have k: "cluster_inv sender (insert (leader k) past) (n - event_cost ev) k"
    using D(1) h ok(2) step by (rule cluster_step_inv)
  have w: "world_of ?y = (world_of y)\<lparr>w_server := leader k\<rparr>" by (simp add: world_of_def)
  have "in_step addr [] 0 b (world_of ?y)"
  proof (cases "\<exists>x. ev = cluster_event.Serve x")
    case True
    then obtain x effs where x: "ev = cluster_event.Serve x" "bank_emit (leader (sy_cluster y)) x = Some (leader k, effs)"
      using step by auto
    then have "world_step addr (world_of y) (Others x) = Some (world_of ?y)"
      unfolding w by (simp add: bank_step_def del: bank_step_simps)
    with in_step_others [OF D(2), of x] ok(1) x(1) show ?thesis by (simp del: world_step.simps)
  next
    case False
    from cluster_step_books [OF step False] show ?thesis
      unfolding w using ledger_inv_wf [OF cluster_invD(1) [OF k]] by (intro in_step_server [OF D(2)]) simp_all
  qed
  then have "steady_inv addr sender (insert (leader (sy_cluster ?y)) past) (n - event_cost ev) b ?y"
  proof (rule steady_invI [OF _ _ inv, rotated])
    fix f assume "f \<in> set (followers (sy_cluster ?y))"
    then consider g where "g \<in> set (followers (sy_cluster y))" "fo_addr f = fo_addr g"
      | a where "ev = Join (fo_addr f) a"
      using cluster_step_addrs [OF step, of f] by auto
    then show "fo_addr f \<noteq> addr" using D(5) ok(1) by cases simp_all
  qed (use k D(4) in simp_all)
  then show ?thesis by simp
qed

lemma steady_event:
  assumes "steady_inv addr sender past n b y" "system_ok addr ev" "system_cost ev \<le> n" "system_replies ev \<le> b"
    and "system_step addr sender y ev = Some y'"
  shows "steady_inv addr sender (insert (leader (sy_cluster y')) past) (n - system_cost ev) (b - system_replies ev) y'"
proof (cases ev)
  case (Deliver i)
  with steady_deliver [OF assms(1), of i] assms(5) show ?thesis by auto
next
  case (AtClient x)
  with steady_client [OF assms(1), of x] assms(2,4,5) show ?thesis by auto
next
  case (InCluster x)
  with steady_cluster [OF assms(1), of x] assms(2,3,5) show ?thesis by auto
qed

lemma steady_new_primary:
  assumes inv: "steady_inv addr sender past n b y" and f: "f \<in> set (followers (sy_cluster y))" "can_take_over f"
    and level: "client_number addr (fo_server f) = client_number addr (leader (sy_cluster y))"
  shows "steady_inv addr sender {leader (succession f)} n b (y\<lparr>sy_cluster := succession f\<rparr>)"
proof -
  note D = steady_invD [OF inv]
  let ?a = "inet_ntop (sin_addr addr)" and ?s = "leader (succession f)"
  obtain p where p: "p \<in> past" "holds p (fo_server f)" using D(1) f by (rule successor_holds)
  note P = promoted_ledger [OF cluster_invD(4) [OF D(1) p(1)] p(2)]
  have led: "ledger_inv n ?s" and rep: "replica_of p ?s" using P by (simp_all add: succession_def)
  have acc: "account ?s ?a = account (fo_server f) ?a" by simp
  show ?thesis
    using D(2)
  proof (rule in_stepE)
    fix cl :: client_dto and new
    let ?q = "sequence_number (w_client (world_of y))"
    assume "account (w_server (world_of y)) ?a = Some cl"
      and bounds: "cl_last_req cl \<le> ?q" "?q \<le> cl_last_req cl + 1" "?q + int b < 2 ^ 31" "in_i32 ?q" "0 \<le> cl_last_req cl"
      and known: "\<And>r. r \<in> set (w_requests (world_of y)) \<Longrightarrow> known_request ?q r"
        "\<And>r. r \<in> set (w_acks (world_of y)) \<Longrightarrow> known_ack (cl_last_req cl) r"
    then have "map_option cl_last_req (account (fo_server f) ?a) = Some (cl_last_req cl)"
      using level by (simp add: client_number_def)
    then obtain cl' where cl': "account ?s ?a = Some cl'" "cl_last_req cl' = cl_last_req cl"
      unfolding acc by auto
    have h: "transaction_history ?s = transaction_history p" using rep by (simp add: replica_of_def)
    have asked: "asked_for (sy_requests y) t" if "t \<in> set (sent_in addr ?s)" for t
      using D(3) [OF p(1)] that by (simp add: sent_in_def h)
    have "in_step addr [] 0 b (world_of (y\<lparr>sy_cluster := succession f\<rparr>))"
    proof (rule in_stepI [where cl = cl' and q = ?q and new = "sent_in addr ?s"])
      show "transfers addr (world_of (y\<lparr>sy_cluster := succession f\<rparr>)) = [] @ sent_in addr ?s"
        by (simp add: transfers_def sent_in_def)
      show "map tx_client_seqn (sent_in addr ?s) = [0 + 1..cl_last_req cl']"
        using ledger_account [OF led cl'(1)] by (simp add: sent_in_def)
    qed (use ledger_inv_wf [OF led] cl' bounds known asked in simp_all)
    then show ?thesis
      using succession_inv [OF D(1) f] D(4) asked by (simp add: steady_inv_def succession_def)
  qed
qed

lemma unknown_sent_nothing:
  assumes "ledger_inv n p" "account p (inet_ntop (sin_addr addr)) = None"
  shows "sent_in addr p = []"
  using assms by (auto simp: sent_in_def sent_by_def ledger_inv_def filter_empty_conv)

lemma steady_starts:
  assumes k: "cluster_inv sender past (Suc n) k"
    and new: "\<forall>p\<in>past. account p (inet_ntop (sin_addr addr)) = None"
    and addrs: "\<forall>f\<in>set (followers k). fo_addr f \<noteq> addr"
    and reg: "cluster_step sender k (cluster_event.Serve (AddClient (sin_addr addr))) = Some k'"
    and c: "sequence_number c = 1" "1 + int b < 2 ^ 31"
  shows "steady_inv addr sender (insert (leader k') past) n b
    \<lparr>sy_cluster = k', sy_client = c, sy_requests = [], sy_acks = []\<rparr>"
proof -
  let ?a = "inet_ntop (sin_addr addr)"
  have k': "cluster_inv sender (insert (leader k') past) n k'"
    using cluster_step_inv [OF k _ _ reg] by simp
  have "account (leader k) ?a = None" using new cluster_invD(3) [OF k] by blast
  moreover have l: "leader k' = fst (addClient (leader k) ?a)" using reg by (auto simp: case_prod_beta)
  ultimately have acc: "account (leader k') ?a = Some (new_client ?a)"
    and hist: "transaction_history (leader k') = transaction_history (leader k)"
    using addClient_new [OF ledger_inv_wf [OF cluster_invD(1) [OF k]], of ?a] by simp_all
  have "sent_in addr p = []" if "p \<in> past" for p
    using unknown_sent_nothing [OF cluster_invD(4) [OF k that]] new that by blast
  moreover from this cluster_invD(3) [OF k] have "sent_in addr (leader k') = []"
    by (simp add: sent_in_def hist)
  moreover have "fo_addr f \<noteq> addr" if "f \<in> set (followers k')" for f
    using cluster_step_addrs [OF reg that] addrs by auto
  moreover have "in_step addr [] 0 b \<lparr>w_server = leader k', w_client = c, w_requests = [], w_acks = []\<rparr>"
    using acc c calculation(2) ledger_inv_wf [OF cluster_invD(1) [OF k']]
    by (intro in_stepI [where cl = "new_client ?a" and q = 1 and new = "[]"])
      (simp_all add: new_client_def transfers_def sent_in_def in_i32_def)
  ultimately show ?thesis using k' by (auto simp: steady_inv_def world_of_def)
qed

lemma steady_holds: "steady addr sender past n b y \<Longrightarrow> steady_inv addr sender past n b y"
proof (induction rule: steady.induct)
  case (client_starts past n k k' c b)
  then show ?case by (intro steady_starts) (simp_all add: reigns_inv)
next
  case (event past n b y ev y')
  then show ?case by (intro steady_event)
next
  case (new_primary past n b y f)
  then show ?case by (intro steady_new_primary)
qed

lemma steady_run:
  assumes "steady addr sender past n b y" "run_steps (system_step addr sender) y evs = Some y'"
    and "\<forall>ev\<in>set evs. system_ok addr ev" "sum_list (map system_cost evs) \<le> n"
    and "sum_list (map system_replies evs) \<le> b"
  shows "\<exists>past'. steady addr sender past' (n - sum_list (map system_cost evs))
    (b - sum_list (map system_replies evs)) y'"
  using assms
proof (induction evs arbitrary: past n b y)
  case (Cons ev evs)
  obtain y1 where y1: "system_step addr sender y ev = Some y1" "run_steps (system_step addr sender) y1 evs = Some y'"
    using Cons.prems(2) by (auto split: option.splits)
  have "steady addr sender (insert (leader (sy_cluster y1)) past) (n - system_cost ev) (b - system_replies ev) y1"
    using Cons.prems y1(1) by (intro event) simp_all
  from Cons.IH [OF this y1(2)] Cons.prems show ?case by (auto simp: diff_diff_left)
qed auto

lemma in_cluster_run:
  "run_steps (system_step addr sender) y (map InCluster evs) =
     map_option (\<lambda>c. y\<lparr>sy_cluster := c\<rparr>) (cluster_run sender (sy_cluster y) evs)"
  by (induction evs arbitrary: y) (auto split: option.splits)

text \<open>The catching up of a backup in front of a client.\<close>

lemma steady_catches_up:
  assumes "steady addr sender past n b y" "i < length (followers (sy_cluster y))"
    and "\<not> fo_astray (followers (sy_cluster y) ! i)"
  shows "\<exists>past' k. steady addr sender past' n b (y\<lparr>sy_cluster := k\<rparr>) \<and>
    leader k = leader (sy_cluster y) \<and> length (followers k) = length (followers (sy_cluster y)) \<and>
    can_take_over (followers k ! i) \<and>
    client_number addr (fo_server (followers k ! i)) = client_number addr (leader k)"
proof -
  let ?k = "sy_cluster y"
  obtain j m k where k: "cluster_run sender ?k (replicate j (SendCopy i) @ replicate m (TakePacket i)) = Some k"
    "leader k = leader ?k" "length (followers k) = length (followers ?k)" "can_take_over (followers k ! i)"
    "replica_of (leader ?k) (fo_server (followers k ! i))"
    using cluster_inv_catches_up [OF steady_invD(1) [OF steady_holds [OF assms(1)]] assms(2,3)] by blast
  let ?evs = "map InCluster (replicate j (SendCopy i) @ replicate m (TakePacket i))"
  have run: "run_steps (system_step addr sender) y ?evs = Some (y\<lparr>sy_cluster := k\<rparr>)"
    by (simp only: in_cluster_run k(1) option.map)
  have ok: "\<forall>ev\<in>set ?evs. system_ok addr ev" by auto
  have "sum_list (map system_cost ?evs) = 0" "sum_list (map system_replies ?evs) = 0"
    by (simp_all add: comp_def sum_list_replicate)
  then obtain past' where "steady addr sender past' n b (y\<lparr>sy_cluster := k\<rparr>)"
    using steady_run [OF assms(1) run ok] by (auto simp: sum_list_replicate)
  moreover have "client_number addr (fo_server (followers k ! i)) = client_number addr (leader k)"
    using k(2,5) account_same_elems [of "fo_server (followers k ! i)" "leader k"]
    by (simp add: client_number_def replica_of_def)
  ultimately show ?thesis using k by (intro exI [of _ past'] exI [of _ k]) simp
qed

text \<open>C8. A client through any number of failovers. Requests and replies of the client are lost,
  repeated and reordered, and primaries die at any moment. The conditions: the amounts that this
  client and the others send are not negative, and at most 16777 clients register in all; nobody
  else uses the client's address; the client's number does not overflow; the channels between the
  servers lose nothing and keep their order; and a backup takes over only if it registered with its
  primary once, while it was empty, no update overtook its copy, the copy is in, and it has
  received the updates of this client's transfers. Other backups, survivors of an earlier primary
  among them, may register and follow, but do not take over. Then the client stays in step: its
  number is the last one that the present primary has accepted, or the next one; the primary's
  history holds exactly one transfer of the client for each number up to that last one, whichever
  primary executed it, each for a destination and an amount that the client asked for; its balance
  is what the history says; each of its requests can be served, and none is answered as out of
  sequence.\<close>

theorem client_through_failovers:
  assumes "steady addr sender past n b y"
  shows "\<exists>r. account (leader (sy_cluster y)) (inet_ntop (sin_addr addr)) = Some r \<and>
    cl_last_req r \<le> sequence_number (sy_client y) \<and> sequence_number (sy_client y) \<le> cl_last_req r + 1 \<and>
    cl_balance r = whole (ledger_balance (transaction_history (leader (sy_cluster y))) (inet_ntop (sin_addr addr))) \<and>
    map tx_client_seqn (sent_in addr (leader (sy_cluster y))) = [1..cl_last_req r] \<and>
    (\<forall>t\<in>set (sent_in addr (leader (sy_cluster y))). asked_for (sy_requests y) t) \<and>
    (\<forall>p\<in>set (sy_acks y). status_of_code (ntohl (ak_status (data_ack p))) \<noteq> Some ERROR_OUT_OF_SEQUENCE) \<and>
    (\<forall>i. \<exists>y'. system_step addr sender y (Deliver i) = Some y')"
proof -
  have inv: "steady_inv addr sender past n b y" using assms by (rule steady_holds)
  note D = steady_invD [OF inv]
  show ?thesis
    using D(2)
  proof (rule in_stepE)
    fix r :: client_dto and new
    assume "account (w_server (world_of y)) (inet_ntop (sin_addr addr)) = Some r"
      "cl_last_req r \<le> sequence_number (w_client (world_of y))"
      "sequence_number (w_client (world_of y)) \<le> cl_last_req r + 1"
      "\<And>p. p \<in> set (w_acks (world_of y)) \<Longrightarrow> known_ack (cl_last_req r) p"
    moreover have "\<exists>y'. system_step addr sender y (Deliver i) = Some y'" for i
      using steady_deliver [OF inv] by blast
    moreover have "asked_for (sy_requests y) t" if "t \<in> set (sent_in addr (leader (sy_cluster y)))" for t
      using in_step_asked [OF D(2)] that by simp
    ultimately show ?thesis
      using ledger_account [OF cluster_invD(1) [OF D(1)], of "inet_ntop (sin_addr addr)" r] known_ack_status
      by (intro exI [of _ r]) (simp add: sent_in_def del: system_step.simps, blast)
  qed
qed

text \<open>C36. A backup that takes over without the last transfers of a client leaves the client behind for
  good. Suppose it has received the client's transfers up to number \<open>m\<close>, and the client's number
  is beyond \<open>m + 1\<close>. Then the later ones are lost, although the client was told that they succeeded,
  and whatever the client sends, and however often, and whatever else happens, no transfer of it
  is ever executed again: its number does not go back, and every reply of the new primary is a
  refusal; the number in the reply, which would put it right, is only printed. Requests sent to
  the old primary do not reach the new one, replies of the old one may still come.\<close>

theorem client_left_behind:
  assumes "steady addr sender past n b y" "f \<in> set (followers (sy_cluster y))" "can_take_over f"
    and "client_number addr (fo_server f) = Some m" "m + 1 < sequence_number (sy_client y)"
    and "sequence_number (sy_client y) + int (sum_list (map replies evs)) < 2 ^ 31"
    and "\<forall>x\<in>set evs. event_ok addr x"
  shows "\<exists>w new. world_run addr \<lparr>w_server = leader (succession f), w_client = sy_client y,
      w_requests = [], w_acks = sy_acks y\<rparr> evs = Some w \<and>
    map tx_client_seqn (transfers addr w) = [1..m] \<and>
    sequence_number (sy_client y) \<le> sequence_number (w_client w) \<and> w_acks w = sy_acks y @ new \<and>
    (\<forall>p\<in>set new. status_of_code (ntohl (ak_status (data_ack p))) \<in>
       {Some ERROR_OUT_OF_SEQUENCE, Some ERROR_CLIENT_NOT_FOUND})"
proof -
  let ?s = "leader (succession f)"
  have inv: "steady_inv addr sender past n b y" using assms(1) by (rule steady_holds)
  note led = cluster_invD(1) [OF succession_inv [OF steady_invD(1) [OF inv] assms(2,3)]]
  obtain cl where cl: "account ?s (inet_ntop (sin_addr addr)) = Some cl" "cl_last_req cl = m"
    using assms(4) by (auto simp: client_number_def)
  have "\<forall>p\<in>set (sy_acks y). some_reply p"
    using steady_invD(2) [OF inv] known_ack_reply by (auto elim!: in_stepE)
  moreover have "map tx_client_seqn (transfers addr (world_start ?s (sy_client y))) = [1..m]"
    using ledger_account [OF led cl(1)] cl(2) by (simp add: transfers_def world_start_def)
  ultimately show ?thesis
    using client_ahead_never_served [OF ledger_inv_wf [OF led] cl(1) _ assms(6) _ assms(7)] cl(2) assms(5)
    by (fastforce simp: world_start_def)
qed

section \<open>A run with a failover\<close>

text \<open>A backup joins, two clients register, the first sends 100 to the second, and the primary dies
  after the backup has caught up.\<close>

definition first_request :: "system_event list" where
  "first_request =
     [InCluster (cluster_event.Serve (AddClient 2)),
      AtClient (Request (replicate PACKET_SIZE 0) True (inet_ntop 2) 100), Deliver 0]"

lemma joined:
  obtains k f past where "reigns zero_sockaddr past CLIENT_LIMIT k" "followers k = [f]" "\<not> fo_astray f"
    "fo_addr f = demo_addr" "fo_sending f = []" "\<forall>p\<in>past. clients p = vec_empty"
proof -
  let ?p = "server_new 4000 7 PRIMARY False zero_sockaddr"
  let ?k = "\<lparr>leader = ?p\<lparr>backup_servers := [demo_addr]\<rparr>,
    followers = [\<lparr>fo_addr = demo_addr, fo_server = joining, fo_sending = [], fo_channel = [], fo_astray = False\<rparr>]\<rparr>"
  have "cluster_step zero_sockaddr (cluster_start 4000 7 False zero_sockaddr) (Join demo_addr joining) = Some ?k"
    using fresh_new
    by (simp add: cluster_start_def joining_def registerBackup_def snapshot_packets_def)
      (simp add: server_new_def vec_empty_def)
  from goes_on [OF first_primary _ _ this]
  have "reigns zero_sockaddr (insert (leader ?k) {?p}) CLIENT_LIMIT ?k" by simp
  with that [of _ ?k] show ?thesis by (simp add: server_new_def)
qed

lemma registered_pair:
  assumes "server_wf s" "clients s = vec_empty" "s1 = fst (addClient s (inet_ntop 1))"
    "s2 = fst (addClient s1 (inet_ntop 2))"
  shows "account s2 (inet_ntop 1) = Some (new_client (inet_ntop 1))"
    "account s2 (inet_ntop 2) = Some (new_client (inet_ntop 2))" "server_wf s2"
proof -
  have n: "account s ip = None" for ip using assms(2) by (simp add: account_None_iff vec_empty_def)
  note A1 = addClient_new(1) [OF assms(1) n, of "inet_ntop 1", folded assms(3)]
  have wf1: "server_wf s1" using assms(1) by (simp add: assms(3) server_wf_addClient)
  have "account s1 (inet_ntop 2) = None" by (simp add: A1 n)
  note A2 = addClient_new(1) [OF wf1 this, folded assms(4)]
  show "account s2 (inet_ntop 1) = Some (new_client (inet_ntop 1))"
    "account s2 (inet_ntop 2) = Some (new_client (inet_ntop 2))" by (simp_all add: A2 A1)
  show "server_wf s2" using wf1 by (simp add: assms(4) server_wf_addClient)
qed

lemma started:
  obtains past k g s e where "steady client1_addr zero_sockaddr past (CLIENT_LIMIT - 1) 1
      \<lparr>sy_cluster = k, sy_client = client_new 4000, sy_requests = [], sy_acks = []\<rparr>"
    "followers k = [g]" "can_take_over g" "client_number client1_addr (fo_server g) = Some 0"
    "server_wf s" "clients s = vec_empty" "leader k = fst (addClient s (inet_ntop 1))"
proof -
  obtain past k f where k: "reigns zero_sockaddr past CLIENT_LIMIT k" "followers k = [f]" "\<not> fo_astray f"
    "fo_addr f = demo_addr" "fo_sending f = []" "\<forall>p\<in>past. clients p = vec_empty" by (rule joined)
  note inv = reigns_inv [OF k(1)]
  obtain s1 e1 where s1: "addClient (leader k) (inet_ntop 1) = (s1, e1)" by (cases "addClient (leader k) (inet_ntop 1)")
  have e: "clients (leader k) = vec_empty" using k(6) cluster_invD(3) [OF inv] by blast
  have none: "\<forall>p\<in>past. account p ip = None" for ip using k(6) by (simp add: account_None_iff vec_empty_def)
  have wf: "server_wf (leader k)" using cluster_invD(1) [OF inv] by (rule ledger_inv_wf)
  let ?k1 = "k\<lparr>leader := s1, followers := [hear_update e1 f]\<rparr>"
  let ?y1 = "\<lparr>sy_cluster = ?k1, sy_client = client_new 4000, sy_requests = [], sy_acks = []\<rparr>"
  have y1: "steady client1_addr zero_sockaddr (insert (leader ?k1) past) (CLIENT_LIMIT - 1) 1 ?y1"
    using k none s1 by (intro client_starts [of zero_sockaddr past _ k])
      (simp_all add: client1_addr_def demo_addr_def client_new_def CLIENT_LIMIT_def)
  have "\<not> fo_astray (hear_update e1 f)" using k(3,5) by (simp add: hear_update_def hear_def)
  then obtain past2 k2 where k2: "steady client1_addr zero_sockaddr past2 (CLIENT_LIMIT - 1) 1 (?y1\<lparr>sy_cluster := k2\<rparr>)"
    "leader k2 = s1" "length (followers k2) = 1" "can_take_over (followers k2 ! 0)"
    "client_number client1_addr (fo_server (followers k2 ! 0)) = client_number client1_addr s1"
    using steady_catches_up [OF y1, of 0] by auto
  have "client_number client1_addr s1 = Some 0"
    using addClient_new(1) [OF wf, of "inet_ntop 1"] none cluster_invD(3) [OF inv] s1
    by (simp add: client_number_def client1_addr_def new_client_def)
  then show ?thesis
    using k2 s1 e wf by (intro that [of past2 k2 "followers k2 ! 0" "leader k"])
      (auto simp: length_Suc_conv)
qed

lemma served_once:
  obtains past y n f rp where "steady client1_addr zero_sockaddr past n 1 y"
    "followers (sy_cluster y) = [f]" "can_take_over f"
    "client_number client1_addr (leader (sy_cluster y)) = Some 1" "sy_client y = client_new 4000"
    "client_number client1_addr (fo_server f) = Some 0" "sy_acks y = [ack_packet 1 rp]"
    "rp_status rp = SUCCESS" "canonical (rp_balance rp)"
proof -
  obtain past k g s where y1: "steady client1_addr zero_sockaddr past (CLIENT_LIMIT - 1) 1
      \<lparr>sy_cluster = k, sy_client = client_new 4000, sy_requests = [], sy_acks = []\<rparr>" (is "steady _ _ _ _ _ ?y1")
    and g: "followers k = [g]" "can_take_over g" "client_number client1_addr (fo_server g) = Some 0"
    and s: "server_wf s" "clients s = vec_empty" "leader k = fst (addClient s (inet_ntop 1))" by (rule started)
  obtain s2 e2 where s2: "addClient (leader k) (inet_ntop 2) = (s2, e2)" by (cases "addClient (leader k) (inet_ntop 2)")
  note acc = registered_pair [OF s(1,2) s(3), of s2, unfolded s2, simplified]
  let ?req = "request_packet (replicate PACKET_SIZE 0) 1 (inet_ntop 2) 100" and ?a = "inet_ntop (sin_addr client1_addr)"
  let ?s3 = "outcome s2 ?a (inet_ntop 2) 100 1"
  have i: "in_i32 100" "in_i32 1" by (simp_all add: in_i32_def)
  have ok: "verdict s2 ?a (inet_ntop 2) 100 1 = SUCCESS"
    using acc by (simp add: verdict_def client1_addr_def new_client_def INITIAL_BALANCE_def)
  obtain effs rp where t: "request_thread s2 ?req client1_addr = Some (?s3, effs @ [Send (ack_packet 1 rp) client1_addr])"
    and rp: "rp_status rp = SUCCESS" "canonical (rp_balance rp)"
  proof (rule request_thread_served [OF acc(3) i, where addr = client1_addr
        and junk = "replicate PACKET_SIZE 0" and dest = "inet_ntop 2"])
    fix effs rp
    assume "request_thread s2 ?req client1_addr = Some (outcome s2 ?a (inet_ntop (asked_dest
        (replicate PACKET_SIZE 0) (inet_ntop 2))) 100 1, effs @ [Send (ack_packet 1 rp) client1_addr])"
      "rp_status rp = verdict s2 ?a (inet_ntop (asked_dest (replicate PACKET_SIZE 0) (inet_ntop 2))) 100 1"
      "canonical (rp_balance rp)"
    then show thesis using ok by (intro that [of effs rp]) (simp_all add: inet_pton_into_def)
  qed
  let ?f3 = "hear_update (effs @ [Send (ack_packet 1 rp) client1_addr]) (hear_update e2 g)"
  let ?y3 = "\<lparr>sy_cluster = k\<lparr>leader := ?s3, followers := [?f3]\<rparr>, sy_client = client_new 4000,
    sy_requests = [?req], sy_acks = [ack_packet 1 rp]\<rparr>"
  let ?k2 = "k\<lparr>leader := s2, followers := [hear_update e2 g]\<rparr>"
  have "system_step client1_addr zero_sockaddr ?y1 (InCluster (cluster_event.Serve (AddClient 2))) =
      Some (?y1\<lparr>sy_cluster := ?k2\<rparr>)" using s2 g(1) by simp
  moreover have "system_step client1_addr zero_sockaddr (?y1\<lparr>sy_cluster := ?k2\<rparr>)
      (AtClient (Request (replicate PACKET_SIZE 0) True (inet_ntop 2) 100)) =
      Some (?y1\<lparr>sy_cluster := ?k2, sy_requests := [?req]\<rparr>)"
    by (simp add: world_of_def sent_request client_new_def Let_def)
  moreover have "system_step client1_addr zero_sockaddr (?y1\<lparr>sy_cluster := ?k2, sy_requests := [?req]\<rparr>) (Deliver 0) =
      Some ?y3" using t by simp
  ultimately have "run_steps (system_step client1_addr zero_sockaddr) ?y1 first_request = Some ?y3"
    by (simp only: first_request_def run_steps.simps option.case)
  from steady_run [OF y1 this]
  have "\<exists>past'. steady client1_addr zero_sockaddr past' (CLIENT_LIMIT - 2) 1 ?y3"
    by (simp add: first_request_def in_i32_def CLIENT_LIMIT_def)
  then obtain past' where y3: "steady client1_addr zero_sockaddr past' (CLIENT_LIMIT - 2) 1 ?y3" ..
  have "client_number client1_addr ?s3 = Some 1"
    using acc(1) ok by (simp add: client_number_def account_outcome last_req_settle_row client1_addr_def new_client_def)
  moreover have "can_take_over ?f3" using g(2) by (intro can_take_over_hear)
  moreover have "client_number client1_addr (fo_server ?f3) = Some 0" using g(3) by (simp add: hear_update_def hear_def)
  ultimately show ?thesis using y3 rp by (intro that [of past' _ ?y3 ?f3 rp]) simp_all
qed

theorem client_through_failovers_witness:
  "\<exists>past n y. steady client1_addr zero_sockaddr past n 1 y \<and> sequence_number (sy_client y) = 1 \<and>
     followers (sy_cluster y) = [] \<and>
     map tx_client_seqn (sent_in client1_addr (leader (sy_cluster y))) = [1] \<and>
     (\<forall>t\<in>set (sent_in client1_addr (leader (sy_cluster y))). asked_for (sy_requests y) t)"
proof -
  obtain past y n f rp where y: "steady client1_addr zero_sockaddr past n 1 y"
    "followers (sy_cluster y) = [f]" "can_take_over f"
    "client_number client1_addr (leader (sy_cluster y)) = Some 1" "sy_client y = client_new 4000"
    "client_number client1_addr (fo_server f) = Some 0" "sy_acks y = [ack_packet 1 rp]"
    "rp_status rp = SUCCESS" "canonical (rp_balance rp)" by (rule served_once)
  obtain past2 k where y2: "steady client1_addr zero_sockaddr past2 n 1 (y\<lparr>sy_cluster := k\<rparr>)"
    "leader k = leader (sy_cluster y)" "length (followers k) = 1" "can_take_over (followers k ! 0)"
    "client_number client1_addr (fo_server (followers k ! 0)) = client_number client1_addr (leader k)"
    using steady_catches_up [OF y(1), of 0] y(2,3) by (auto simp: can_take_over_def)
  let ?f = "followers k ! 0"
  have s: "steady client1_addr zero_sockaddr {leader (succession ?f)} n 1 (y\<lparr>sy_cluster := succession ?f\<rparr>)"
    using new_primary [OF y2(1), of ?f] y2(3-5) by simp
  have "client_number client1_addr (leader (succession ?f)) = Some 1"
    using y2(2,5) y(4) by (simp add: client_number_def)
  moreover have "followers (succession ?f) = []" by (simp add: succession_def)
  ultimately show ?thesis
    using client_through_failovers [OF s] s y(5)
    by (intro exI [of _ "{leader (succession ?f)}"] exI [of _ n] exI [of _ "y\<lparr>sy_cluster := succession ?f\<rparr>"])
      (auto simp: client_number_def client_new_def simp del: system_step.simps)
qed

text \<open>The same, but the primary dies while the update of the transfer is on its way and the client
  has had its reply.\<close>

theorem client_left_behind_witness:
  "\<exists>past n y f w. steady client1_addr zero_sockaddr past n 0 y \<and> f \<in> set (followers (sy_cluster y)) \<and>
     client_number client1_addr (leader (sy_cluster y)) = Some 1 \<and>
     world_run client1_addr \<lparr>w_server = leader (succession f), w_client = sy_client y,
       w_requests = [], w_acks = sy_acks y\<rparr>
       [Request (replicate PACKET_SIZE 0) True (inet_ntop 2) 100, world_event.Serve 0] = Some w \<and>
     transfers client1_addr w = []"
proof -
  obtain past y n f rp where y: "steady client1_addr zero_sockaddr past n 1 y"
    "followers (sy_cluster y) = [f]" "can_take_over f"
    "client_number client1_addr (leader (sy_cluster y)) = Some 1" "sy_client y = client_new 4000"
    "client_number client1_addr (fo_server f) = Some 0" "sy_acks y = [ack_packet 1 rp]"
    "rp_status rp = SUCCESS" "canonical (rp_balance rp)" by (rule served_once)
  let ?ev = "AtClient (Reply 0 (replicate PACKET_SIZE 0) zero_sockaddr [] [] 100 found)"
  let ?y = "y\<lparr>sy_client := incrementSequenceNumber (client_new 4000)\<rparr>"
  have "fst (handle_ack (client_new 4000) [] [] 100 (data_ack (ack_packet 1 rp)) found) =
      incrementSequenceNumber (client_new 4000)" using y(8,9) by (simp add: handle_ack_client)
  then have "system_step client1_addr zero_sockaddr y ?ev = Some ?y"
    using reply_step [of 0 "world_of y" 1 rp "replicate PACKET_SIZE 0" client1_addr zero_sockaddr "[]" "[]" 100 found] y(5,7,9)
    by (simp add: client_new_def in_i32_def world_of_def del: world_step.simps)
  from event [OF y(1) _ _ _ this]
  have y2: "steady client1_addr zero_sockaddr (insert (leader (sy_cluster y)) past) n 0 ?y" by simp
  have "\<exists>w. world_run client1_addr \<lparr>w_server = leader (succession f), w_client = sy_client ?y,
      w_requests = [], w_acks = sy_acks ?y\<rparr>
      [Request (replicate PACKET_SIZE 0) True (inet_ntop 2) 100, world_event.Serve 0] = Some w \<and>
      map tx_client_seqn (transfers client1_addr w) = [1..0]"
    using client_left_behind [OF y2, of f 0
        "[Request (replicate PACKET_SIZE 0) True (inet_ntop 2) 100, world_event.Serve 0]"] y(2,3,6)
    by (auto simp: incrementSequenceNumber_def client_new_def in_i32_def simp del: run_steps.simps)
  with y2 y(2,4) show ?thesis
    by (intro exI [of _ "insert (leader (sy_cluster y)) past"] exI [of _ n] exI [of _ ?y] exI [of _ f])
      (simp del: run_steps.simps)
qed

end
