(* ===== verification/Reordering.thy ===== *)
theory Reordering
  imports BankTheorems Handlers
begin

text \<open>
  What becomes of a backup when the network swaps two updates. A \<open>STATE_UPDATE\<close> carries balances
  and a sequence number, not changes, and nothing in it says which of two is the later one.
\<close>

section \<open>One update at a backup that knows both clients\<close>

lemma receive_known_update:
  fixes m :: packet
  defines "d \<equiv> data_state_update m"
  assumes wf: "server_wf b" "current_role b = BACKUP"
    and m: "packet_label m = Some STATE_UPDATE" "length m = PACKET_SIZE"
    and known: "account b (c_string (su_source_ip d)) \<noteq> None" "account b (c_string (su_dest_ip d)) \<noteq> None"
  obtains b' where "receive_all b sender [m] = Some b'" "server_wf b'" "current_role b' = BACKUP"
    "\<And>ip. account b' ip = map_option (update_row d) (account b ip)"
    "transaction_history b' = transaction_history b @ [su_transaction d]"
proof -
  obtain r1 r2 where r: "account b (c_string (su_source_ip d)) = Some r1" "account b (c_string (su_dest_ip d)) = Some r2"
    using known by auto
  let ?b = "recorded (b\<lparr>clients := (clients b)\<lparr>elems := map (update_row d) (elems (clients b))\<rparr>\<rparr>) d"
  have h: "server_receive b m sender = Some (?b, locked @ [Notify])"
    using handleStateUpdate_known [OF server_wf_table [OF wf(1)] r [unfolded d_def]] wf(2) m(1)
    by (simp add: server_receive_def d_def)
  show ?thesis
    using h wf(2) server_receive_wf [OF wf(1) m(2) h]
    by (intro that [of ?b]) (simp_all add: recorded_def account_def vec_get_map_rows)
qed

text \<open>The packet of a committed transfer, as the backup reads it.\<close>

lemma commit_packet_data:
  assumes p: "server_wf p" "current_role p = PRIMARY" "count_list (backup_servers p) addr = 1"
    and tr: "processTransaction p (inet_ntop a) dest v q = Some (p', effs, r)" "rp_status r = SUCCESS"
    and i: "in_i32 v" "in_i32 q"
  obtains c e m d where "account p (inet_ntop a) = Some c" "account p (inet_ntop dest) = Some e"
    "sends_to addr effs = [m]" "packet_label m = Some STATE_UPDATE" "length m = PACKET_SIZE"
    "d = data_state_update m" "c_string (su_source_ip d) = inet_ntop a" "c_string (su_dest_ip d) = inet_ntop dest"
    "su_source_balance d = cl_balance (settle_row (inet_ntop a) (inet_ntop dest) v q c)"
    "su_dest_balance d = cl_balance (settle_row (inet_ntop a) (inet_ntop dest) v q e)"
    "tx_client_seqn (su_transaction d) = q" "tx_source_ip (su_transaction d) = ip_array (inet_ntop a)"
    "p' = committed p (inet_ntop a) (inet_ntop dest) v q"
    "verdict p (inet_ntop a) (inet_ntop dest) v q = SUCCESS"
proof -
  let ?x = "inet_ntop a" and ?y = "inet_ntop dest"
  note D = processTransactionD [OF p(1) i(2) tr(1)]
  have ok: "verdict p ?x ?y v q = SUCCESS" using D(2) tr(2) by simp
  then have p': "p' = committed p ?x ?y v q" using D(1) by (simp add: outcome_def)
  have s: "sends_to addr effs = sends_to addr (propagated p' ?x ?y SUCCESS)" using D(5) tr(2) by simp
  obtain c e tx where c: "account p ?x = Some c" "account p ?y = Some e"
    and tx: "tx_client_seqn tx = q" "tx_source_ip tx = ip_array ?x"
    and valid: "valid_client (settle_row ?x ?y v q c)" "valid_client (settle_row ?x ?y v q e)" "valid_transaction tx"
    and m: "sends_to addr (propagated (committed p ?x ?y v q) ?x ?y SUCCESS) =
       [state_update_packet tx (settle_row ?x ?y v q c) (settle_row ?x ?y v q e)]"
    using p ok i by (rule commit_packet)
  let ?m = "state_update_packet tx (settle_row ?x ?y v q c) (settle_row ?x ?y v q e)"
  have d: "data_state_update ?m =
    \<lparr>su_transaction = tx, su_source_ip = ip_array ?x, su_source_balance = cl_balance (settle_row ?x ?y v q c),
     su_dest_ip = ip_array ?y, su_dest_balance = cl_balance (settle_row ?x ?y v q e)\<rparr>"
    using data_state_update_packet [OF valid(3,1,2)] account_address [OF c(1)] account_address [OF c(2)] by simp
  have len: "length ?m = PACKET_SIZE"
    using valid by (simp add: state_update_packet_def c_state_update.enc_width valid_state_update_def valid_client_def)
  show ?thesis
    using c s m len ok p' tx by (intro that [of c e ?m "data_state_update ?m"]) (simp_all add: d)
qed

section \<open>Two updates that are swapped\<close>

text \<open>What the later update would have left is overwritten by the earlier one.\<close>

lemma update_row_overwrites:
  assumes "cl_address c = x" "c_string (su_source_ip d1) = x" "c_string (su_source_ip d2) = x"
    and "su_source_balance d1 = cl_balance (settle_row x y v q c)"
    and "c_string (su_dest_ip d1) = y" "su_dest_balance d1 = cl_balance (settle_row x y v q e)"
    and "x = y \<Longrightarrow> e = c"
  shows "cl_balance (update_row d1 (update_row d2 c)) = cl_balance (settle_row x y v q c)"
    "cl_last_req (update_row d1 (update_row d2 c)) = tx_client_seqn (su_transaction d1)"
  using assms by (auto simp: update_row_def Let_def)

text \<open>C18. Two updates that the network swaps make the backup repeat the second transfer. A client
  makes two transfers, one after the other; the backup, which held the primary's state before,
  receives the two updates in the other order and takes over. It holds both history entries and
  the earlier balance and number: when the client repeats its second request (its reply was lost,
  say) it is executed again, and the history holds it twice.\<close>

theorem swapped_updates_repeat_transfer:
  assumes rep: "replicating addr (p, b)" and i: "in_i32 v1" "in_i32 q1" "in_i32 v2" "in_i32 q2"
    and tr1: "processTransaction p (inet_ntop a) dest1 v1 q1 = Some (p1, effs1, r1)" "rp_status r1 = SUCCESS"
    and tr2: "processTransaction p1 (inet_ntop a) dest2 v2 q2 = Some (p2, effs2, r2)" "rp_status r2 = SUCCESS"
  shows "\<exists>b' b2 effs r.
    receive_all b sender (sends_to addr effs2 @ sends_to addr effs1) = Some b' \<and>
    processTransaction (fst (promoteToPrimary b')) (inet_ntop a) dest2 v2 q2 = Some (b2, effs, r) \<and>
    rp_status r = SUCCESS \<and>
    map tx_client_seqn (sent_by (inet_ntop a) (transaction_history b2)) =
      map tx_client_seqn (sent_by (inet_ntop a) (transaction_history p)) @ [q2, q1, q2]"
proof -
  let ?x = "inet_ntop a" and ?y1 = "inet_ntop dest1" and ?y2 = "inet_ntop dest2"
  have p: "server_wf p" "current_role p = PRIMARY" "count_list (backup_servers p) addr = 1"
    and b: "current_role b = BACKUP" "replica_of p b" "table_wf cl_address (clients b)"
    using rep by (simp_all add: replicating_def)
  have wfb: "server_wf b" using p(1) b by (simp add: server_wf_def replica_of_def)
  have acc: "account b ip = account p ip" for ip
    using b(2) by (intro account_same_elems) (simp add: replica_of_def)
  obtain c1 e1 m1 d1 where u1: "account p ?x = Some c1" "account p ?y1 = Some e1"
    "sends_to addr effs1 = [m1]" "packet_label m1 = Some STATE_UPDATE" "length m1 = PACKET_SIZE"
    "d1 = data_state_update m1" "c_string (su_source_ip d1) = ?x" "c_string (su_dest_ip d1) = ?y1"
    "su_source_balance d1 = cl_balance (settle_row ?x ?y1 v1 q1 c1)"
    "su_dest_balance d1 = cl_balance (settle_row ?x ?y1 v1 q1 e1)"
    "tx_client_seqn (su_transaction d1) = q1" "tx_source_ip (su_transaction d1) = ip_array ?x"
    "p1 = committed p ?x ?y1 v1 q1" "verdict p ?x ?y1 v1 q1 = SUCCESS"
    using p tr1 i(1,2) by (rule commit_packet_data)
  have p1: "server_wf p1" "current_role p1 = PRIMARY" "count_list (backup_servers p1) addr = 1"
    using server_wf_committed [OF p(1) i(1,2)] p by (simp_all add: u1(13) committed_frame)
  obtain c2 e2 m2 d2 where u2: "account p1 ?x = Some c2" "account p1 ?y2 = Some e2"
    "sends_to addr effs2 = [m2]" "packet_label m2 = Some STATE_UPDATE" "length m2 = PACKET_SIZE"
    "d2 = data_state_update m2" "c_string (su_source_ip d2) = ?x" "c_string (su_dest_ip d2) = ?y2"
    "su_source_balance d2 = cl_balance (settle_row ?x ?y2 v2 q2 c2)"
    "su_dest_balance d2 = cl_balance (settle_row ?x ?y2 v2 q2 e2)"
    "tx_client_seqn (su_transaction d2) = q2" "tx_source_ip (su_transaction d2) = ip_array ?x"
    "p2 = committed p1 ?x ?y2 v2 q2" "verdict p1 ?x ?y2 v2 q2 = SUCCESS"
    using p1 tr2 i(3,4) by (rule commit_packet_data)
  have known: "account p ?y2 \<noteq> None" using u2(2) by (auto simp: u1(13))
  obtain b1 where b1: "receive_all b sender [m2] = Some b1" "server_wf b1" "current_role b1 = BACKUP"
    "\<And>ip. account b1 ip = map_option (update_row d2) (account b ip)"
    "transaction_history b1 = transaction_history b @ [su_transaction d2]"
    using receive_known_update [OF wfb b(1) u2(4,5)] u1(1) known u2(6,7,8) acc by auto
  obtain b' where b': "receive_all b1 sender [m1] = Some b'" "server_wf b'" "current_role b' = BACKUP"
    "\<And>ip. account b' ip = map_option (update_row d1) (account b1 ip)"
    "transaction_history b' = transaction_history b1 @ [su_transaction d1]"
    using receive_known_update [OF b1(2,3) u1(4,5)] u1(1,2,6,7,8) acc b1(4) by auto
  let ?row = "update_row d1 (update_row d2 c1)" and ?b = "fst (promoteToPrimary b')"
  have c2: "c2 = settle_row ?x ?y1 v1 q1 c1" using u1(1) u2(1) by (simp add: u1(13))
  have same: "?x = ?y1 \<Longrightarrow> e1 = c1" using u1(1,2) by simp
  have row: "cl_balance ?row = cl_balance c2" "cl_last_req ?row = q1"
    using update_row_overwrites [OF account_address [OF u1(1)] u1(7) u2(7) u1(9,8,10) same] u1(11)
    by (simp_all add: c2)
  have B: "server_wf ?b" "\<And>ip. account ?b ip = account b' ip" "transaction_history ?b = transaction_history b'"
    using b'(2,3) by (simp_all add: promoteToPrimary_def server_wf_def account_def Let_def)
  have again: "verdict ?b ?x ?y2 v2 q2 = SUCCESS"
    using u2(1,14) u1(1) known row account_address [OF u1(1)]
    by (auto simp: verdict_SUCCESS_iff B(2) b'(4) b1(4) acc c2 last_req_settle_row)
  obtain b2 effs r where r: "processTransaction ?b ?x dest2 v2 q2 = Some (b2, effs, r)"
    using processTransaction_eq [OF B(1) i(4)] by (simp add: Let_def)
  then have "rp_status r = SUCCESS" "b2 = committed ?b ?x ?y2 v2 q2"
    using processTransactionD [OF B(1) i(4) r] again by (simp_all add: outcome_def)
  moreover have "receive_all b sender (sends_to addr effs2 @ sends_to addr effs1) = Some b'"
    unfolding u1(3) u2(3) receive_all_append b1(1) by (simp only: bind.bind_lunit b'(1))
  moreover have "transaction_history b = transaction_history p" using b(2) by (simp add: replica_of_def)
  ultimately show ?thesis
    using r u1(11,12) u2(11,12) by (auto simp: sent_by_def B(3) b'(5) b1(5))
qed

theorem swapped_updates_repeat_transfer_witness:
  "\<exists>p1 effs1 r1 p2 effs2 r2 b' b2 effs r.
     processTransaction (demo\<lparr>backup_servers := [demo_addr]\<rparr>) (inet_ntop 1) 2 100 1 = Some (p1, effs1, r1) \<and>
     processTransaction p1 (inet_ntop 1) 2 50 2 = Some (p2, effs2, r2) \<and>
     receive_all demo_backup zero_sockaddr (sends_to demo_addr effs2 @ sends_to demo_addr effs1) = Some b' \<and>
     processTransaction (fst (promoteToPrimary b')) (inet_ntop 1) 2 50 2 = Some (b2, effs, r) \<and>
     rp_status r = SUCCESS \<and>
     map tx_client_seqn (sent_by (inet_ntop 1) (transaction_history b2)) = [2, 1, 2]"
proof -
  let ?p = "demo\<lparr>backup_servers := [demo_addr]\<rparr>" and ?x = "inet_ntop 1" and ?y = "inet_ntop 2"
  have i: "in_i32 100" "in_i32 1" "in_i32 50" "in_i32 2" by (simp_all add: in_i32_def)
  have wf: "server_wf ?p" using replicating_demo by (simp add: replicating_def)
  have ok: "verdict ?p ?x ?y 100 1 = SUCCESS"
    using demo_verdict by (simp add: verdict_def account_same_clients [of ?p demo])
  let ?p1 = "committed ?p ?x ?y 100 1"
  have wf1: "server_wf ?p1" using wf i(1,2) by (rule server_wf_committed)
  have ok1: "verdict ?p1 ?x ?y 50 2 = SUCCESS"
    by (simp add: verdict_def account_same_clients [of ?p demo] settle_row_def Let_def)
  obtain effs1 r1 where t1: "processTransaction ?p ?x 2 100 1 = Some (?p1, effs1, r1)" "rp_status r1 = SUCCESS"
    using ok by (simp add: processTransaction_eq [OF wf i(2)] outcome_def Let_def)
  obtain p2 effs2 r2 where t2: "processTransaction ?p1 ?x 2 50 2 = Some (p2, effs2, r2)" "rp_status r2 = SUCCESS"
    using ok1 by (simp add: processTransaction_eq [OF wf1 i(4)] Let_def)
  have h: "transaction_history ?p = []" by (simp add: demo_simps)
  show ?thesis
    using swapped_updates_repeat_transfer [OF replicating_demo i t1 t2, of zero_sockaddr] t1 t2
    by (auto simp: h sent_by_def)
qed

end
