(* ===== verification/ElectionRound.thy ===== *)
theory ElectionRound
  imports ElectionTheorems
begin

text \<open>
  Elections among a group of servers that hear each other. A server stands when the thread of
  \<open>startElection\<close> begins, takes the packets that are on the way to it in any order, answers them as
  its handlers do, and finishes when the thread's sleep ends. A broadcast reaches every server of
  the group, the sender too. The elections are undisturbed: no packet is lost, and the sleep of a
  candidate is long enough for its packet to be heard and for what was sent to it to arrive.
\<close>

section \<open>The group\<close>

datatype stage = Waiting | Standing | Over

text \<open>\<open>net\<close> holds the packets on the way: for which member, and with the sender's address.\<close>

record group =
  members :: "server list"
  stages :: "stage list"
  net :: "(nat \<times> packet \<times> sockaddr) list"

definition group_start :: "server list \<Rightarrow> group" where
  "group_start S = \<lparr>members = S, stages = replicate (length S) Waiting, net = []\<rparr>"

text \<open>\<open>addrs\<close> are the addresses of the members. A packet goes to the member that has its address, or to
  all members at its port when it is a broadcast.\<close>

definition reaches :: "sockaddr \<Rightarrow> sockaddr \<Rightarrow> bool" where
  "reaches a m \<longleftrightarrow>
     a = m \<or> sin_addr a = inet_pton_into BROADCAST_ADDR 0 \<and> sin_port a = sin_port m"

fun routed :: "sockaddr list \<Rightarrow> nat \<Rightarrow> effect list \<Rightarrow> (nat \<times> packet \<times> sockaddr) list" where
  "routed addrs i [] = []"
| "routed addrs i (Send p a # effs) =
     map (\<lambda>j. (j, p, addrs ! i)) (filter (\<lambda>j. reaches a (addrs ! j)) [0..<length addrs]) @ routed addrs i effs"
| "routed addrs i (_ # effs) = routed addrs i effs"

definition acted :: "sockaddr list \<Rightarrow> nat \<Rightarrow> server \<times> effect list \<Rightarrow> group \<Rightarrow> group" where
  "acted addrs i r g =
     g\<lparr>members := (members g)[i := fst r], net := net g @ routed addrs i (snd r)\<rparr>"

text \<open>Nothing of a candidate's, and nothing for it, is on the way any more.\<close>

definition heard_out :: "sockaddr list \<Rightarrow> nat \<Rightarrow> group \<Rightarrow> bool" where
  "heard_out addrs i g \<longleftrightarrow> (\<forall>(j, p, a)\<in>set (net g). j \<noteq> i \<and> a \<noteq> addrs ! i)"

datatype group_event = Stand nat | Hear nat | Finish nat

fun group_step :: "sockaddr list \<Rightarrow> group \<Rightarrow> group_event \<Rightarrow> group option" where
  "group_step addrs g (Stand i) =
     (if i < length (members g) \<and> stages g ! i \<noteq> Standing \<and> current_role (members g ! i) = BACKUP
      then Some ((acted addrs i (election_begin (members g ! i)) g)\<lparr>stages := (stages g)[i := Standing]\<rparr>)
      else None)"
| "group_step addrs g (Hear k) =
     (if k < length (net g)
      then (case net g ! k of (i, p, a) \<Rightarrow>
        map_option (\<lambda>r. acted addrs i r (g\<lparr>net := take k (net g) @ drop (Suc k) (net g)\<rparr>))
          (server_receive (members g ! i) p a))
      else None)"
| "group_step addrs g (Finish i) =
     (if i < length (members g) \<and> stages g ! i = Standing \<and> heard_out addrs i g
      then Some ((acted addrs i (election_end (members g ! i)) g)\<lparr>stages := (stages g)[i := Over]\<rparr>)
      else None)"

abbreviation group_run :: "sockaddr list \<Rightarrow> group \<Rightarrow> group_event list \<Rightarrow> group option" where
  "group_run addrs \<equiv> run_steps (group_step addrs)"

text \<open>The group at the start: standbys on one port, none of which stands.\<close>

definition standbys :: "sockaddr list \<Rightarrow> server list \<Rightarrow> bool" where
  "standbys addrs S \<longleftrightarrow> length addrs = length S \<and>
     (\<forall>s\<in>set S. current_role s = BACKUP \<and> \<not> election_in_progress s \<and>
        (\<forall>a\<in>set addrs. sin_port a = sin_port (broadcast_sockaddr (socket_port s))))"

section \<open>Packets of an election\<close>

definition round_labels :: "packet_type set" where
  "round_labels = {ELECTION, ELECTION_ANSWER, NEW_PRIMARY_ANNOUNCEMENT, REGISTER_BACKUP,
     ADD_CLIENT_UPDATE, ADD_HISTORY_ENTRY}"

definition round_packet :: "packet \<Rightarrow> bool" where
  "round_packet p \<longleftrightarrow> packet_label p \<in> Some ` round_labels"

definition outbids :: "server \<Rightarrow> packet \<Rightarrow> bool" where
  "outbids s p \<longleftrightarrow>
     packet_label p \<in> {Some ELECTION, Some ELECTION_ANSWER} \<and> packet_id p > server_id s"

lemma handleClientUpdate_frame:
  "handleClientUpdate s p = (s', effs) \<Longrightarrow>
     server_id s' = server_id s \<and> socket_port s' = socket_port s \<and> current_role s' = current_role s \<and>
     election_in_progress s' = election_in_progress s \<and> election_lost s' = election_lost s \<and>
     (\<forall>q b. Send q b \<notin> set effs)"
  by (auto simp: handleClientUpdate_def locked_def Let_def split: if_splits)

lemma snapshot_labels: "q \<in> set (snapshot_packets s) \<Longrightarrow> packet_label q \<in> {Some ADD_CLIENT_UPDATE, Some ADD_HISTORY_ENTRY}"
  by (auto simp: snapshot_packets_def)

text \<open>What handling one of them does to the server, and what it sends.\<close>

lemma hear_round:
  assumes "round_packet p" "server_receive s p a = Some (s', effs)"
  shows "server_id s' = server_id s" "socket_port s' = socket_port s"
    "election_in_progress s' = election_in_progress s"
    "election_lost s' \<longleftrightarrow> election_lost s \<or>
       election_in_progress s \<and> (packet_label p = Some NEW_PRIMARY_ANNOUNCEMENT \<or> outbids s p)"
    "current_role s' =
       (if packet_label p = Some NEW_PRIMARY_ANNOUNCEMENT \<and> packet_id p \<noteq> server_id s then BACKUP else current_role s)"
    "Send q b \<in> set effs \<Longrightarrow> round_packet q \<and>
       packet_label q \<notin> {Some ELECTION, Some NEW_PRIMARY_ANNOUNCEMENT} \<and>
       (packet_label q = Some ELECTION_ANSWER \<longrightarrow> packet_id q = server_id s)"
    "packet_label p = Some ELECTION \<Longrightarrow> packet_id p \<le> server_id s \<Longrightarrow>
       Send (id_packet ELECTION_ANSWER (server_id s)) a \<in> set effs"
proof -
  consider "packet_label p = Some ELECTION" | "packet_label p = Some ELECTION_ANSWER"
    | "packet_label p = Some NEW_PRIMARY_ANNOUNCEMENT" | "packet_label p = Some REGISTER_BACKUP"
    | "packet_label p = Some ADD_CLIENT_UPDATE" | "packet_label p = Some ADD_HISTORY_ENTRY"
    using assms(1) by (auto simp: round_packet_def round_labels_def)
  then have "server_id s' = server_id s \<and> socket_port s' = socket_port s \<and>
    election_in_progress s' = election_in_progress s \<and>
    (election_lost s' \<longleftrightarrow> election_lost s \<or>
       election_in_progress s \<and> (packet_label p = Some NEW_PRIMARY_ANNOUNCEMENT \<or> outbids s p)) \<and>
    current_role s' =
       (if packet_label p = Some NEW_PRIMARY_ANNOUNCEMENT \<and> packet_id p \<noteq> server_id s then BACKUP else current_role s) \<and>
    (Send q b \<in> set effs \<longrightarrow> round_packet q \<and>
       packet_label q \<notin> {Some ELECTION, Some NEW_PRIMARY_ANNOUNCEMENT} \<and>
       (packet_label q = Some ELECTION_ANSWER \<longrightarrow> packet_id q = server_id s)) \<and>
    (packet_label p = Some ELECTION \<and> packet_id p \<le> server_id s \<longrightarrow>
       Send (id_packet ELECTION_ANSWER (server_id s)) a \<in> set effs)"
  proof cases
    case 1
    then show ?thesis using assms(2)
      by (auto simp: server_receive_def handleElectionPacket_def outbids_def round_packet_def round_labels_def
          Let_def split: if_splits)
  next
    case 2
    then show ?thesis using assms(2)
      by (auto simp: server_receive_def handleElectionAnswerPacket_def outbids_def split: if_splits)
  next
    case 3
    then show ?thesis using assms(2)
      by (auto simp: server_receive_def handleNewPrimaryAnnouncementPacket_def outbids_def round_packet_def
          round_labels_def Let_def split: if_splits)
  next
    case 4
    then show ?thesis using assms(2) snapshot_labels [of q s]
      by (auto simp: server_receive_def registerBackup_def locked_def outbids_def round_packet_def round_labels_def
          Let_def split: if_splits)
  next
    case 5
    then show ?thesis using assms(2) handleClientUpdate_frame [of s p s' effs]
      by (auto simp: server_receive_def outbids_def split: if_splits)
  next
    case 6
    then show ?thesis using assms(2)
      by (auto simp: server_receive_def handleHistoryEntry_def locked_def outbids_def Let_def split: if_splits)
  qed
  then show "server_id s' = server_id s" "socket_port s' = socket_port s"
    "election_in_progress s' = election_in_progress s"
    "election_lost s' \<longleftrightarrow> election_lost s \<or>
       election_in_progress s \<and> (packet_label p = Some NEW_PRIMARY_ANNOUNCEMENT \<or> outbids s p)"
    "current_role s' =
       (if packet_label p = Some NEW_PRIMARY_ANNOUNCEMENT \<and> packet_id p \<noteq> server_id s then BACKUP else current_role s)"
    "Send q b \<in> set effs \<Longrightarrow> round_packet q \<and>
       packet_label q \<notin> {Some ELECTION, Some NEW_PRIMARY_ANNOUNCEMENT} \<and>
       (packet_label q = Some ELECTION_ANSWER \<longrightarrow> packet_id q = server_id s)"
    "packet_label p = Some ELECTION \<Longrightarrow> packet_id p \<le> server_id s \<Longrightarrow>
       Send (id_packet ELECTION_ANSWER (server_id s)) a \<in> set effs" by blast+
qed

section \<open>What holds while a group elects\<close>

text \<open>\<open>ids\<close> are the identifiers of the members and \<open>w\<close> is the member with the greatest.\<close>

definition member_ok :: "sockaddr list \<Rightarrow> u32 list \<Rightarrow> nat \<Rightarrow> nat \<Rightarrow> server \<Rightarrow> stage \<Rightarrow> bool" where
  "member_ok addrs ids w i s st \<longleftrightarrow>
     server_id s = ids ! i \<and>
     (\<forall>a\<in>set addrs. sin_port a = sin_port (broadcast_sockaddr (socket_port s))) \<and>
     (election_in_progress s \<longleftrightarrow> st = Standing) \<and>
     (current_role s = PRIMARY \<longleftrightarrow> i = w \<and> st = Over) \<and>
     (i = w \<and> st = Standing \<longrightarrow> \<not> election_lost s)"

definition mail_ok :: "sockaddr list \<Rightarrow> u32 list \<Rightarrow> nat \<Rightarrow> stage \<Rightarrow> nat \<times> packet \<times> sockaddr \<Rightarrow> bool" where
  "mail_ok addrs ids w st = (\<lambda>(j, p, a). j < length addrs \<and> round_packet p \<and>
     (\<exists>k<length addrs. a = addrs ! k \<and>
        (packet_label p \<in> {Some ELECTION, Some ELECTION_ANSWER} \<longrightarrow> packet_id p = ids ! k) \<and>
        (packet_label p = Some NEW_PRIMARY_ANNOUNCEMENT \<longrightarrow> packet_id p = ids ! w \<and> st = Over)))"

text \<open>A candidate of a smaller identifier has lost, or its packet or the answer to it is on the way.\<close>

definition beaten :: "sockaddr list \<Rightarrow> u32 list \<Rightarrow> nat \<Rightarrow> group \<Rightarrow> nat \<Rightarrow> bool" where
  "beaten addrs ids w g i \<longleftrightarrow> election_lost (members g ! i) \<or>
     (\<exists>p. (w, p, addrs ! i) \<in> set (net g) \<and> packet_label p = Some ELECTION) \<or>
     (\<exists>p a. (i, p, a) \<in> set (net g) \<and> packet_label p = Some ELECTION_ANSWER \<and> packet_id p = ids ! w)"

definition best :: "sockaddr list \<Rightarrow> u32 list \<Rightarrow> nat \<Rightarrow> bool" where
  "best addrs ids w \<longleftrightarrow> w < length addrs \<and> (\<forall>i<length addrs. i \<noteq> w \<longrightarrow> ids ! i < ids ! w)"

definition group_inv :: "sockaddr list \<Rightarrow> u32 list \<Rightarrow> nat \<Rightarrow> group \<Rightarrow> bool" where
  "group_inv addrs ids w g \<longleftrightarrow>
     length (members g) = length addrs \<and> length (stages g) = length addrs \<and>
     (\<forall>i<length addrs. member_ok addrs ids w i (members g ! i) (stages g ! i)) \<and>
     (\<forall>m\<in>set (net g). mail_ok addrs ids w (stages g ! w) m) \<and>
     (\<forall>i<length addrs. i \<noteq> w \<and> stages g ! i = Standing \<longrightarrow> beaten addrs ids w g i)"

lemma routed_iff:
  "(j, p, a) \<in> set (routed addrs i effs) \<longleftrightarrow>
     j < length addrs \<and> a = addrs ! i \<and> (\<exists>b. Send p b \<in> set effs \<and> reaches b (addrs ! j))"
  by (induction addrs i effs rule: routed.induct) auto

lemma best_le: "best addrs ids w \<Longrightarrow> i < length addrs \<Longrightarrow> ids ! i \<le> ids ! w"
  by (cases "i = w") (auto simp: best_def less_imp_le)

lemma stand_inv:
  assumes "group_inv addrs ids w g" "best addrs ids w" "group_step addrs g (Stand i) = Some g'"
  shows "group_inv addrs ids w g'"
proof -
  let ?s = "members g ! i"
  have i: "i < length addrs" "stages g ! i \<noteq> Standing" "current_role ?s = BACKUP"
    and g': "g' = (acted addrs i (election_begin ?s) g)\<lparr>stages := (stages g)[i := Standing]\<rparr>"
    using assms(1,3) by (auto simp: group_inv_def split: if_splits)
  note inv = assms(1)[unfolded group_inv_def]
  have ok: "member_ok addrs ids w i ?s (stages g ! i)" using inv i(1) by blast
  have nw: "stages g ! w \<noteq> Over" if "i = w" using ok i(3) that by (simp add: member_ok_def)
  have port: "reaches (broadcast_sockaddr (socket_port ?s)) a" if "a \<in> set addrs" for a
    using ok that by (auto simp: member_ok_def reaches_def broadcast_sockaddr_def)
  have m: "member_ok addrs ids w j (members g' ! j) (stages g' ! j)" if "j < length addrs" for j
    using inv that ok i by (cases "j = i") (auto simp: g' acted_def member_ok_def election_begin_def)
  have id: "server_id ?s = ids ! i" using ok by (simp add: member_ok_def)
  have n: "mail_ok addrs ids w (stages g' ! w) m" if "m \<in> set (net g')" for m
  proof -
    obtain j p a where [simp]: "m = (j, p, a)" by (cases m)
    have "m \<in> set (net g) \<or> m \<in> set (routed addrs i (snd (election_begin ?s)))"
      using that by (simp add: g' acted_def)
    then show ?thesis
    proof
      assume "m \<in> set (net g)"
      then have "mail_ok addrs ids w (stages g ! w) m" using inv by blast
      then show ?thesis using nw inv i by (cases "i = w") (auto simp: mail_ok_def g')
    next
      assume "m \<in> set (routed addrs i (snd (election_begin ?s)))"
      then show ?thesis using i id
        by (auto simp: routed_iff mail_ok_def election_begin_def round_packet_def round_labels_def)
    qed
  qed
  have b: "beaten addrs ids w g' j" if "j < length addrs" "j \<noteq> w" "stages g' ! j = Standing" for j
  proof (cases "j = i")
    case True
    have "addrs ! w \<in> set addrs" "w < length addrs" using assms(2) by (simp_all add: best_def)
    then have "(w, id_packet ELECTION (server_id ?s), addrs ! i) \<in> set (net g')"
      using port by (auto simp: g' acted_def routed_iff election_begin_def)
    then show ?thesis using True by (auto simp: beaten_def intro!: exI)
  next
    case False
    then have "beaten addrs ids w g j" using inv that by (simp add: g' acted_def)
    then show ?thesis using False by (auto simp: beaten_def g' acted_def)
  qed
  show ?thesis
    using inv m n b by (simp add: group_inv_def) (simp add: g' acted_def)
qed

lemma finish_inv:
  assumes "group_inv addrs ids w g" "best addrs ids w" "group_step addrs g (Finish i) = Some g'"
  shows "group_inv addrs ids w g'"
proof -
  let ?s = "members g ! i"
  have i: "i < length addrs" "stages g ! i = Standing" "heard_out addrs i g"
    and g': "g' = (acted addrs i (election_end ?s) g)\<lparr>stages := (stages g)[i := Over]\<rparr>"
    using assms(1,3) by (auto simp: group_inv_def split: if_splits)
  note inv = assms(1)[unfolded group_inv_def]
  have ok: "member_ok addrs ids w i ?s (stages g ! i)" using inv i(1) by blast
  have role: "current_role ?s = BACKUP"
    using ok i(2) by (cases "current_role ?s") (auto simp: member_ok_def)
  have lost: "election_lost ?s \<longleftrightarrow> i \<noteq> w"
  proof (cases "i = w")
    case False
    then have "beaten addrs ids w g i" using inv i by blast
    then show ?thesis using False i(3) by (fastforce simp: beaten_def heard_out_def)
  qed (use ok i in \<open>simp add: member_ok_def\<close>)
  have e: "election_end ?s = (if i = w
      then (?s\<lparr>election_in_progress := False, current_role := PRIMARY, backup_servers := []\<rparr>,
        locked @ [SpawnHeartbeatSender, Send (id_packet NEW_PRIMARY_ANNOUNCEMENT (server_id ?s))
          (broadcast_sockaddr (socket_port ?s))])
      else (?s\<lparr>election_in_progress := False\<rparr>, [SpawnHeartbeatMonitor]))"
    using lost role by (cases "i = w") (simp_all add: election_end_def promoteToPrimary_def announceNewPrimary_def Let_def)
  have m: "member_ok addrs ids w j (members g' ! j) (stages g' ! j)" if "j < length addrs" for j
    using inv that ok i role by (cases "j = i") (auto simp: g' acted_def member_ok_def e)
  have id: "server_id ?s = ids ! i" using ok by (simp add: member_ok_def)
  have n: "mail_ok addrs ids w (stages g' ! w) m" if "m \<in> set (net g')" for m
  proof -
    obtain j p a where [simp]: "m = (j, p, a)" by (cases m)
    have "m \<in> set (net g) \<or> m \<in> set (routed addrs i (snd (election_end ?s)))"
      using that by (simp add: g' acted_def)
    then show ?thesis
    proof
      assume "m \<in> set (net g)"
      then have "mail_ok addrs ids w (stages g ! w) m" using inv by blast
      then show ?thesis using inv i by (cases "i = w") (auto simp: mail_ok_def g')
    next
      assume "m \<in> set (routed addrs i (snd (election_end ?s)))"
      then show ?thesis using i id inv
        by (auto simp: routed_iff mail_ok_def e g' locked_def round_packet_def round_labels_def
            intro!: exI [of _ i] split: if_splits)
    qed
  qed
  have b: "beaten addrs ids w g' j" if "j < length addrs" "j \<noteq> w" "stages g' ! j = Standing" for j
  proof -
    have "j \<noteq> i" using that(1,3) inv by (auto simp: g' acted_def)
    then have "beaten addrs ids w g j" using inv that by (simp add: g' acted_def)
    then show ?thesis using \<open>j \<noteq> i\<close> by (auto simp: beaten_def g' acted_def)
  qed
  show ?thesis
    using inv m n b by (simp add: group_inv_def) (simp add: g' acted_def)
qed

text \<open>A member hears a packet of the round: \<open>i\<close> is the member, \<open>k\<close> who sent it.\<close>

lemma member_hears:
  assumes "member_ok addrs ids w i s st" "best addrs ids w" "i < length addrs"
    and "mail_ok addrs ids w stw (i, p, a)" "i = w \<longrightarrow> stw = st" "server_receive s p a = Some (s', effs)"
  shows "member_ok addrs ids w i s' st"
proof -
  have r: "round_packet p" using assms(4) by (simp add: mail_ok_def)
  note h = hear_round [OF r assms(6)]
  note ok = assms(1)[unfolded member_ok_def]
  have nl: "\<not> outbids s p" if "i = w"
  proof
    assume o: "outbids s p"
    then obtain k where "k < length addrs" "packet_id p = ids ! k"
      using assms(4) by (auto simp: mail_ok_def outbids_def)
    then show False using o ok that best_le [OF assms(2), of k] by (auto simp: outbids_def dest: leD)
  qed
  have np: "packet_id p = server_id s \<and> st = Over" if "i = w" "packet_label p = Some NEW_PRIMARY_ANNOUNCEMENT"
    using assms(4,5) ok that by (auto simp: mail_ok_def)
  have role: "current_role s' = current_role s"
  proof (cases "i = w")
    case True
    then show ?thesis using h(5) np by auto
  next
    case False
    then have "current_role s = BACKUP" using ok by (cases "current_role s") simp_all
    then show ?thesis using h(5) by simp
  qed
  have "election_lost s' = election_lost s" if "i = w" "st = Standing"
    using h(4) nl np that by auto
  then show ?thesis
    unfolding member_ok_def h(1-3) role using ok by simp
qed

definition heard :: "nat \<Rightarrow> group \<Rightarrow> group" where
  "heard k g = g\<lparr>net := take k (net g) @ drop (Suc k) (net g)\<rparr>"

lemma heard_net:
  assumes "k < length (net g)"
  shows "set (net g) = insert (net g ! k) (set (net (heard k g)))"
proof -
  have "set (net g) = set (take k (net g) @ net g ! k # drop (Suc k) (net g))"
    by (simp only: id_take_nth_drop [OF assms, symmetric])
  then show ?thesis by (simp add: heard_def)
qed

lemma hear_beaten:
  assumes "group_inv addrs ids w g" "best addrs ids w" "k < length (net g)" "net g ! k = (i, p, a)"
    and r: "server_receive (members g ! i) p a = Some (s', effs)" and g': "g' = acted addrs i (s', effs) (heard k g)"
    and j: "j < length addrs" "j \<noteq> w" "stages g ! j = Standing"
  shows "beaten addrs ids w g' j"
proof -
  let ?s = "members g ! i"
  note inv = assms(1)[unfolded group_inv_def]
  have net: "set (net g) = insert (i, p, a) (set (net (heard k g)))" using heard_net [OF assms(3)] assms(4) by simp
  have net': "set (net g') = set (net (heard k g)) \<union> set (routed addrs i effs)" by (simp add: g' acted_def)
  have mem: "members g' = (members g)[i := s']" by (simp add: g' acted_def heard_def)
  have mail: "mail_ok addrs ids w (stages g ! w) (i, p, a)" using inv net by blast
  then have i: "i < length addrs" and rp: "round_packet p" by (simp_all add: mail_ok_def)
  have ok: "member_ok addrs ids w i ?s (stages g ! i)" using inv i by blast
  have id: "server_id ?s = ids ! i" using ok by (simp add: member_ok_def)
  note h = hear_round [OF rp r]
  have "beaten addrs ids w g j" using inv j by blast
  then consider (lost) "election_lost (members g ! j)"
    | (asked) q where "(w, q, addrs ! j) \<in> set (net g)" "packet_label q = Some ELECTION"
    | (answered) q b where "(j, q, b) \<in> set (net g)" "packet_label q = Some ELECTION_ANSWER" "packet_id q = ids ! w"
    by (auto simp: beaten_def)
  then show ?thesis
  proof cases
    case lost
    then have "election_lost (members g' ! j)" using h(4) i inv by (cases "j = i") (simp_all add: mem)
    then show ?thesis by (simp add: beaten_def)
  next
    case asked
    show ?thesis
    proof (cases "(w, q, addrs ! j) = (i, p, a)")
      case True
      then have eq: "i = w" "p = q" "a = addrs ! j" by simp_all
      have "packet_id p \<le> server_id ?s"
        using mail asked(2) id best_le [OF assms(2)] by (auto simp: mail_ok_def eq)
      then have "Send (id_packet ELECTION_ANSWER (ids ! w)) (addrs ! j) \<in> set effs"
        using h(7) asked(2) id by (simp add: eq)
      then have "(j, id_packet ELECTION_ANSWER (ids ! w), addrs ! i) \<in> set (net g')"
        using j(1) by (auto simp: net' routed_iff reaches_def)
      moreover have "packet_label (id_packet ELECTION_ANSWER (ids ! w)) = Some ELECTION_ANSWER"
        "packet_id (id_packet ELECTION_ANSWER (ids ! w)) = ids ! w" by simp_all
      ultimately show ?thesis unfolding beaten_def by blast
    next
      case False
      then have "(w, q, addrs ! j) \<in> set (net g')" using asked(1) by (auto simp: net net')
      then show ?thesis using asked(2) unfolding beaten_def by blast
    qed
  next
    case answered
    show ?thesis
    proof (cases "(j, q, b) = (i, p, a)")
      case True
      then have "outbids ?s p" using answered(2,3) id j assms(2) by (simp add: outbids_def best_def)
      moreover have "election_in_progress ?s" using ok j(3) True by (simp add: member_ok_def)
      ultimately have "election_lost s'" using h(4) by blast
      then show ?thesis using True i inv by (simp add: beaten_def mem)
    next
      case False
      then have "(j, q, b) \<in> set (net g')" using answered(1) by (auto simp: net net')
      then show ?thesis using answered(2,3) unfolding beaten_def by blast
    qed
  qed
qed

lemma hear_mail:
  assumes "server_id s = ids ! i" "i < length addrs" "round_packet p" "server_receive s p a = Some (s', effs)"
    and "m \<in> set (routed addrs i effs)"
  shows "mail_ok addrs ids w st m"
proof -
  obtain j q b where m: "m = (j, q, b)" by (cases m)
  then obtain c where "Send q c \<in> set effs" "j < length addrs" "b = addrs ! i" using assms(5) by (auto simp: routed_iff)
  then show ?thesis using hear_round(6) [OF assms(3,4)] assms(1,2) by (auto simp: m mail_ok_def)
qed

lemma hear_inv:
  assumes "group_inv addrs ids w g" "best addrs ids w" "group_step addrs g (Hear k) = Some g'"
  shows "group_inv addrs ids w g'"
proof -
  have k: "k < length (net g)" using assms(3) by (simp split: if_splits)
  obtain i p a where ka: "net g ! k = (i, p, a)" by (rule prod_cases3)
  then obtain s' effs where r: "server_receive (members g ! i) p a = Some (s', effs)"
    and g': "g' = acted addrs i (s', effs) (heard k g)"
    using assms(3) k by (auto simp: heard_def)
  note inv = assms(1)[unfolded group_inv_def]
  have net: "set (net g) = insert (i, p, a) (set (net (heard k g)))" using heard_net [OF k] ka by simp
  have net': "set (net g') = set (net (heard k g)) \<union> set (routed addrs i effs)" by (simp add: g' acted_def)
  have mem: "members g' = (members g)[i := s']" "stages g' = stages g" by (simp_all add: g' acted_def heard_def)
  have mail: "mail_ok addrs ids w (stages g ! w) (i, p, a)" using inv net by blast
  then have i: "i < length addrs" and rp: "round_packet p" by (simp_all add: mail_ok_def)
  have ok: "member_ok addrs ids w i (members g ! i) (stages g ! i)" using inv i by blast
  have m: "member_ok addrs ids w j (members g' ! j) (stages g' ! j)" if "j < length addrs" for j
    using inv that i member_hears [OF ok assms(2) i mail _ r] by (cases "j = i") (simp_all add: mem)
  have id: "server_id (members g ! i) = ids ! i" using ok by (simp add: member_ok_def)
  have n: "mail_ok addrs ids w (stages g' ! w) x" if "x \<in> set (net g')" for x
    using that inv hear_mail [OF id i rp r] unfolding net net' mem by blast
  show ?thesis
    using inv m n hear_beaten [OF assms(1,2) k ka r g'] unfolding group_inv_def by (simp add: mem)
qed

lemma group_step_inv:
  assumes "group_inv addrs ids w g" "best addrs ids w" "group_step addrs g e = Some g'"
  shows "group_inv addrs ids w g'"
  using assms by (cases e) (blast intro: stand_inv hear_inv finish_inv)+

lemma group_run_inv:
  "group_inv addrs ids w g \<Longrightarrow> best addrs ids w \<Longrightarrow> group_run addrs g evs = Some g' \<Longrightarrow> group_inv addrs ids w g'"
  by (induction evs arbitrary: g) (auto split: option.splits dest: group_step_inv)

lemma group_start_inv:
  assumes "standbys addrs S"
  shows "group_inv addrs (map server_id S) w (group_start S)"
  using assms by (auto simp: group_inv_def group_start_def standbys_def member_ok_def)

text \<open>A member that never stands is still waiting.\<close>

lemma waiting_step:
  assumes "group_step addrs g e = Some g'" "e \<noteq> Stand d" "stages g ! d = Waiting"
  shows "stages g' ! d = Waiting"
proof (cases e)
  case (Stand i)
  then show ?thesis using assms by (auto simp: acted_def split: if_splits)
next
  case (Hear k)
  then show ?thesis using assms by (auto simp: acted_def split: if_splits prod.splits)
next
  case (Finish i)
  then show ?thesis using assms by (cases "i = d") (auto simp: acted_def split: if_splits)
qed

lemma waiting_run:
  "group_run addrs g evs = Some g' \<Longrightarrow> Stand d \<notin> set evs \<Longrightarrow> stages g ! d = Waiting \<Longrightarrow> stages g' ! d = Waiting"
proof (induction evs arbitrary: g)
  case (Cons e evs)
  then obtain g1 where "group_step addrs g e = Some g1" "group_run addrs g1 evs = Some g'"
    by (auto split: option.splits)
  then show ?case using Cons.IH [of g1] Cons.prems(2,3) waiting_step [of addrs g e g1 d] by auto
qed simp

section \<open>Who wins\<close>

text \<open>C12. Whoever stands, as often as it likes, and in whatever order the packets of the elections are
  heard, its own among them and the answers to them: when the identifiers of the others are smaller
  than that of \<open>w\<close>, no other standby is ever promoted, and \<open>w\<close> is as soon as an election of its own
  is over. The elections are undisturbed: no packet is lost, and a candidate's sleep ends after its
  packet has been heard and what was sent to it has arrived.\<close>

theorem highest_id_wins:
  assumes "standbys addrs S" "w < length S"
    and "\<forall>i<length S. i \<noteq> w \<longrightarrow> server_id (S ! i) < server_id (S ! w)"
    and "group_run addrs (group_start S) evs = Some g"
  shows "\<forall>i<length S. current_role (members g ! i) = PRIMARY \<longleftrightarrow> i = w \<and> stages g ! i = Over"
proof -
  have "best addrs (map server_id S) w" using assms(1-3) by (simp add: best_def standbys_def)
  then have "group_inv addrs (map server_id S) w g"
    using group_run_inv [OF group_start_inv [OF assms(1)] _ assms(4)] by blast
  then show ?thesis using assms(1) by (simp add: group_inv_def member_ok_def standbys_def)
qed

text \<open>Two standbys stand at once; the four packets and the three answers are heard.\<close>

definition duel_addrs :: "sockaddr list" where
  "duel_addrs = map (\<lambda>ip. \<lparr>sin_family = AF_INET, sin_port = htons 4000, sin_addr = ip\<rparr>) [1, 2]"

definition duel :: "server list" where
  "duel = map (\<lambda>ident. server_new 4000 ident BACKUP False zero_sockaddr) [5, 4]"

definition duel_events :: "group_event list" where
  "duel_events = [Stand 0, Stand 1, Hear 0, Hear 0, Hear 0, Hear 0, Hear 0, Hear 0, Hear 0, Finish 1, Finish 0]"

lemma duel_standbys: "standbys duel_addrs duel"
  by (simp add: standbys_def duel_addrs_def duel_def server_new_def broadcast_sockaddr_def)

lemma broadcast_ip: "inet_pton_into BROADCAST_ADDR 0 = 0xFFFFFFFF"
  by code_simp

lemma duel_run: "\<exists>g. group_run duel_addrs (group_start duel) duel_events = Some g \<and> stages g = [Over, Over]"
  by (simp add: duel_events_def duel_addrs_def duel_def group_start_def acted_def election_begin_def reaches_def
      broadcast_sockaddr_def broadcast_ip server_new_def server_receive_def handleElectionPacket_def
      handleElectionAnswerPacket_def heard_out_def
      election_end_def promoteToPrimary_def Let_def)

theorem highest_id_wins_witness:
  "\<exists>g. group_run duel_addrs (group_start duel) duel_events = Some g \<and>
     current_role (members g ! 0) = PRIMARY \<and> current_role (members g ! 1) = BACKUP"
proof -
  obtain g where g: "group_run duel_addrs (group_start duel) duel_events = Some g" "stages g = [Over, Over]"
    using duel_run by blast
  have S: "0 < length duel" "1 < length duel"
    "\<forall>i<length duel. i \<noteq> 0 \<longrightarrow> server_id (duel ! i) < server_id (duel ! 0)"
    by (auto simp: duel_def server_new_def less_Suc_eq)
  have "current_role (members g ! 0) = PRIMARY" "current_role (members g ! 1) \<noteq> PRIMARY"
    using highest_id_wins [OF duel_standbys S(1,3) g(1)] S(1,2) g(2) by auto
  then show ?thesis using g(1) server_role.exhaust by blast
qed

section \<open>A demoted primary in the group\<close>

text \<open>C14. A demoted primary can leave a whole group without a primary. It has no thread left that
  watches for the primary or stands for election, so it never stands again, but it still answers an
  \<open>ELECTION\<close> packet as a living superior does. In a group of
  standbys where all the others have smaller identifiers, and whose elections it does not take part
  in otherwise, nobody is ever promoted, however often they stand, as long as the elections are
  undisturbed: no packet is lost, and a candidate's sleep ends after its packet has been heard and
  what was sent to it has arrived.\<close>

theorem demoted_primary_blocks_elections:
  assumes "proc_started P0" "proc_reach P0 P" "current_role (srv P) = PRIMARY"
    and "proc_reach P P1" "current_role (srv P1) = BACKUP" "proc_reach P1 P2"
    and "standbys addrs S" "d < length S" "S ! d = srv P2"
    and "\<forall>i<length S. i \<noteq> d \<longrightarrow> server_id (S ! i) < server_id (srv P2)"
    and "group_run addrs (group_start S) evs = Some g" "Stand d \<notin> set evs"
  shows "detectors (pool P2) = 0 \<and> current_role (srv P2) = BACKUP \<and>
    (\<forall>s\<in>set (members g). current_role s = BACKUP)"
proof -
  have inv: "proc_inv P" using proc_reach_inv [OF assms(2) proc_started_inv [OF assms(1)]] .
  then have "detectors (pool P) = 0" using assms(3) by (simp add: proc_inv_def threads_ok_def)
  then have "detectors (pool P1) = 0" using detectors_decrease [OF assms(4) inv] by simp
  then have P2: "current_role (srv P2) = BACKUP" "detectors (pool P2) = 0"
    using demoted_stays [OF assms(6) proc_reach_inv [OF assms(4) inv] _ assms(5)] by simp_all
  have len: "length addrs = length S" using assms(7) by (simp add: standbys_def)
  then have "best addrs (map server_id S) d" using assms(8-10) by (simp add: best_def)
  then have g: "group_inv addrs (map server_id S) d g"
    using group_run_inv [OF group_start_inv [OF assms(7)] _ assms(11)] by blast
  have "stages (group_start S) ! d = Waiting" using assms(8) by (simp add: group_start_def)
  then have "stages g ! d = Waiting" by (rule waiting_run [OF assms(11,12)])
  then have n: "current_role (members g ! i) \<noteq> PRIMARY" if "i < length (members g)" for i
    using g that unfolding group_inv_def member_ok_def by (metis stage.distinct(3))
  have "current_role s = BACKUP" if s: "s \<in> set (members g)" for s
  proof -
    obtain i where "i < length (members g)" "members g ! i = s" using s unfolding in_set_conv_nth by blast
    then show ?thesis using n by (cases "current_role s") auto
  qed
  then show ?thesis using P2 by blast
qed

text \<open>A primary of identifier 5 is demoted by the announcement of another; then a standby of identifier
  4 stands, hears its answer and stays a backup.\<close>

definition demoted :: process where
  "demoted = deposed \<lparr>srv = won, rbuf = replicate PACKET_SIZE 0, pool = {#HeartbeatSender#}\<rparr>
     (id_packet NEW_PRIMARY_ANNOUNCEMENT 8) zero_sockaddr"

definition blocked :: "server list" where
  "blocked = [srv demoted, server_new 4000 4 BACKUP False zero_sockaddr]"

definition blocked_events :: "group_event list" where
  "blocked_events = [Stand 1, Hear 0, Hear 0, Hear 0, Hear 0, Finish 1]"

lemma srv_demoted: "srv demoted =
    (server_new 4000 5 BACKUP False zero_sockaddr)\<lparr>primary_server_addr := zero_sockaddr\<rparr>"
  by (simp add: demoted_def deposed_def won_def server_new_def handleNewPrimaryAnnouncementPacket_def Let_def)

lemma blocked_run:
  "\<exists>g. group_run duel_addrs (group_start blocked) blocked_events = Some g \<and> stages g = [Waiting, Over]"
  by (simp add: blocked_events_def duel_addrs_def blocked_def group_start_def acted_def election_begin_def reaches_def
      broadcast_sockaddr_def broadcast_ip server_new_def server_receive_def handleElectionPacket_def srv_demoted
      handleElectionAnswerPacket_def heard_out_def election_end_def promoteToPrimary_def Let_def)

theorem demoted_primary_blocks_elections_witness:
  "\<exists>g. group_run duel_addrs (group_start blocked) blocked_events = Some g \<and> stages g ! 1 = Over \<and>
     (\<forall>s\<in>set (members g). current_role s = BACKUP)"
proof -
  obtain P where P: "proc_reach cold_start P" "srv P = won" "rbuf P = replicate PACKET_SIZE 0"
    "pool P = {#HeartbeatSender#}" using cold_start_wins by blast
  have p: "P = \<lparr>srv = won, rbuf = replicate PACKET_SIZE 0, pool = {#HeartbeatSender#}\<rparr>"
    using P(2-4) by (cases P) simp
  have role: "current_role (srv P) = PRIMARY" by (simp add: P(2) won_def server_new_def)
  have "proc_step P (snd (handleNewPrimaryAnnouncementPacket (srv P) (id_packet NEW_PRIMARY_ANNOUNCEMENT 8)
      zero_sockaddr)) demoted"
    unfolding demoted_def p by (rule deposed_step) simp_all
  then have d: "proc_reach P demoted" by (rule proc_reach.step [OF proc_reach.init])
  have dr: "current_role (srv demoted) = BACKUP" "server_id (srv demoted) = 5"
    by (simp_all add: srv_demoted server_new_def)
  have S: "standbys duel_addrs blocked" "0 < length blocked" "blocked ! 0 = srv demoted"
    "\<forall>i<length blocked. i \<noteq> 0 \<longrightarrow> server_id (blocked ! i) < server_id (srv demoted)"
    by (auto simp: standbys_def duel_addrs_def blocked_def srv_demoted server_new_def broadcast_sockaddr_def
        less_Suc_eq)
  obtain g where g: "group_run duel_addrs (group_start blocked) blocked_events = Some g" "stages g = [Waiting, Over]"
    using blocked_run by blast
  have n: "Stand 0 \<notin> set blocked_events" by (simp add: blocked_events_def)
  show ?thesis
    using demoted_primary_blocks_elections [OF cold_start_started P(1) role d dr(1) proc_reach.init S g(1) n]
      g by auto
qed

end
