(* ===== verification/Spec2Isabelle.thy ===== *)
theory Spec2Isabelle
  imports BankTheorems ElectionTheorems RWLockTheorems Console StartTheorems ClientTheorems
    ClientText Mains Network BankBook ClusterTheorems Failover Reordering ElectionRound
begin

text \<open>
  A verification development for the replicated bank over UDP of src/T1 (C++14, compiled on
  amd64).

  \<^bold>\<open>The program.\<close> Servers find each other by broadcast; one becomes the primary, keeps the accounts
  and executes transfers, and the others hold copies of its state and elect a new primary when
  its heartbeats stop. Clients find the primary by broadcast, read commands (an address and an
  amount) from standard input and send one request after another, with up to five attempts each.
  Everything travels in one \<open>struct Packet\<close>, a type and a union.

  \<^bold>\<open>The theories and the code.\<close>
  \<^item> \<open>Prelude\<close>, \<open>Float32\<close>, \<open>CText\<close>, \<open>Inet\<close>: the language and its library. 32-bit integers (an
    \<open>int\<close> of the code is an \<open>int\<close> with \<open>wrap32\<close>, an \<open>uint32_t\<close> a word), bytes and network order, IEEE
    binary32 with its rounding and its bits (one NaN), C strings and decimal numbers, \<open>inet_ntop\<close>
    and \<open>inet_pton\<close>.
  \<^item> \<open>Format\<close>, \<open>TimeStamp\<close>: \<open>getCurrentFormattedTime\<close> of utils.cpp, \<open>std::setw\<close>, and a \<open>float\<close> in a
    stream, with six significant digits or two fixed decimals; and a reader of time stamps that
    gives back the time.
  \<^item> \<open>Wire\<close>: include/utils.h. The structs and the union, byte by byte, with round trips and the
    buffer that \<open>recvfrom\<close> overwrites in part. A locale states the contract of a codec.
  \<^item> \<open>Vec\<close>, \<open>KeyedTable\<close>: \<open>std::vector\<close> with iterators that remember the block they point into, so
    that using one after a reallocation is undefined; and the contract of a table with a key
    (locale), interpreted on the vector.
  \<^item> \<open>ServerState\<close>, \<open>Bank\<close>: include/Server.h, include/ClientDTO.h, and in server/Server.cpp everything from
    \<open>findClient\<close> to \<open>processTransaction\<close> with the propagation, and transactions/transactionServer.cpp.
    A \<open>server\<close> is the record of the class's fields; an operation returns the new record and its
    effects (locks, sends, notifications, started threads) in order; \<open>None\<close> is undefined behaviour.
  \<^item> \<open>BankSpec\<close>, \<open>Ledger\<close>, \<open>BankRuns\<close>, \<open>BankTheorems\<close>, \<open>BankBook\<close>: what a request does on every branch; the
    invariant that ties balances, numbers and money to the history; every interleaving of requests
    as a run; and the bank as a map.
  \<^item> \<open>Replication\<close>, \<open>Handlers\<close>, \<open>HandlerTheorems\<close>, \<open>ReplicaLemmas\<close>, \<open>ReplicaTheorems\<close>, \<open>Snapshot\<close>: the update
    handlers, the registration of a backup, and that copies agree.
  \<^item> \<open>Cluster\<close>, \<open>ClusterTheorems\<close>, \<open>Reordering\<close>: a primary and any number of backups, each with the part
    of its copy that is not sent yet and a channel that keeps the order. Any server may register,
    whatever it holds, and register again; the ghost field \<open>fo_astray\<close> records that a backup was not
    empty when it registered, or registered again, or received an update before the copy, and the
    invariant speaks of the others. Then what two updates do that change places.
  \<^item> \<open>Reigns\<close>, \<open>Failover\<close>: primaries that follow one another, each a backup of the one before that has
    not gone astray; and a client with its network in front of them.
  \<^item> \<open>Election\<close>, \<open>Udp\<close>, \<open>ServerLoop\<close>, \<open>StartTheorems\<close>: heartbeats, elections and announcements; the
    descriptors of udp/; discovery/discoveryServer.cpp and \<open>Server::init\<close> with its loop.
  \<^item> \<open>Process\<close>, \<open>ProcessTheorems\<close>, \<open>ElectionTheorems\<close>: a process as its state, its receive buffer and a
    multiset of threads, cut at their sleeps and waits, with every interleaving. A packet that asks
    for a transfer only starts a thread in \<open>server_receive\<close>; what the thread does is a step of its
    own.
  \<^item> \<open>ElectionRound\<close>: the elections of a group of standbys, which hear each other's packets, with their
    answers and announcements, in any order.
  \<^item> \<open>RWLock\<close>, \<open>RWLockTheorems\<close>: \<open>reader_lock\<close> to \<open>writer_unlock\<close>, with mutex, condition variables and
    spurious wake-ups. The other theories take a section between lock and unlock as one step;
    mutual exclusion here and the lock discipline of \<open>process_invariant\<close> are why they may.
  \<^item> \<open>Console\<close>: server/serverInterface.cpp with the text of its lines, and the table of \<open>printClients\<close>.
  \<^item> \<open>Utils\<close>, \<open>Client\<close>, \<open>ClientTheorems\<close>, \<open>ClientInterface\<close>, \<open>Mains\<close>: utils.cpp, discovery/discoveryClient.cpp,
    transactions/transactionClient.cpp, client/ and the two \<open>main\<close>s. The queue of commands is an
    instance of the locale \<open>fifo\<close>.
  \<^item> \<open>ClientText\<close>: the lines of client/clientInterface.cpp, as bytes.
  \<^item> \<open>Exchange\<close>, \<open>Network\<close> and this theory: a client and the server together, over a network that loses,
    repeats and reorders packets.

  \<^bold>\<open>What the theorems show.\<close> On a primary no request is undefined, each number of a client is executed
  at most once and in order, the balances are what the history says, money is neither made nor
  lost, and the bank is observably a map. This carries over to backups that registered once, while
  they were empty: what is on the way to such a backup leads it to the primary's state, wherever
  registrations, requests and other backups come in between, as long as no update overtakes its
  copy. Any number of failovers among such backups, each at any moment, keeps the books, and each
  of them can always catch up with its primary. As long as the one that takes over has received
  the updates of a client, each primary in turn serves the client, and none of its numbers is
  executed twice or left out. The lock excludes and loses no wake-up; a process keeps its
  invariant in every interleaving; the greatest identifier wins the elections of a group whose
  packets all arrive in time. A client and the server stay in step over a bad network, commands are
  executed in the order typed, and the client's numbers count them. The lines of the console and
  of the client's terminal are read back to the time, the addresses, the numbers and the balances
  below a million that they show. The other theorems say where the code falls short: negative
  values, rounding, iterators used after a reallocation, a backup that registers again and
  refreshes nothing but doubles its history, so that a transfer it missed is executed again, two
  primaries that both step down for good, a demoted primary that answers the elections of the
  servers below it and so blocks them, a client whose last transfers the new primary lacks and
  that is never served again, replies taken for the answer to another command, short datagrams,
  an update that overtakes the copy of a registration, updates that change places and let a
  transfer be executed twice, large balances, of which the client prints six digits.

  \<^bold>\<open>Bounds.\<close> Exactness of balances and conservation assume non-negative values and at most 16777
  registrations (\<open>CLIENT_LIMIT\<close>): then all the money is below \<open>2 ^ 24\<close>, up to which a \<open>float\<close> holds
  every integer; \<open>rounding_loses_money\<close> is what happens there. A client's number stays below
  \<open>2 ^ 31\<close> for as many replies as the theorem about it counts. The retry loop ends by its measure;
  the search loop of a server is a recursion over what the environment delivers.

  \<^bold>\<open>Channels.\<close> Clients reach the server over a network that loses, repeats and reorders. The channels
  from a primary to its backups keep the order and lose nothing in \<open>Cluster\<close> and \<open>Reigns\<close>, which UDP
  does not promise: \<open>swapped_updates_repeat_transfer\<close>, \<open>registration_refreshes_nothing\<close> and
  \<open>client_left_behind\<close> are what happens otherwise. In \<open>Reigns\<close> only a backup that has not gone astray
  takes over: a registration repairs no old copy. A survivor of a reign that holds state may
  register with the next primary, and then it follows as one that has gone astray. In
  \<open>ElectionRound\<close> nothing is lost and the sleep of a candidate is long enough.

  \<^bold>\<open>What the environment decides\<close>, as arguments of the definitions: the success of system calls, the
  datagrams that arrive, the clock of the search loop, the interfaces of the host, which blocked
  thread is woken, and the contents of memory that the code does not initialise.

  \<^bold>\<open>Not modelled.\<close> The wording of the progress and error messages of the server, its threads and the
  socket classes (\<open>sendMessage\<close> excepted), which carry no state; the sign with which a NaN is printed;
  character arrays without a NUL, which the code would read past their end (the model stops at the
  end, and \<open>receive_undefined_iff\<close> is about packets whose addresses have one); a conversion of a
  balance out of range to \<open>int\<close>, which is undefined in C++ and gives the least \<open>int\<close> here; data races on fields that are accessed without a lock (\<open>current_role\<close>, \<open>election_in_progress\<close>
  and \<open>backup_servers\<close> in an announcement, \<open>server_address\<close> in \<open>discoverServer\<close>), which are undefined in
  C++ and single steps here; the signal handler's use of a mutex, which is a step of the interface
  here; signed overflow, which is undefined in C++ and wraps here; real time (any wait may time out
  at any moment); the build and container files.
\<close>

section \<open>A client and the server\<close>

text \<open>C23. A request survives the way to the server and the reply the way back, over the bytes of the
  packets: the server executes exactly the transfer that the client asked for, on the client's
  address and number, and the client accepts the reply for this number and for no other, and
  reads the status, the balance and the last accepted number that the server meant.\<close>

theorem request_reply_exchange:
  assumes "server_wf s" "in_i32 v" "in_i32 q" "inet_pton dest = Some x"
    and "request_thread s (request_packet junk q dest v) addr = Some (s', effs)"
    and "length junk' = PACKET_SIZE"
  shows "\<exists>effs' rp ack.
    processTransaction s (inet_ntop (sin_addr addr)) x v q = Some (s', effs', rp) \<and>
    effs = effs' @ [Send ack addr] \<and>
    (\<forall>n. in_i32 n \<longrightarrow> receiveResponse junk' (Some (ack, sender)) n = (ack, n = q)) \<and>
    status_of_code (ntohl (ak_status (data_ack ack))) = Some (rp_status rp) \<and>
    ak_new_balance (data_ack ack) = rp_balance rp \<and>
    ntohl (ak_last_req (data_ack ack)) = u32_of_int (rp_last_req rp)"
proof -
  obtain effs' rp where p: "processTransaction s (inet_ntop (sin_addr addr)) x v q = Some (s', effs', rp)"
    "effs = effs' @ [Send (ack_packet q rp) addr]" "canonical (rp_balance rp)"
    using assms(1-5) by (rule exchange_steps)
  have "(u32_of_int q = u32_of_int n) = (n = q)" if "in_i32 n" for n
    using u32_of_int_inject [OF assms(3) that] by auto
  then show ?thesis
    using p receive_ack [OF assms(6) p(3)]
    by (intro exI [of _ effs'] exI [of _ rp] exI [of _ "ack_packet q rp"]) simp
qed

lemma demo_request:
  obtains s' effs where
    "request_thread demo (request_packet (replicate PACKET_SIZE 0) 1 (inet_ntop 2) 100) client1_addr =
       Some (s', effs)"
proof -
  obtain s' effs r where "processTransaction demo (inet_ntop 1) 2 100 1 = Some (s', effs, r)"
    by (rule demo_transfer)
  with that show ?thesis
    by (simp add: request_thread_def client1_addr_def inet_pton_into_def in_i32_def Let_def)
qed

theorem request_reply_exchange_witness:
  "\<exists>s' effs ack. request_thread demo (request_packet (replicate PACKET_SIZE 0) 1 (inet_ntop 2) 100)
       client1_addr = Some (s', effs) \<and>
     snd (receiveResponse (replicate PACKET_SIZE 0) (Some (ack, zero_sockaddr)) 1) \<and>
     \<not> snd (receiveResponse (replicate PACKET_SIZE 0) (Some (ack, zero_sockaddr)) 2)"
proof -
  obtain s' effs where r: "request_thread demo (request_packet (replicate PACKET_SIZE 0) 1 (inet_ntop 2) 100)
      client1_addr = Some (s', effs)" by (rule demo_request)
  have i: "in_i32 1" "in_i32 2" "in_i32 100" by (simp_all add: in_i32_def)
  obtain ack where "\<forall>n. in_i32 n \<longrightarrow>
      receiveResponse (replicate PACKET_SIZE 0) (Some (ack, zero_sockaddr)) n = (ack, n = 1)"
    using request_reply_exchange [OF demo_wf i(3,1) inet_pton_ntop r, of "replicate PACKET_SIZE 0" zero_sockaddr]
    by auto
  then have "snd (receiveResponse (replicate PACKET_SIZE 0) (Some (ack, zero_sockaddr)) 1)"
    "\<not> snd (receiveResponse (replicate PACKET_SIZE 0) (Some (ack, zero_sockaddr)) 2)"
    using i by simp_all
  with r show ?thesis by blast
qed

section \<open>A client that starts again\<close>

text \<open>C37. A client that starts again counts from 1, and the server still knows its last number: while
  the client's number is not greater, its command is answered as a duplicate, no account changes,
  and the client moves on to the next number. The command is lost: nothing executes it.\<close>

theorem restarted_client_loses_command:
  assumes "server_wf s" "account s (inet_ntop (sin_addr addr)) = Some cl" "account s (inet_ntop x) \<noteq> None"
    and "in_i32 (sequence_number c)" "sequence_number c \<le> cl_last_req cl"
    and "validateInput cmd = Some (dest, v)" "inet_pton dest = Some x"
    and "request_thread s (request_packet junk (sequence_number c) dest v) addr = Some (s', effs @ [Send ack addr])"
    and "at_heard (env 0) = []" "length (at_response_junk (env 0)) = PACKET_SIZE"
    and "at_reply (env 0) = Some (ack, sender)"
  shows "clients s' = clients s \<and> transaction_history s' = transaction_history s \<and>
    (\<exists>sent. processCommand c fds cmd env e =
      (incrementSequenceNumber c, fds, sent,
       [LogDuplicate (sequence_number c) (u32_of_int (cl_last_req cl))]))"
proof -
  let ?q = "sequence_number c" and ?a = "inet_ntop (sin_addr addr)"
  have v: "in_i32 v" using assms(6) by (auto simp: validateInput_def Let_def split: option.splits if_splits)
  obtain effs' rp where p: "processTransaction s ?a x v ?q = Some (s', effs', rp)"
    and ack: "effs @ [Send ack addr] = effs' @ [Send (ack_packet ?q rp) addr]"
    and can: "canonical (rp_balance rp)"
    using assms(1) v assms(4,7,8) by (rule exchange_steps)
  have a: "ack = ack_packet ?q rp" using ack by simp
  have dup: "verdict s ?a (inet_ntop x) v ?q = ERROR_DUPLICATE_REQUEST"
    using assms(2,3,5) by (auto simp: verdict_def)
  note D = processTransactionD [OF assms(1,4) p]
  have s': "s' = setupDuplicateRequestLog s ?a (inet_ntop x) v ?q"
    using D(1) dup by (simp add: outcome_def)
  have rp: "rp_status rp = ERROR_DUPLICATE_REQUEST" "rp_last_req rp = cl_last_req cl"
    using D(2,4) dup assms(2) by (simp_all add: s' last_req_of_def)
  have resp: "receiveResponse (at_response_junk (env 0)) (at_reply (env 0)) ?q = (ack, True)"
    using receive_ack(1) [OF assms(10) can, of ?q sender ?q] assms(11) a by simp
  then have "answered ?q (env 0)" by (simp add: answered_def)
  from processCommand_answered [where env = env, OF assms(6) this assms(9) resp, of fds e]
  obtain sent where "processCommand c fds cmd env e =
      (case handle_ack c fds dest v (data_ack ack) e of
         (c', fds', effs2, logs) \<Rightarrow> (c', fds', sent @ effs2, logs))" by blast
  moreover have "handle_ack c fds dest v (data_ack ack) e =
      (incrementSequenceNumber c, fds, [], [LogDuplicate ?q (u32_of_int (cl_last_req cl))])"
    using receive_ack(2) [OF assms(10) can, of ?q] rp
    by (simp add: a handle_ack_def Let_def del: status_code.simps)
  ultimately show ?thesis by (simp add: s' setupDuplicateRequestLog_def)
qed

definition late_demo :: server where
  "late_demo = demo\<lparr>clients := demo_vec [demo_row 1 1000 3, demo_row 2 1000 0]\<rparr>"

lemma late_demo_facts:
  "server_wf late_demo" "account late_demo (inet_ntop 1) = Some (demo_row 1 1000 3)"
  "account late_demo (inet_ntop 2) = Some (demo_row 2 1000 0)"
  using demo_wf
  by (simp_all add: late_demo_def server_wf_def table_wf_def vec_wf_def valid_client_def in_i32_def demo_simps)

lemma inet_ntop_no_space: "c \<in> set (inet_ntop a) \<Longrightarrow> \<not> is_space c"
proof -
  assume "c \<in> set (inet_ntop a)"
  then have "is_digit c \<or> c = CHR ''.''"
    using show_nat_digits by (auto simp: inet_ntop_def split: list.splits)
  then show ?thesis using not_space_digit by (auto simp: is_space_def)
qed

lemma demo_command: "validateInput (inet_ntop 2 @ '' '' @ show_int 100) = Some (inet_ntop 2, 100)"
  using validateInput_written [of "inet_ntop 2" "[]" "'' ''" "[]" 100] inet_ntop_no_space
  by (simp add: is_space_def in_i32_def)

lemma late_request:
  obtains s' effs ack where
    "request_thread late_demo (request_packet (replicate PACKET_SIZE 0) 1 (inet_ntop 2) 100) client1_addr =
       Some (s', effs @ [Send ack client1_addr])"
proof -
  have i: "in_i32 1" by (simp add: in_i32_def)
  obtain s' effs r where "processTransaction late_demo (inet_ntop 1) 2 100 1 = Some (s', effs, r)"
    using processTransaction_eq [OF late_demo_facts(1) i] by (simp add: Let_def)
  with that show ?thesis
    by (simp add: request_thread_def client1_addr_def inet_pton_into_def in_i32_def Let_def)
qed

theorem restarted_client_loses_command_witness:
  "\<exists>s' effs ack sent. request_thread late_demo
       (request_packet (replicate PACKET_SIZE 0) 1 (inet_ntop 2) 100) client1_addr =
       Some (s', effs @ [Send ack client1_addr]) \<and>
     clients s' = clients late_demo \<and>
     processCommand (client_new 4000) [] (inet_ntop 2 @ '' '' @ show_int 100)
       (\<lambda>_. silent\<lparr>at_reply := Some (ack, zero_sockaddr)\<rparr>) found =
       (incrementSequenceNumber (client_new 4000), [], sent, [LogDuplicate 1 3])"
proof -
  obtain s' effs ack where r:
    "request_thread late_demo (request_packet (replicate PACKET_SIZE 0) 1 (inet_ntop 2) 100) client1_addr =
       Some (s', effs @ [Send ack client1_addr])" by (rule late_request)
  let ?env = "\<lambda>_ :: nat. silent\<lparr>at_reply := Some (ack, zero_sockaddr)\<rparr>"
  have q: "sequence_number (client_new 4000) = 1" by (simp add: client_new_def)
  have "clients s' = clients late_demo \<and> transaction_history s' = transaction_history late_demo \<and>
    (\<exists>sent. processCommand (client_new 4000) [] (inet_ntop 2 @ '' '' @ show_int 100) ?env found =
      (incrementSequenceNumber (client_new 4000), [], sent,
       [LogDuplicate (sequence_number (client_new 4000)) (u32_of_int (cl_last_req (demo_row 1 1000 3)))]))"
  proof (rule restarted_client_loses_command [OF late_demo_facts(1) _ _ _ _ demo_command inet_pton_ntop])
    show "account late_demo (inet_ntop (sin_addr client1_addr)) = Some (demo_row 1 1000 3)"
      using late_demo_facts(2) by (simp add: client1_addr_def)
    show "request_thread late_demo (request_packet (replicate PACKET_SIZE 0)
        (sequence_number (client_new 4000)) (inet_ntop 2) 100) client1_addr =
      Some (s', effs @ [Send ack client1_addr])" using r q by simp
  qed (use late_demo_facts(3) q in \<open>simp_all add: silent_def in_i32_def\<close>)
  then obtain sent where "clients s' = clients late_demo"
    "processCommand (client_new 4000) [] (inet_ntop 2 @ '' '' @ show_int 100) ?env found =
      (incrementSequenceNumber (client_new 4000), [], sent, [LogDuplicate 1 3])"
    using q by (auto simp: u32_of_int_def)
  with r show ?thesis by blast
qed


section \<open>A reply that comes late\<close>

text \<open>C38. Replies are matched by number only, and a refused command leaves the number as it is: a second
  copy of its refusal, which a retry leaves in the socket, answers the next command. The user is
  told that the money is not enough while the server executes the transfer, and the client keeps
  a number that the server has used up.\<close>

theorem stale_refusal_misreports:
  assumes "server_wf s" "in_i32 (sequence_number c)"
    and "server_wf s0" "processTransaction s0 a0 x0 v0 (sequence_number c) = Some (s1, effs0, r0)"
    and "rp_status r0 = ERROR_INSUFFICIENT_FUNDS"
    and "validateInput cmd = Some (dest, v)" "inet_pton dest = Some x"
    and "verdict s (inet_ntop (sin_addr addr)) (inet_ntop x) v (sequence_number c) = SUCCESS"
    and "request_thread s (request_packet junk (sequence_number c) dest v) addr = Some (s', effs)"
    and "at_heard (env 0) = []" "length (at_response_junk (env 0)) = PACKET_SIZE"
    and "at_reply (env 0) = Some (ack_packet (sequence_number c) r0, sender)"
  shows "length (transaction_history s') = Suc (length (transaction_history s)) \<and>
    map_option cl_last_req (account s' (inet_ntop (sin_addr addr))) = Some (sequence_number c) \<and>
    (\<exists>sent. processCommand c fds cmd env e = (c, fds, sent, [LogInsufficientFunds]))"
proof -
  let ?q = "sequence_number c" and ?a = "inet_ntop (sin_addr addr)"
  have v: "in_i32 v" using assms(6) by (auto simp: validateInput_def Let_def split: option.splits if_splits)
  obtain effs' rp where "processTransaction s ?a x v ?q = Some (s', effs', rp)"
    using assms(1) v assms(2,7,9) by (rule exchange_steps)
  then have s': "s' = outcome s ?a (inet_ntop x) v ?q" by (rule processTransactionD(1) [OF assms(1,2)])
  obtain cl where cl: "account s ?a = Some cl" using assms(8) by (rule verdict_SUCCESSE)
  have "cl_last_req (settle_row ?a (inet_ntop x) v ?q cl) = ?q"
    using account_address [OF cl] by (simp add: last_req_settle_row)
  then have served: "length (transaction_history s') = Suc (length (transaction_history s))"
    "map_option cl_last_req (account s' ?a) = Some ?q"
    using assms(8) cl by (simp_all add: s' outcome_history account_outcome)
  note D0 = processTransactionD [OF assms(3,2,4)]
  have "account s1 = account s0" using D0(1,2) assms(5) by (simp add: outcome_def)
  then have can: "canonical (rp_balance r0)"
    unfolding D0(3) using account_valid [OF assms(3), of a0]
    by (auto simp: balance_of_def valid_client_def split: option.splits)
  have resp: "receiveResponse (at_response_junk (env 0)) (at_reply (env 0)) ?q = (ack_packet ?q r0, True)"
    using receive_ack(1) [OF assms(11) can, of ?q sender ?q] assms(12) by simp
  then have "answered ?q (env 0)" by (simp add: answered_def)
  from processCommand_answered [where env = env, OF assms(6) this assms(10) resp, of fds e]
  obtain sent where "processCommand c fds cmd env e =
      (case handle_ack c fds dest v (data_ack (ack_packet ?q r0)) e of
         (c', fds', effs2, logs) \<Rightarrow> (c', fds', sent @ effs2, logs))" by blast
  moreover have "handle_ack c fds dest v (data_ack (ack_packet ?q r0)) e = (c, fds, [], [LogInsufficientFunds])"
    using receive_ack(2) [OF assms(11) can, of ?q] assms(5)
    by (simp add: handle_ack_def Let_def del: status_code.simps)
  ultimately show ?thesis using served by simp
qed

theorem stale_refusal_misreports_witness:
  "\<exists>s1 effs0 r0 s' effs sent. processTransaction demo (inet_ntop 1) 2 5000 1 = Some (s1, effs0, r0) \<and>
     request_thread s1 (request_packet (replicate PACKET_SIZE 0) 1 (inet_ntop 2) 100) client1_addr = Some (s', effs) \<and>
     length (transaction_history s') = 1 \<and>
     processCommand (client_new 4000) [] (inet_ntop 2 @ '' '' @ show_int 100)
       (\<lambda>_. silent\<lparr>at_reply := Some (ack_packet 1 r0, zero_sockaddr)\<rparr>) found =
       (client_new 4000, [], sent, [LogInsufficientFunds])"
proof -
  have i: "in_i32 1" "in_i32 5000" by (simp_all add: in_i32_def)
  have v0: "verdict demo (inet_ntop 1) (inet_ntop 2) 5000 1 = ERROR_INSUFFICIENT_FUNDS"
    by (simp add: verdict_def)
  obtain effs0 r0 where p: "processTransaction demo (inet_ntop 1) 2 5000 1 = Some (demo, effs0, r0)"
    "rp_status r0 = ERROR_INSUFFICIENT_FUNDS"
    using v0 by (simp add: processTransaction_eq [OF demo_wf i(1)] Let_def outcome_def)
  obtain s' effs where r: "request_thread demo (request_packet (replicate PACKET_SIZE 0) 1 (inet_ntop 2) 100)
      client1_addr = Some (s', effs)" by (rule demo_request)
  let ?env = "\<lambda>_ :: nat. silent\<lparr>at_reply := Some (ack_packet 1 r0, zero_sockaddr)\<rparr>"
  have q: "sequence_number (client_new 4000) = 1" by (simp add: client_new_def)
  have "length (transaction_history s') = Suc (length (transaction_history demo)) \<and>
    map_option cl_last_req (account s' (inet_ntop (sin_addr client1_addr))) = Some (sequence_number (client_new 4000)) \<and>
    (\<exists>sent. processCommand (client_new 4000) [] (inet_ntop 2 @ '' '' @ show_int 100) ?env found =
      (client_new 4000, [], sent, [LogInsufficientFunds]))"
  proof (rule stale_refusal_misreports [OF demo_wf _ demo_wf _ p(2) demo_command inet_pton_ntop])
    show "verdict demo (inet_ntop (sin_addr client1_addr)) (inet_ntop 2) 100 (sequence_number (client_new 4000)) = SUCCESS"
      using demo_verdict q by (simp add: client1_addr_def)
  qed (use p(1) r q i in \<open>simp_all add: silent_def\<close>)
  moreover have "length (transaction_history demo) = 0" by (simp add: demo_simps)
  ultimately show ?thesis using p r by auto
qed

end
